(* ===== verification/Go_Prelude.thy ===== *)
theory Go_Prelude
  imports Main "HOL-Library.Word"
begin

text \<open>
  What every component shares: Go's error values, the effect of a call that may panic
  (\<open>go\<close>), the functions of the packages \<open>strings\<close> and \<open>strconv\<close> that the source calls,
  and their lemmas. A Go string is a sequence of bytes, which is HOL's \<open>string\<close>
  (a list of 8-bit characters); \<open>len\<close> is \<open>length\<close>. \<open>strings.ToLower\<close> and
  \<open>strings.ToUpper\<close> are modelled on ASCII letters and leave every other byte alone.
\<close>

named_theorems go_defs "unfolding of the effect combinators"
named_theorems str_simps "evaluation of the string functions"

section \<open>Errors and panics\<close>

text \<open>The sentinel errors the source compares by identity, and every other error by its text.\<close>

datatype goerr = ErrEOF | ErrShortWrite | ErrNetClosed | ErrText string

fun error_text :: "goerr \<Rightarrow> string" where
  "error_text ErrEOF = ''EOF''"
| "error_text ErrShortWrite = ''short write''"
| "error_text ErrNetClosed = ''use of closed network connection''"
| "error_text (ErrText m) = m"

text \<open>A call returns a value or panics; either way it leaves a state behind.\<close>

datatype 'a gores = Val 'a | Panic string

type_synonym ('s, 'a) go = "'s \<Rightarrow> 'a gores \<times> 's"

definition ret :: "'a \<Rightarrow> ('s, 'a) go" where
  [go_defs]: "ret x = (\<lambda>s. (Val x, s))"

definition gopanic :: "string \<Rightarrow> ('s, 'a) go" where
  [go_defs]: "gopanic m = (\<lambda>s. (Panic m, s))"

definition bnd :: "('s, 'a) go \<Rightarrow> ('a \<Rightarrow> ('s, 'b) go) \<Rightarrow> ('s, 'b) go" where
  [go_defs]: "bnd m f = (\<lambda>s. case m s of (Val x, s') \<Rightarrow> f x s' | (Panic e, s') \<Rightarrow> (Panic e, s'))"

definition thn :: "('s, 'a) go \<Rightarrow> ('s, 'b) go \<Rightarrow> ('s, 'b) go" where
  [go_defs]: "thn m k = bnd m (\<lambda>_. k)"

definition gets :: "('s \<Rightarrow> 'a) \<Rightarrow> ('s, 'a) go" where
  [go_defs]: "gets f = (\<lambda>s. (Val (f s), s))"

definition modify :: "('s \<Rightarrow> 's) \<Rightarrow> ('s, unit) go" where
  [go_defs]: "modify f = (\<lambda>s. (Val (), f s))"

definition go_when :: "bool \<Rightarrow> ('s, unit) go \<Rightarrow> ('s, unit) go" where
  [go_defs]: "go_when b m = (if b then m else ret ())"

text \<open>The message of the panic a nil pointer causes.\<close>

definition nil_deref :: string where
  "nil_deref = ''invalid memory address or nil pointer dereference''"

lemma bnd_ret [simp]: "bnd (ret x) f = f x"
  by (simp add: go_defs)

lemma bnd_gopanic [simp]: "bnd (gopanic e) f = gopanic e"
  by (simp add: go_defs)

lemma bnd_assoc: "bnd (bnd m f) g = bnd m (\<lambda>x. bnd (f x) g)"
  by (rule ext) (simp add: go_defs split: prod.split gores.split)

lemma bnd_gets [simp]: "bnd (gets f) g s = g (f s) s"
  by (simp add: go_defs)

lemma bnd_modify [simp]: "bnd (modify f) g s = g () (f s)"
  by (simp add: go_defs)

lemma thn_modify [simp]: "thn (modify f) k s = k (f s)"
  by (simp add: go_defs)

lemma bnd_Val: "m s = (Val x, s') \<Longrightarrow> bnd m f s = f x s'"
  by (simp add: go_defs)

lemma bnd_Panic: "m s = (Panic e, s') \<Longrightarrow> bnd m f s = (Panic e, s')"
  by (simp add: go_defs)

lemma bnd_apply:
  "bnd m f s = (case m s of (Val x, s') \<Rightarrow> f x s' | (Panic e, s') \<Rightarrow> (Panic e, s'))"
  by (simp add: go_defs)

section \<open>Machine integers\<close>

text \<open>A 64-bit signed integer holds every value of its range.\<close>

lemma sint64_word_of_int:
  "- (2 ^ 63) \<le> k \<Longrightarrow> k < 2 ^ 63 \<Longrightarrow> sint (word_of_int k :: 64 word) = k"
  by (subst signed_of_int) (simp add: signed_take_bit_int_eq_self)

section \<open>Bytes\<close>

abbreviation byte :: "char \<Rightarrow> nat" where
  "byte c \<equiv> of_char c"

definition crlf :: string where
  "crlf = [CHR 0x0D, CHR 0x0A]"

lemma length_crlf [simp]: "length crlf = 2"
  by (simp add: crlf_def)

definition is_digit :: "char \<Rightarrow> bool" where
  [str_simps]: "is_digit c \<longleftrightarrow> 48 \<le> byte c \<and> byte c \<le> 57"

definition is_upper :: "char \<Rightarrow> bool" where
  [str_simps]: "is_upper c \<longleftrightarrow> 65 \<le> byte c \<and> byte c \<le> 90"

definition is_lower :: "char \<Rightarrow> bool" where
  [str_simps]: "is_lower c \<longleftrightarrow> 97 \<le> byte c \<and> byte c \<le> 122"

definition lower_char :: "char \<Rightarrow> char" where
  [str_simps]: "lower_char c = (if is_upper c then char_of (byte c + 32) else c)"

definition upper_char :: "char \<Rightarrow> char" where
  [str_simps]: "upper_char c = (if is_lower c then char_of (byte c - 32) else c)"

definition to_lower :: "string \<Rightarrow> string" where
  [str_simps]: "to_lower s = map lower_char s"

definition to_upper :: "string \<Rightarrow> string" where
  [str_simps]: "to_upper s = map upper_char s"

lemma byte_char_of: "n < 256 \<Longrightarrow> byte (char_of n) = n"
  by (simp add:)

lemma lower_char_idem [simp]: "lower_char (lower_char c) = lower_char c"
  by (simp add: lower_char_def is_upper_def)

lemma upper_char_idem [simp]: "upper_char (upper_char c) = upper_char c"
  by (auto simp add: upper_char_def is_lower_def)

lemma upper_lower_char [simp]: "upper_char (lower_char c) = upper_char c"
  by (auto simp add: upper_char_def lower_char_def is_lower_def is_upper_def)

lemma lower_upper_char [simp]: "lower_char (upper_char c) = lower_char c"
  by (auto simp add: upper_char_def lower_char_def is_lower_def is_upper_def)

lemma to_lower_idem [simp]: "to_lower (to_lower s) = to_lower s"
  by (simp add: to_lower_def)

section \<open>Package strings\<close>

text \<open>\<open>strings.IndexRune\<close> and \<open>strings.LastIndex\<close> for an ASCII character: -1 when absent.\<close>

fun index_byte :: "string \<Rightarrow> char \<Rightarrow> int" where
  "index_byte [] c = -1"
| "index_byte (x # xs) c =
     (if x = c then 0 else if index_byte xs c < 0 then -1 else index_byte xs c + 1)"

fun last_index_byte :: "string \<Rightarrow> char \<Rightarrow> int" where
  "last_index_byte [] c = -1"
| "last_index_byte (x # xs) c =
     (if last_index_byte xs c \<ge> 0 then last_index_byte xs c + 1 else if x = c then 0 else -1)"

lemma index_byte_ge: "index_byte s c \<ge> -1"
  by (induction s) auto

lemma index_byte_absent [simp]: "index_byte s c = -1 \<longleftrightarrow> c \<notin> set s"
proof (induction s)
  case (Cons x xs)
  then show ?case using index_byte_ge [of xs c] by auto
qed simp

lemma index_byte_nonneg: "index_byte s c \<ge> 0 \<longleftrightarrow> c \<in> set s"
  using index_byte_ge [of s c] index_byte_absent [of s c] by linarith

lemma index_byte_split: "c \<notin> set u \<Longrightarrow> index_byte (u @ c # v) c = int (length u)"
  by (induction u) auto

lemma last_index_byte_ge: "last_index_byte s c \<ge> -1"
  by (induction s) auto

lemma last_index_byte_nonneg: "last_index_byte s c \<ge> 0 \<longleftrightarrow> c \<in> set s"
  by (induction s) auto

lemma last_index_byte_absent: "last_index_byte s c = -1 \<longleftrightarrow> c \<notin> set s"
  using last_index_byte_ge [of s c] last_index_byte_nonneg [of s c] by linarith

lemma last_index_byte_split: "c \<notin> set v \<Longrightarrow> last_index_byte (u @ c # v) c = int (length u)"
proof (induction u)
  case Nil
  then show ?case using last_index_byte_nonneg [of v c] by auto
next
  case (Cons x xs)
  then show ?case by auto
qed

lemma last_index_byte_bound: "last_index_byte s c < int (length s) \<or> s = []"
  by (induction s) auto

definition has_prefix :: "string \<Rightarrow> string \<Rightarrow> bool" where
  [str_simps]: "has_prefix s p \<longleftrightarrow> take (length p) s = p"

definition has_suffix :: "string \<Rightarrow> string \<Rightarrow> bool" where
  [str_simps]: "has_suffix s p \<longleftrightarrow> length p \<le> length s \<and> drop (length s - length p) s = p"

lemma has_prefix_append [simp]: "has_prefix (p @ s) p"
  by (simp add: has_prefix_def)

lemma has_prefix_iff: "has_prefix s p \<longleftrightarrow> (\<exists>t. s = p @ t)"
  by (metis append_take_drop_id append_eq_conv_conj has_prefix_def)

lemma has_suffix_iff: "has_suffix s p \<longleftrightarrow> (\<exists>t. s = t @ p)"
proof
  assume "has_suffix s p"
  then have "s = take (length s - length p) s @ p"
    by (metis append_take_drop_id has_suffix_def)
  then show "\<exists>t. s = t @ p" ..
qed (auto simp: has_suffix_def)

lemma has_suffix_append [simp]: "has_suffix (t @ p) p"
  by (auto simp: has_suffix_iff)

fun contains :: "string \<Rightarrow> string \<Rightarrow> bool" where
  "contains [] p = (p = [])"
| "contains (x # xs) p = (has_prefix (x # xs) p \<or> contains xs p)"

lemma contains_iff: "contains s p \<longleftrightarrow> (\<exists>u v. s = u @ p @ v)"
proof (induction s)
  case (Cons x xs)
  show ?case
  proof
    assume "contains (x # xs) p"
    then consider "has_prefix (x # xs) p" | "contains xs p" by auto
    then show "\<exists>u v. x # xs = u @ p @ v"
    proof cases
      case 1
      then show ?thesis by (metis append_Nil has_prefix_iff)
    next
      case 2
      then show ?thesis using Cons.IH by (metis append_Cons)
    qed
  next
    assume "\<exists>u v. x # xs = u @ p @ v"
    then obtain u v where uv: "x # xs = u @ p @ v" by blast
    then show "contains (x # xs) p"
    proof (cases u)
      case Nil
      with uv show ?thesis by (metis append_Nil has_prefix_iff contains.simps(2))
    next
      case (Cons a u')
      with uv have "xs = u' @ p @ v" by simp
      then have "contains xs p" using Cons.IH by blast
      then show ?thesis by simp
    qed
  qed
qed auto

text \<open>\<open>strings.Replace(s, old, new, 1)\<close> for a non-empty \<open>old\<close>: the first occurrence only.\<close>

fun replace1 :: "string \<Rightarrow> string \<Rightarrow> string \<Rightarrow> string" where
  "replace1 [] p r = []"
| "replace1 (x # xs) p r =
     (if has_prefix (x # xs) p then r @ drop (length p) (x # xs) else x # replace1 xs p r)"

lemma replace1_absent: "\<not> contains s p \<Longrightarrow> replace1 s p r = s"
  by (induction s) auto

text \<open>\<open>strings.Split(s, sep)\<close> for a one-byte separator: never empty.\<close>

fun split_byte :: "string \<Rightarrow> char \<Rightarrow> string list" where
  "split_byte [] c = [[]]"
| "split_byte (x # xs) c =
     (if x = c then [] # split_byte xs c
      else (case split_byte xs c of [] \<Rightarrow> [[x]] | w # ws \<Rightarrow> (x # w) # ws))"

fun join_with :: "string \<Rightarrow> string list \<Rightarrow> string" where
  "join_with sep [] = []"
| "join_with sep [w] = w"
| "join_with sep (w # v # ws) = w @ sep @ join_with sep (v # ws)"

lemma split_byte_nonempty [simp]: "split_byte s c \<noteq> []"
  by (induction s) (auto split: list.splits)

lemma join_with_Cons: "ws \<noteq> [] \<Longrightarrow> join_with sep (w # ws) = w @ sep @ join_with sep ws"
  by (cases ws) auto

lemma join_split_byte: "join_with [c] (split_byte s c) = s"
proof (induction s)
  case (Cons x xs)
  obtain w ws where ws: "split_byte xs c = w # ws"
    using split_byte_nonempty by (metis neq_Nil_conv)
  show ?case
  proof (cases "x = c")
    case True
    then show ?thesis using Cons.IH by (simp add: join_with_Cons)
  next
    case False
    then show ?thesis using Cons.IH ws by (cases ws) auto
  qed
qed simp

lemma split_byte_no_sep: "c \<notin> set s \<Longrightarrow> split_byte s c = [s]"
  by (induction s) auto

lemma split_byte_parts: "w \<in> set (split_byte s c) \<Longrightarrow> c \<notin> set w"
  by (induction s arbitrary: w) (auto split: if_splits list.splits)

lemma length_split_byte: "length (split_byte s c) = count_list s c + 1"
  by (induction s) (auto split: list.splits)

lemma split_byte_append: "c \<notin> set u \<Longrightarrow> split_byte (u @ c # v) c = u # split_byte v c"
  by (induction u) auto

text \<open>\<open>strings.Trim(s, cutset)\<close> and \<open>strings.TrimSpace\<close> (ASCII white space).\<close>

definition trim_set :: "char list \<Rightarrow> string \<Rightarrow> string" where
  [str_simps]: "trim_set cs s =
     rev (dropWhile (\<lambda>c. c \<in> set cs) (rev (dropWhile (\<lambda>c. c \<in> set cs) s)))"

definition white :: "char list" where
  [str_simps]: "white = [CHR 0x09, CHR 0x0A, CHR 0x0B, CHR 0x0C, CHR 0x0D, CHR '' '']"

definition trim_space :: "string \<Rightarrow> string" where
  [str_simps]: "trim_space s = trim_set white s"

section \<open>Package strconv\<close>

definition digit_char :: "nat \<Rightarrow> char" where
  [str_simps]: "digit_char d = (if d < 10 then char_of (48 + d) else char_of (87 + d))"

definition digit_val :: "char \<Rightarrow> nat" where
  [str_simps]: "digit_val c = (if is_digit c then byte c - 48 else byte c - 87)"

lemma digit_val_char [simp]: "d < 36 \<Longrightarrow> digit_val (digit_char d) = d"
  by (auto simp: digit_val_def digit_char_def is_digit_def)

lemma char_of_digits [simp]:
  "char_of (48 :: nat) = CHR ''0''" "char_of (49 :: nat) = CHR ''1''" "char_of (50 :: nat) = CHR ''2''"
  "char_of (51 :: nat) = CHR ''3''" "char_of (52 :: nat) = CHR ''4''" "char_of (53 :: nat) = CHR ''5''"
  "char_of (54 :: nat) = CHR ''6''" "char_of (55 :: nat) = CHR ''7''" "char_of (56 :: nat) = CHR ''8''"
  "char_of (57 :: nat) = CHR ''9''"
  by code_simp+

text \<open>\<open>strconv.FormatInt(n, b)\<close> of a non-negative number.\<close>

fun radix :: "nat \<Rightarrow> nat \<Rightarrow> string" where
  "radix b n = (if b < 2 \<or> n < b then [digit_char n] else radix b (n div b) @ [digit_char (n mod b)])"

declare radix.simps [simp del]

definition parse_radix :: "nat \<Rightarrow> string \<Rightarrow> nat" where
  [str_simps]: "parse_radix b s = foldl (\<lambda>a c. a * b + digit_val c) 0 s"

lemma parse_radix_radix:
  "2 \<le> b \<Longrightarrow> b \<le> 36 \<Longrightarrow> parse_radix b (radix b n) = n"
proof (induction b n rule: radix.induct)
  case (1 b n)
  show ?case
  proof (cases "n < b")
    case True
    with "1.prems" show ?thesis by (simp add: radix.simps [of b n] parse_radix_def)
  next
    case False
    with "1.prems" have b: "\<not> (b < 2 \<or> n < b)" and m: "n mod b < 36"
      by (auto intro: less_le_trans [OF mod_less_divisor])
    have "parse_radix b (radix b n) = parse_radix b (radix b (n div b)) * b + n mod b"
      using b m by (simp add: radix.simps [of b n] parse_radix_def)
    with "1.IH" [OF b] "1.prems" show ?thesis by simp
  qed
qed

lemma radix_nonempty [simp]: "radix b n \<noteq> []"
  by (subst radix.simps) simp

lemma radix_chars:
  "2 \<le> b \<Longrightarrow> b \<le> 36 \<Longrightarrow> c \<in> set (radix b n) \<Longrightarrow> \<exists>d < 36. c = digit_char d"
proof (induction b n rule: radix.induct)
  case (1 b n)
  show ?case
  proof (cases "n < b")
    case True
    with "1.prems" have "n < 36" and "c = digit_char n" by (auto simp: radix.simps [of b n])
    then show ?thesis by blast
  next
    case False
    with "1.prems" have b: "\<not> (b < 2 \<or> n < b)" and m: "n mod b < 36"
      by (auto intro: less_le_trans [OF mod_less_divisor])
    with "1.IH" [OF b] "1.prems" show ?thesis by (auto simp: radix.simps [of b n])
  qed
qed

lemma digit_char_not_control: "d < 36 \<Longrightarrow> byte (digit_char d) \<ge> 48"
  by (auto simp: digit_char_def)

definition itoa :: "int \<Rightarrow> string" where
  [str_simps]: "itoa n = (if n < 0 then CHR ''-'' # radix 10 (nat (- n)) else radix 10 (nat n))"

definition hex_of :: "nat \<Rightarrow> string" where
  [str_simps]: "hex_of n = radix 16 n"

lemma parse_hex_of [simp]: "parse_radix 16 (hex_of n) = n"
  by (simp add: hex_of_def parse_radix_radix)

lemma hex_of_no_cr: "CHR 0x0D \<notin> set (hex_of n)"
proof
  assume "CHR 0x0D \<in> set (hex_of n)"
  then obtain d where "d < 36" "CHR 0x0D = digit_char d"
    using radix_chars [of 16] by (auto simp: hex_of_def)
  then have "48 \<le> byte (CHR 0x0D)" using digit_char_not_control by metis
  then show False by simp
qed

end
