(* ===== verification/Conn_Model.thy ===== *)
theory Conn_Model
  imports Go_Prelude
begin

text \<open>
  The connections the proxy writes to (\<open>net.Conn\<close>) and the contract of \<open>io.Writer\<close>
  that the writers of the source are built on. A TCP connection records the bytes it
  delivered; it accepts \<open>tc_budget\<close> more bytes (no limit when \<open>None\<close>) and then fails, with an
  error or, when \<open>tc_silent\<close>, by a short count without one (which \<open>io.Writer\<close> forbids but the
  source checks for). A closed connection refuses every write and a second close.
\<close>

record tcp_conn =
  tc_sent :: string
  tc_budget :: "nat option"
  tc_silent :: bool
  tc_closed :: bool

definition fresh_conn :: tcp_conn where
  "fresh_conn = \<lparr>tc_sent = [], tc_budget = None, tc_silent = False, tc_closed = False\<rparr>"

type_synonym write_res = "nat \<times> goerr option"

definition tcp_write :: "tcp_conn \<Rightarrow> string \<Rightarrow> write_res \<times> tcp_conn" where
  "tcp_write c data =
     (if tc_closed c then ((0, Some ErrNetClosed), c)
      else case tc_budget c of
        None \<Rightarrow> ((length data, None), c\<lparr>tc_sent := tc_sent c @ data\<rparr>)
      | Some b \<Rightarrow>
          (if length data \<le> b
           then ((length data, None),
                 c\<lparr>tc_sent := tc_sent c @ data, tc_budget := Some (b - length data)\<rparr>)
           else ((b, if tc_silent c then None else Some (ErrText ''write: broken pipe'')),
                 c\<lparr>tc_sent := tc_sent c @ take b data, tc_budget := Some 0\<rparr>)))"

definition tcp_close :: "tcp_conn \<Rightarrow> goerr option \<times> tcp_conn" where
  "tcp_close c = (if tc_closed c then (Some ErrNetClosed, c) else (None, c\<lparr>tc_closed := True\<rparr>))"

text \<open>
  What a client of an \<open>io.Writer\<close> may rely on: a write appends a prefix of its data
  to what was delivered, the count is the length of that prefix, and it never exceeds the data.
\<close>

locale byte_writer =
  fixes wwrite :: "'w \<Rightarrow> string \<Rightarrow> write_res \<times> 'w"
    and sent :: "'w \<Rightarrow> string"
  assumes sent_write: "wwrite w d = ((n, e), w') \<Longrightarrow> sent w' = sent w @ take n d"
    and write_count: "wwrite w d = ((n, e), w') \<Longrightarrow> n \<le> length d"
begin

lemma write_all: "wwrite w d = ((length d, e), w') \<Longrightarrow> sent w' = sent w @ d"
  using sent_write by fastforce

lemma sent_prefix: "\<exists>t. sent (snd (wwrite w d)) = sent w @ t"
  using sent_write by (metis prod.collapse)

end

interpretation tcp: byte_writer tcp_write tc_sent
  by unfold_locales (auto simp: tcp_write_def split: if_splits option.splits)

text \<open>
  A writer that never refuses: every write is complete. It is what the round trips of the
  encoders are stated over, and what an open connection without a budget provides.
\<close>

locale total_writer = byte_writer +
  fixes good :: "'a \<Rightarrow> bool"
  assumes good_write: "good w \<Longrightarrow> \<exists>w'. wwrite w d = ((length d, None), w') \<and> good w'"
begin

lemma good_write_sent:
  assumes "good w"
  obtains w' where "wwrite w d = ((length d, None), w')" "good w'" "sent w' = sent w @ d"
  using good_write [OF assms, of d] write_all by blast

end

definition conn_open :: "tcp_conn \<Rightarrow> bool" where
  "conn_open c \<longleftrightarrow> \<not> tc_closed c \<and> tc_budget c = None"

interpretation tcp: total_writer tcp_write tc_sent conn_open
  by unfold_locales (auto simp: tcp_write_def conn_open_def)

lemma tcp_write_open [simp]:
  "conn_open c \<Longrightarrow> tcp_write c d = ((length d, None), c\<lparr>tc_sent := tc_sent c @ d\<rparr>)"
  by (simp add: tcp_write_def conn_open_def)

lemma conn_open_sent [simp]: "conn_open (c\<lparr>tc_sent := x\<rparr>) = conn_open c"
  by (simp add: conn_open_def)

lemma conn_open_fresh [simp]: "conn_open fresh_conn"
  by (simp add: conn_open_def fresh_conn_def)

lemma fresh_conn_fields [simp]: "tc_sent fresh_conn = []" "\<not> tc_closed fresh_conn"
  by (simp_all add: fresh_conn_def)

lemma tcp_write_closed [simp]: "tc_closed c \<Longrightarrow> tcp_write c d = ((0, Some ErrNetClosed), c)"
  by (simp add: tcp_write_def)

lemma tcp_write_keeps_closed [simp]: "tc_closed (snd (tcp_write c d)) = tc_closed c"
  by (simp add: tcp_write_def split: option.split)

lemma tcp_close_closed [simp]: "tc_closed (snd (tcp_close c))"
  by (simp add: tcp_close_def)

lemma tcp_close_sent [simp]: "tc_sent (snd (tcp_close c)) = tc_sent c"
  by (simp add: tcp_close_def)

end
