(* ===== verification/Chunked.thy ===== *)
theory Chunked
  imports Conn_Model
begin

text \<open>
  \<open>chunked.go\<close>: the writer that frames a body in HTTP/1.1 chunks. The writer underneath
  (\<open>cw.Wire\<close>) is a parameter, used through the contract of the locale \<open>byte_writer\<close>.
\<close>

text \<open>\<open>(*chunkedWriter).Write\<close>: an empty write is dropped, since a 0-length chunk ends the stream.\<close>

definition chunked_write ::
  "('w \<Rightarrow> string \<Rightarrow> write_res \<times> 'w) \<Rightarrow> 'w \<Rightarrow> string \<Rightarrow> write_res \<times> 'w" where
  "chunked_write wire w data =
     (if length data = 0 then ((0, None), w)
      else case wire w (hex_of (length data) @ crlf) of
        ((_, Some e), w1) \<Rightarrow> ((0, Some e), w1)
      | ((_, None), w1) \<Rightarrow>
          (case wire w1 data of
             ((n, Some e), w2) \<Rightarrow> ((n, Some e), w2)
           | ((n, None), w2) \<Rightarrow>
               (if n \<noteq> length data then ((n, Some ErrShortWrite), w2)
                else case wire w2 crlf of ((_, e), w3) \<Rightarrow> ((n, e), w3))))"

text \<open>\<open>(*chunkedWriter).Close\<close>: the last chunk, without the empty line that ends the trailer.\<close>

definition chunked_close ::
  "('w \<Rightarrow> string \<Rightarrow> write_res \<times> 'w) \<Rightarrow> 'w \<Rightarrow> goerr option \<times> 'w" where
  "chunked_close wire w = (case wire w (''0'' @ crlf) of ((_, e), w1) \<Rightarrow> (e, w1))"

text \<open>A body copied in pieces, as \<open>io.Copy\<close> does, stopping at the first error.\<close>

fun chunked_copy ::
  "('w \<Rightarrow> string \<Rightarrow> write_res \<times> 'w) \<Rightarrow> 'w \<Rightarrow> string list \<Rightarrow> goerr option \<times> 'w" where
  "chunked_copy wire w [] = (None, w)"
| "chunked_copy wire w (d # ds) =
     (case chunked_write wire w d of
        ((_, Some e), w1) \<Rightarrow> (Some e, w1)
      | ((_, None), w1) \<Rightarrow> chunked_copy wire w1 ds)"

section \<open>The wire format and its reader\<close>

definition chunk :: "string \<Rightarrow> string" where
  "chunk d = (if d = [] then [] else hex_of (length d) @ crlf @ d @ crlf)"

definition last_chunk :: string where
  "last_chunk = ''0'' @ crlf"

fun split_crlf :: "string \<Rightarrow> (string \<times> string) option" where
  "split_crlf [] = None"
| "split_crlf (c # r) =
     (if take 2 (c # r) = crlf then Some ([], drop 2 (c # r))
      else case split_crlf r of None \<Rightarrow> None | Some (a, b) \<Rightarrow> Some (c # a, b))"

lemma split_crlf_length: "split_crlf s = Some (a, b) \<Longrightarrow> length b < length s"
  by (induction s arbitrary: a b) (auto split: if_splits option.splits intro: less_SucI)

text \<open>A receiver of chunked data: the body and what follows the last chunk's size line.\<close>

function dechunk :: "string \<Rightarrow> (string \<times> string) option" where
  "dechunk s =
     (case split_crlf s of
        None \<Rightarrow> None
      | Some (h, r) \<Rightarrow>
          (let n = parse_radix 16 h in
           if n = 0 then Some ([], r)
           else if take 2 (drop n r) \<noteq> crlf then None
           else case dechunk (drop (n + 2) r) of
                  None \<Rightarrow> None
                | Some (d, t) \<Rightarrow> Some (take n r @ d, t)))"
  by pat_completeness auto
termination
  by (relation "measure length") (auto dest: split_crlf_length)

declare dechunk.simps [simp del]

lemma split_crlf_append: "CHR 0x0D \<notin> set h \<Longrightarrow> split_crlf (h @ crlf @ r) = Some (h, r)"
proof (induction h)
  case Nil
  then show ?case by (simp add: crlf_def)
next
  case (Cons c h)
  then have "take 2 (c # h @ crlf @ r) \<noteq> crlf" by (auto simp: crlf_def)
  with Cons show ?case by simp
qed

lemma dechunk_last: "dechunk (last_chunk @ r) = Some ([], r)"
  using split_crlf_append [of "''0''" r]
  by (subst dechunk.simps) (simp add: last_chunk_def parse_radix_def digit_val_def is_digit_def)

lemma dechunk_chunk:
  assumes "dechunk s = Some (d, t)"
  shows "dechunk (chunk x @ s) = Some (x @ d, t)"
proof (cases "x = []")
  case True
  with assms show ?thesis by (simp add: chunk_def)
next
  case False
  have "split_crlf (hex_of (length x) @ crlf @ (x @ crlf @ s)) =
      Some (hex_of (length x), x @ crlf @ s)"
    by (rule split_crlf_append) (rule hex_of_no_cr)
  then have "split_crlf (chunk x @ s) = Some (hex_of (length x), x @ crlf @ s)"
    using False by (simp add: chunk_def)
  with assms False show ?thesis by (subst dechunk.simps) (simp add: Let_def)
qed

lemma dechunk_chunks: "dechunk (concat (map chunk ds) @ last_chunk @ r) = Some (concat ds, r)"
  by (induction ds) (auto simp: dechunk_last intro: dechunk_chunk)

section \<open>The writer over any reliable wire\<close>

context total_writer
begin

lemma chunked_write_good:
  assumes "good w"
  obtains w' where "chunked_write wwrite w d = ((length d, None), w')" "good w'"
    "sent w' = sent w @ chunk d"
proof (cases "d = []")
  case True
  with assms that [of w] show ?thesis by (simp add: chunked_write_def chunk_def)
next
  case False
  obtain w1 where 1: "wwrite w (hex_of (length d) @ crlf) = ((length (hex_of (length d) @ crlf), None), w1)"
    "good w1" "sent w1 = sent w @ hex_of (length d) @ crlf"
    using good_write_sent [OF assms] .
  obtain w2 where 2: "wwrite w1 d = ((length d, None), w2)" "good w2" "sent w2 = sent w1 @ d"
    using good_write_sent [OF 1(2)] .
  obtain w3 where 3: "wwrite w2 crlf = ((length crlf, None), w3)" "good w3" "sent w3 = sent w2 @ crlf"
    using good_write_sent [OF 2(2)] .
  have "chunked_write wwrite w d = ((length d, None), w3)"
    using False 1(1) 2(1) 3(1) by (simp add: chunked_write_def)
  moreover have "sent w3 = sent w @ chunk d"
    using False 1(3) 2(3) 3(3) by (simp add: chunk_def)
  ultimately show ?thesis using 3(2) that by blast
qed

lemma chunked_copy_good:
  assumes "good w"
  shows "\<exists>w'. chunked_copy wwrite w ds = (None, w') \<and> good w' \<and>
    sent w' = sent w @ concat (map chunk ds)"
  using assms
proof (induction ds arbitrary: w)
  case (Cons d ds)
  obtain w1 where w1: "chunked_write wwrite w d = ((length d, None), w1)" "good w1"
    "sent w1 = sent w @ chunk d"
    using chunked_write_good [OF Cons.prems] .
  show ?case using Cons.IH [OF w1(2)] w1 by auto
qed simp

lemma chunked_close_good:
  assumes "good w"
  shows "\<exists>w'. chunked_close wwrite w = (None, w') \<and> good w' \<and> sent w' = sent w @ last_chunk"
proof -
  obtain w' where "wwrite w last_chunk = ((length last_chunk, None), w')" "good w'"
    "sent w' = sent w @ last_chunk"
    using good_write_sent [OF assms] .
  then show ?thesis by (simp add: chunked_close_def last_chunk_def)
qed

end

text \<open>On an unreliable wire, an error is never swallowed: a nil error means every byte went out.\<close>

context byte_writer
begin

lemma chunked_write_ok_count:
  assumes "chunked_write wwrite w d = ((n, None), w')"
  shows "n = length d"
  using assms by (auto simp: chunked_write_def split: if_splits option.splits prod.splits)

end

section \<open>Properties\<close>

text \<open>
  C34. What the chunked writer puts on an open connection for any sequence of writes
  followed by Close is read back by a chunked reader as exactly the written bytes: no write
  is lost, split or mistaken for the end of the stream, empty writes included.
\<close>

theorem chunked_roundtrip:
  assumes "conn_open c" and "chunked_copy tcp_write c ds = (e, c1)"
    and "chunked_close tcp_write c1 = (e', c2)"
  shows "e = None \<and> e' = None \<and>
    (\<exists>w. tc_sent c2 = tc_sent c @ w \<and> dechunk (w @ r) = Some (concat ds, r))"
proof -
  obtain c1' where c1: "chunked_copy tcp_write c ds = (None, c1')" "conn_open c1'"
    "tc_sent c1' = tc_sent c @ concat (map chunk ds)"
    using tcp.chunked_copy_good [OF assms(1)] by blast
  moreover obtain c2' where "chunked_close tcp_write c1' = (None, c2')"
    "tc_sent c2' = tc_sent c1' @ last_chunk"
    using tcp.chunked_close_good [OF c1(2)] by blast
  ultimately show ?thesis using assms dechunk_chunks [of ds r] by auto
qed

theorem chunked_roundtrip_witness:
  "\<exists>w c1 c2. chunked_copy tcp_write fresh_conn [''ab'', [], ''c''] = (None, c1) \<and>
    chunked_close tcp_write c1 = (None, c2) \<and> tc_sent c2 = w \<and>
    dechunk (w @ crlf) = Some (''abc'', crlf)"
proof -
  obtain e c1 where 1: "chunked_copy tcp_write fresh_conn [''ab'', [], ''c''] = (e, c1)"
    by (metis prod.exhaust)
  obtain e' c2 where 2: "chunked_close tcp_write c1 = (e', c2)"
    by (metis prod.exhaust)
  from chunked_roundtrip [OF conn_open_fresh 1 2, of crlf] 1 2 show ?thesis
    by (simp add: fresh_conn_def)
qed

end
