(* ===== verification/Regretable.thy ===== *)
theory Regretable
  imports Go_Prelude
begin

text \<open>
  \<open>regretable/regretreader.go\<close>: a reader whose reads can be taken back. The reader
  underneath is used through the contract of \<open>io.Reader\<close>, stated as a locale and
  interpreted on \<open>bytes.Buffer\<close>, which the source wraps bodies in.
\<close>

type_synonym read_res = "string \<times> goerr option"

text \<open>
  The contract: a read delivers at most the buffer's length of the bytes not read yet, in order.
\<close>

locale byte_reader =
  fixes rread :: "'r \<Rightarrow> nat \<Rightarrow> read_res \<times> 'r"
    and unread :: "'r \<Rightarrow> string"
  assumes read_unread: "rread r n = ((d, e), r') \<Longrightarrow> unread r = d @ unread r'"
    and read_bound: "rread r n = ((d, e), r') \<Longrightarrow> length d \<le> n"
begin

lemma read_prefix: "rread r n = ((d, e), r') \<Longrightarrow> take (length d) (unread r) = d"
  using read_unread by fastforce

end

text \<open>\<open>(*bytes.Buffer).Read\<close>.\<close>

definition buffer_read :: "string \<Rightarrow> nat \<Rightarrow> read_res \<times> string" where
  "buffer_read s n =
     (if s = [] then (([], if n = 0 then None else Some ErrEOF), s)
      else ((take n s, None), drop n s))"

interpretation buffer: byte_reader buffer_read id
  by unfold_locales (auto simp: buffer_read_def split: if_splits)

record 'r regretable =
  rg_reader :: 'r
  rg_overflow :: bool
  rg_r :: nat
  rg_w :: nat
  rg_buf :: string

definition default_buffer_size :: nat where
  "default_buffer_size = 500"

text \<open>\<open>NewRegretableReaderSize\<close>, \<open>NewRegretableReader\<close>.\<close>

definition new_regretable_size :: "'r \<Rightarrow> nat \<Rightarrow> 'r regretable" where
  "new_regretable_size r sz =
     \<lparr>rg_reader = r, rg_overflow = False, rg_r = 0, rg_w = 0, rg_buf = replicate sz (CHR 0x00)\<rparr>"

definition new_regretable :: "'r \<Rightarrow> 'r regretable" where
  "new_regretable r = new_regretable_size r default_buffer_size"

text \<open>\<open>Regret\<close> and \<open>Forget\<close>.\<close>

definition regret :: "('r regretable, unit) go" where
  "regret = (\<lambda>rb. if rg_overflow rb then gopanic ''regretting after overflow makes no sense'' rb
     else (Val (), rb\<lparr>rg_r := 0\<rparr>))"

definition forget :: "('r regretable, unit) go" where
  "forget = (\<lambda>rb. if rg_overflow rb then gopanic ''forgetting after overflow makes no sense'' rb
     else (Val (), rb\<lparr>rg_r := 0, rg_w := 0\<rparr>))"

text \<open>\<open>copy(buf[at:], d)\<close>: the bytes that fit are written; the count is their number.\<close>

definition copy_at :: "string \<Rightarrow> nat \<Rightarrow> string \<Rightarrow> nat \<times> string" where
  "copy_at buf at d =
     (let n = min (length d) (length buf - at)
      in (n, take at buf @ take n d @ drop (at + n) buf))"

text \<open>\<open>Read\<close>.\<close>

definition regretable_read ::
  "('r \<Rightarrow> nat \<Rightarrow> read_res \<times> 'r) \<Rightarrow> 'r regretable \<Rightarrow> nat \<Rightarrow> read_res \<times> 'r regretable" where
  "regretable_read rd rb n =
     (if rg_overflow rb then
        (case rd (rg_reader rb) n of (res, r') \<Rightarrow> (res, rb\<lparr>rg_reader := r'\<rparr>))
      else if rg_r rb < rg_w rb then
        (let d = take n (drop (rg_r rb) (take (rg_w rb) (rg_buf rb)))
         in ((d, None), rb\<lparr>rg_r := rg_r rb + length d\<rparr>))
      else
        (case rd (rg_reader rb) n of
           ((d, e), r') \<Rightarrow>
             (case copy_at (rg_buf rb) (rg_w rb) d of
                (bn, buf') \<Rightarrow>
                  ((d, e), rb\<lparr>rg_reader := r', rg_buf := buf', rg_w := rg_w rb + bn,
                     rg_r := rg_w rb + length d, rg_overflow := bn < length d\<rparr>))))"

text \<open>
  \<open>RegretableReaderCloser\<close>: the closer is the reader underneath, which the two constructors are given twice.
  \<open>cl\<close> is its \<open>Close\<close>.
\<close>

definition new_regretable_closer :: "'r \<Rightarrow> 'r regretable" where
  "new_regretable_closer rc = new_regretable rc"

definition new_regretable_closer_size :: "'r \<Rightarrow> nat \<Rightarrow> 'r regretable" where
  "new_regretable_closer_size rc sz = new_regretable_size rc sz"

definition regretable_close :: "('r \<Rightarrow> goerr option \<times> 'r) \<Rightarrow> 'r regretable \<Rightarrow> goerr option \<times> 'r regretable" where
  "regretable_close cl rb = (case cl (rg_reader rb) of (e, r') \<Rightarrow> (e, rb\<lparr>rg_reader := r'\<rparr>))"

section \<open>Invariant and abstraction\<close>

definition rg_wf :: "'r regretable \<Rightarrow> bool" where
  "rg_wf rb \<longleftrightarrow> rg_overflow rb \<or> (rg_r rb \<le> rg_w rb \<and> rg_w rb \<le> length (rg_buf rb))"

text \<open>The bytes since the last \<open>Forget\<close> (or the start) that were read already, and those still to come.\<close>

definition rg_kept :: "'r regretable \<Rightarrow> string" where
  "rg_kept rb = take (rg_w rb) (rg_buf rb)"

lemma rg_wf_new [simp]: "rg_wf (new_regretable_size r sz)"
  by (simp add: rg_wf_def new_regretable_size_def)

lemma rg_wf_close: "rg_wf rb \<Longrightarrow> rg_wf (snd (regretable_close cl rb))"
  by (simp add: rg_wf_def regretable_close_def case_prod_unfold)

lemma rg_wf_regret: "rg_wf rb \<Longrightarrow> regret rb = (Val (), rb') \<Longrightarrow> rg_wf rb'"
  by (auto simp: rg_wf_def regret_def gopanic_def split: if_splits)

lemma rg_wf_forget: "rg_wf rb \<Longrightarrow> forget rb = (Val (), rb') \<Longrightarrow> rg_wf rb'"
  by (auto simp: rg_wf_def forget_def gopanic_def split: if_splits)

lemma copy_at_facts:
  assumes "at \<le> length buf" "copy_at buf at d = (bn, buf')"
  shows "length buf' = length buf" "bn \<le> length d" "at + bn \<le> length buf"
    "take (at + bn) buf' = take at buf @ take bn d"
  using assms by (auto simp: copy_at_def Let_def min_def split: if_splits)

context byte_reader
begin

definition rest :: "'r regretable \<Rightarrow> string" where
  "rest rb = (if rg_overflow rb then unread (rg_reader rb)
     else drop (rg_r rb) (rg_kept rb) @ unread (rg_reader rb))"

definition since_forget :: "'r regretable \<Rightarrow> string" where
  "since_forget rb = rg_kept rb @ unread (rg_reader rb)"

lemma read_wf:
  assumes "rg_wf rb" "regretable_read rread rb n = (res, rb')"
  shows "rg_wf rb'"
proof (cases "rg_overflow rb \<or> rg_r rb < rg_w rb")
  case True
  then show ?thesis using assms
    by (auto simp: rg_wf_def regretable_read_def Let_def split: if_splits prod.splits)
next
  case False
  obtain d e r' where r: "rread (rg_reader rb) n = ((d, e), r')" by (metis prod.exhaust)
  obtain bn buf' where b: "copy_at (rg_buf rb) (rg_w rb) d = (bn, buf')" by force
  have "rg_w rb \<le> length (rg_buf rb)" using assms(1) False by (simp add: rg_wf_def)
  from copy_at_facts [OF this b] show ?thesis
    using assms False r b by (auto simp: rg_wf_def regretable_read_def)
qed

lemma read_rest:
  assumes "rg_wf rb" "regretable_read rread rb n = ((d, e), rb')"
  shows "rest rb = d @ rest rb' \<and> length d \<le> n"
proof -
  consider "rg_overflow rb" | "\<not> rg_overflow rb" "rg_r rb < rg_w rb"
    | "\<not> rg_overflow rb" "\<not> rg_r rb < rg_w rb" by blast
  then show ?thesis
  proof cases
    case 1
    then show ?thesis using assms
      by (auto simp: regretable_read_def rest_def split: prod.splits dest: read_unread read_bound)
  next
    case 2
    then have "d = take n (drop (rg_r rb) (rg_kept rb))" and
      rb': "rb' = rb\<lparr>rg_r := rg_r rb + length d\<rparr>"
      using assms by (auto simp: regretable_read_def Let_def rg_kept_def)
    then have "drop (rg_r rb) (rg_kept rb) = d @ drop (length d) (drop (rg_r rb) (rg_kept rb))"
      "length d \<le> n"
      by (metis append_eq_conv_conj append_take_drop_id length_take min.cobounded2 min.commute take_take, simp)
    then show ?thesis using 2 rb' by (simp add: rest_def rg_kept_def add.commute)
  next
    case 3
    obtain r' where r: "rread (rg_reader rb) n = ((d, e), r')"
      using assms(2) 3 by (auto simp: regretable_read_def split: prod.splits)
    obtain bn buf' where b: "copy_at (rg_buf rb) (rg_w rb) d = (bn, buf')" by force
    have w: "rg_w rb \<le> length (rg_buf rb)" "rg_r rb = rg_w rb"
      using assms(1) 3 by (auto simp: rg_wf_def)
    have rb': "rb' = rb\<lparr>rg_reader := r', rg_buf := buf', rg_w := rg_w rb + bn,
        rg_r := rg_w rb + length d, rg_overflow := bn < length d\<rparr>"
      using assms(2) 3 r b by (simp add: regretable_read_def)
    show ?thesis using 3 w rb' read_unread [OF r] read_bound [OF r] copy_at_facts [OF w(1) b]
      by (simp add: rest_def rg_kept_def)
  qed
qed

lemma read_since_forget:
  assumes "rg_wf rb" "regretable_read rread rb n = ((d, e), rb')" "\<not> rg_overflow rb'"
  shows "since_forget rb' = since_forget rb"
proof (cases "rg_r rb < rg_w rb")
  case True
  then show ?thesis using assms
    by (auto simp: regretable_read_def since_forget_def rg_kept_def Let_def split: prod.splits if_splits)
next
  case False
  have no: "\<not> rg_overflow rb" using assms(2,3) by (auto simp: regretable_read_def split: prod.splits)
  obtain r' where r: "rread (rg_reader rb) n = ((d, e), r')"
    using assms(2) no False by (auto simp: regretable_read_def split: prod.splits)
  obtain bn buf' where b: "copy_at (rg_buf rb) (rg_w rb) d = (bn, buf')" by force
  have w: "rg_w rb \<le> length (rg_buf rb)" using assms(1) no by (auto simp: rg_wf_def)
  show ?thesis using assms no False r b copy_at_facts [OF w b] read_unread [OF r]
    by (auto simp: regretable_read_def since_forget_def rg_kept_def)
qed

lemma regret_rest:
  "regret rb = (Val (), rb') \<Longrightarrow> rest rb' = since_forget rb"
  by (auto simp: regret_def gopanic_def rest_def since_forget_def rg_kept_def split: if_splits)

end

text \<open>A sequence of reads, collecting what they deliver.\<close>

fun regretable_reads ::
  "('r \<Rightarrow> nat \<Rightarrow> read_res \<times> 'r) \<Rightarrow> 'r regretable \<Rightarrow> nat list \<Rightarrow> string \<times> 'r regretable" where
  "regretable_reads rd rb [] = ([], rb)"
| "regretable_reads rd rb (n # ns) =
     (case regretable_read rd rb n of
        ((d, _), rb1) \<Rightarrow> (case regretable_reads rd rb1 ns of (ds, rb2) \<Rightarrow> (d @ ds, rb2)))"

lemma overflow_sticky:
  "regretable_read rd rb n = (res, rb') \<Longrightarrow> rg_overflow rb \<Longrightarrow> rg_overflow rb'"
  by (auto simp: regretable_read_def split: prod.splits)

lemma overflow_sticky_reads:
  "regretable_reads rd rb ns = (ds, rb') \<Longrightarrow> rg_overflow rb \<Longrightarrow> rg_overflow rb'"
  by (induction ns arbitrary: rb ds) (auto split: prod.splits dest: overflow_sticky)

context byte_reader
begin

lemma reads_rest:
  "rg_wf rb \<Longrightarrow> regretable_reads rread rb ns = (ds, rb') \<Longrightarrow> rg_wf rb' \<and> rest rb = ds @ rest rb'"
proof (induction ns arbitrary: rb ds)
  case (Cons n ns)
  obtain d e rb1 ds' where 1: "regretable_read rread rb n = ((d, e), rb1)"
    and 2: "regretable_reads rread rb1 ns = (ds', rb')" and ds: "ds = d @ ds'"
    using Cons.prems(2) by (auto split: prod.splits)
  show ?case using read_rest [OF Cons.prems(1) 1] Cons.IH [OF read_wf [OF Cons.prems(1) 1] 2] ds by simp
qed simp

lemma reads_since_forget:
  "rg_wf rb \<Longrightarrow> regretable_reads rread rb ns = (ds, rb') \<Longrightarrow> \<not> rg_overflow rb' \<Longrightarrow>
     since_forget rb' = since_forget rb"
proof (induction ns arbitrary: rb ds)
  case (Cons n ns)
  obtain d e rb1 ds' where 1: "regretable_read rread rb n = ((d, e), rb1)"
    and 2: "regretable_reads rread rb1 ns = (ds', rb')"
    using Cons.prems(2) by (auto split: prod.splits)
  have "\<not> rg_overflow rb1" using overflow_sticky_reads [OF 2] Cons.prems(3) by blast
  then show ?case
    using read_since_forget [OF Cons.prems(1) 1] Cons.IH [OF read_wf [OF Cons.prems(1) 1] 2 Cons.prems(3)]
    by simp
qed simp

end

section \<open>Properties\<close>

text \<open>
  C36. Taking reads back restores the input: after any reads that stayed within the buffer,
  \<open>Regret\<close> succeeds, and the reads that follow deliver the stream from its beginning,
  whatever sizes they use; with the default buffer over a body of any content.
\<close>

theorem regret_restores:
  assumes "regretable_reads buffer_read (new_regretable_size s sz) ns = (ds, rb)"
    and "\<not> rg_overflow rb"
    and "regret rb = (res, rb1)" and "regretable_reads buffer_read rb1 ms = (ds', rb2)"
  shows "res = Val () \<and> take (length ds') s = ds' \<and> take (length ds) s = ds"
proof -
  have res: "res = Val ()" and rb1: "regret rb = (Val (), rb1)"
    using assms(2,3) by (auto simp: regret_def)
  have wf: "rg_wf rb" and s: "s = ds @ buffer.rest rb"
    using buffer.reads_rest [OF rg_wf_new assms(1)]
    by (auto simp: buffer.rest_def new_regretable_size_def rg_kept_def)
  have all: "buffer.since_forget rb = s"
    using buffer.reads_since_forget [OF rg_wf_new assms(1,2)]
    by (simp add: buffer.since_forget_def new_regretable_size_def rg_kept_def)
  have "s = ds' @ buffer.rest rb2"
    using buffer.reads_rest [OF rg_wf_regret [OF wf rb1] assms(4)] buffer.regret_rest [OF rb1] all
    by simp
  then show ?thesis using res s by (metis append_eq_conv_conj)
qed

theorem regret_restores_witness:
  "\<exists>ds rb rb1 ds' rb2.
     regretable_reads buffer_read (new_regretable_size ''abcd'' 10) [2, 1] = (ds, rb) \<and>
     regret rb = (Val (), rb1) \<and> regretable_reads buffer_read rb1 [4] = (ds', rb2) \<and>
     take (length ds') ''abcd'' = ds' \<and> take (length ds) ''abcd'' = ds"
proof -
  obtain ds rb where a: "regretable_reads buffer_read (new_regretable_size ''abcd'' 10) [2, 1] = (ds, rb)" by fastforce
  then have o: "\<not> rg_overflow rb"
    by (auto simp: regretable_read_def new_regretable_size_def buffer_read_def copy_at_def Let_def numeral_eq_Suc)
  obtain res rb1 where b: "regret rb = (res, rb1)" by fastforce
  obtain ds' rb2 where c: "regretable_reads buffer_read rb1 [4] = (ds', rb2)" by fastforce
  from regret_restores [OF a o b c] a b c show ?thesis by blast
qed

text \<open>
  \<open>Forget\<close> loses bytes nobody read: after \<open>Regret\<close> and a shorter read, the bytes that
  were pushed back but not read again are dropped by \<open>Forget\<close>, although only what was read
  is to be forgotten. Here one byte of three is read again, and the next read skips two.
\<close>

theorem forget_loses_unread:
  "\<exists>rb1 rb2 rb3 rb4 rb5.
     regretable_read buffer_read (new_regretable_size ''abcd'' 10) 3 = ((''abc'', None), rb1) \<and>
     regret rb1 = (Val (), rb2) \<and>
     regretable_read buffer_read rb2 1 = ((''a'', None), rb3) \<and>
     forget rb3 = (Val (), rb4) \<and>
     regretable_read buffer_read rb4 1 = ((''d'', None), rb5)"
  by (simp add: regretable_read_def new_regretable_size_def buffer_read_def regret_def forget_def
      copy_at_def Let_def numeral_eq_Suc)

text \<open>
  The comment on \<open>Close\<close> says that one cannot regret after it; nothing prevents that: the reads that were kept
  are delivered again, without the closed reader being touched.
\<close>

theorem regret_after_close:
  assumes "rg_wf rb" "\<not> rg_overflow rb" "0 < rg_w rb"
  shows "\<exists>rb'. regret (snd (regretable_close cl rb)) = (Val (), rb') \<and>
    fst (regretable_read rd rb' n) = (take n (rg_kept rb), None)"
  using assms by (simp add: regret_def regretable_close_def regretable_read_def rg_kept_def case_prod_unfold Let_def)

theorem regret_after_close_witness:
  "\<exists>rb'. regret (snd (regretable_close (\<lambda>r. (None, [])) (snd (regretable_read buffer_read (new_regretable ''abc'') 2)))) = (Val (), rb') \<and>
    fst (regretable_read buffer_read rb' 5) = (''ab'', None)"
proof -
  let ?b = "snd (regretable_read buffer_read (new_regretable ''abc'') 2)"
  have "rg_w ?b = 2 \<and> \<not> rg_overflow ?b \<and> rg_kept ?b = ''ab'' \<and> rg_wf ?b"
    by (simp add: regretable_read_def new_regretable_def new_regretable_size_def default_buffer_size_def buffer_read_def
        copy_at_def rg_kept_def rg_wf_def Let_def)
  then show ?thesis using regret_after_close [of ?b "\<lambda>r. (None, [])" buffer_read 5] by simp
qed

end
