(* ===== verification/Counter_Rand.thy ===== *)
theory Counter_Rand
  imports Go_Prelude
begin

text \<open>
  \<open>counterecryptor.go\<close>: a deterministic random source that encrypts a counter.
  AES is a parameter (a key to a block function); the DER encoding of the RSA key is the byte
  string the key value carries. SHA-256 occurs only through \<open>h.Sum(b)\<close> of a hash that nothing was
  written to, which appends the digest of the empty message to \<open>b\<close>.
\<close>

type_synonym bytes = "8 word list"

datatype private_key = RsaKey bytes | OtherKey

record counter_rand =
  cr_cipher :: "bytes \<Rightarrow> bytes"
  cr_counter :: bytes
  cr_rand :: bytes
  cr_ix :: nat

definition aes_block_size :: nat where
  "aes_block_size = 16"

definition sha256_empty :: bytes where
  "sha256_empty =
     [0xe3, 0xb0, 0xc4, 0x42, 0x98, 0xfc, 0x1c, 0x14, 0x9a, 0xfb, 0xf4, 0xc8, 0x99, 0x6f, 0xb9, 0x24,
      0x27, 0xae, 0x41, 0xe4, 0x64, 0x9b, 0x93, 0x4c, 0xa4, 0x95, 0x99, 0x1b, 0x78, 0x52, 0xb8, 0x55]"

definition hash_sum :: "bytes \<Rightarrow> bytes" where
  "hash_sum b = b @ sha256_empty"

text \<open>\<open>NewCounterEncryptorRandFromKey\<close>; a nil seed is \<open>None\<close>.\<close>

definition new_counter_rand ::
  "(bytes \<Rightarrow> bytes \<Rightarrow> bytes) \<Rightarrow> private_key \<Rightarrow> bytes option \<Rightarrow> goerr + counter_rand" where
  "new_counter_rand aes key seed =
     (case key of
        OtherKey \<Rightarrow> Inl (ErrText ''only RSA keys supported'')
      | RsaKey key_bytes \<Rightarrow>
          (let zero = replicate aes_block_size 0 in
           Inr \<lparr>cr_cipher = aes (take aes_block_size (hash_sum key_bytes)),
                cr_counter = (case seed of
                   None \<Rightarrow> zero
                 | Some s \<Rightarrow> take aes_block_size (hash_sum s)),
                cr_rand = zero,
                cr_ix = length zero\<rparr>))"

text \<open>\<open>Seed\<close>.\<close>

definition cr_seed :: "bytes \<Rightarrow> (counter_rand, unit) go" where
  "cr_seed b = (\<lambda>c. if length b \<noteq> length (cr_counter c)
     then gopanic ''SetCounter: wrong counter size'' c
     else (Val (), c\<lparr>cr_counter := b\<rparr>))"

text \<open>\<open>refill\<close>: encrypt the counter, then add one to it, least significant byte first.\<close>

fun inc_counter :: "bytes \<Rightarrow> bytes" where
  "inc_counter [] = []"
| "inc_counter (b # bs) = (if b + 1 \<noteq> 0 then (b + 1) # bs else (b + 1) # inc_counter bs)"

definition cr_refill :: "counter_rand \<Rightarrow> counter_rand" where
  "cr_refill c = c\<lparr>cr_rand := cr_cipher c (cr_counter c),
     cr_counter := inc_counter (cr_counter c), cr_ix := 0\<rparr>"

text \<open>\<open>Read\<close> into a buffer of \<open>n\<close> bytes: the bytes delivered (its count is their number).\<close>

definition cr_read :: "counter_rand \<Rightarrow> nat \<Rightarrow> bytes \<times> counter_rand" where
  "cr_read c0 n =
     (let c = (if cr_ix c0 = length (cr_rand c0) then cr_refill c0 else c0);
          m = (if length (cr_rand c) - cr_ix c > n then n else length (cr_rand c) - cr_ix c)
      in (take m (drop (cr_ix c) (cr_rand c)), c\<lparr>cr_ix := cr_ix c + m\<rparr>))"

fun cr_reads :: "counter_rand \<Rightarrow> nat list \<Rightarrow> bytes \<times> counter_rand" where
  "cr_reads c [] = ([], c)"
| "cr_reads c (n # ns) =
     (case cr_read c n of (d, c1) \<Rightarrow> case cr_reads c1 ns of (ds, c2) \<Rightarrow> (d @ ds, c2))"

section \<open>The counter\<close>

fun le_value :: "bytes \<Rightarrow> nat" where
  "le_value [] = 0"
| "le_value (b # bs) = unat b + 256 * le_value bs"

lemma length_inc_counter [simp]: "length (inc_counter bs) = length bs"
  by (induction bs) auto

lemma unat_byte: "unat (b :: 8 word) < 256"
proof -
  have "unat b < 2 ^ LENGTH(8)" by (rule unsigned_less)
  then show ?thesis by simp
qed

lemma le_value_bound: "le_value bs < 256 ^ length bs"
proof (induction bs)
  case (Cons b bs)
  with unat_byte [of b] show ?case by simp
qed simp

lemma unat_inc_byte: "unat (b + 1 :: 8 word) = (unat b + 1) mod 256"
  by (simp add: unat_word_ariths)

lemma byte_wraps: "(b :: 8 word) + 1 = 0 \<longleftrightarrow> unat b = 255"
proof -
  have "b + 1 = 0 \<longleftrightarrow> (unat b + 1) mod 256 = 0"
    using unat_inc_byte [of b] by (metis unat_0 unat_eq_zero)
  moreover have "unat b < 256" by (rule unat_byte)
  ultimately show ?thesis by presburger
qed

section \<open>The key stream\<close>

fun keystream :: "(bytes \<Rightarrow> bytes) \<Rightarrow> bytes \<Rightarrow> nat \<Rightarrow> bytes" where
  "keystream e ctr 0 = []"
| "keystream e ctr (Suc k) = e ctr @ keystream e (inc_counter ctr) k"

definition pending :: "counter_rand \<Rightarrow> bytes" where
  "pending c = drop (cr_ix c) (cr_rand c)"

definition cr_stream :: "counter_rand \<Rightarrow> nat \<Rightarrow> bytes" where
  "cr_stream c k = pending c @ keystream (cr_cipher c) (cr_counter c) k"

definition cr_wf :: "counter_rand \<Rightarrow> bool" where
  "cr_wf c \<longleftrightarrow> cr_ix c \<le> length (cr_rand c) \<and> cr_counter c \<noteq> [] \<and>
     length (cr_rand c) = length (cr_counter c) \<and>
     (\<forall>b. length b = length (cr_counter c) \<longrightarrow> length (cr_cipher c b) = length b)"

lemma inc_counter_Nil [simp]: "inc_counter bs = [] \<longleftrightarrow> bs = []"
  by (cases bs) auto

lemma cr_wf_refill: "cr_wf c \<Longrightarrow> cr_wf (cr_refill c)"
  by (simp add: cr_wf_def cr_refill_def)

text \<open>A read that finds bytes left takes the first of them; one that finds none refills first.\<close>

lemma cr_read_left:
  assumes "cr_ix c \<noteq> length (cr_rand c)"
  shows "cr_read c n = (take (min n (length (pending c))) (pending c),
    c\<lparr>cr_ix := cr_ix c + min n (length (pending c))\<rparr>)"
  using assms by (simp add: cr_read_def pending_def Let_def min_def)

lemma cr_read_none:
  "cr_ix c = length (cr_rand c) \<Longrightarrow> cr_wf c \<Longrightarrow> cr_read c n = cr_read (cr_refill c) n"
  by (simp add: cr_read_def cr_refill_def cr_wf_def Let_def)

lemma cr_refill_left: "cr_wf c \<Longrightarrow> cr_ix (cr_refill c) \<noteq> length (cr_rand (cr_refill c))"
  by (simp add: cr_wf_def cr_refill_def)

lemma cr_wf_advance:
  "cr_wf c \<Longrightarrow> m \<le> length (pending c) \<Longrightarrow> cr_wf (c\<lparr>cr_ix := cr_ix c + m\<rparr>)"
  by (auto simp: cr_wf_def pending_def)

lemma cr_wf_read: "cr_wf c \<Longrightarrow> cr_wf (snd (cr_read c n))"
  using cr_read_left [of c n] cr_read_left [of "cr_refill c" n] cr_read_none [of c n]
    cr_refill_left [of c] cr_wf_refill [of c]
  by (cases "cr_ix c = length (cr_rand c)") (simp_all add: cr_wf_advance)

lemma cr_stream_advance:
  "m \<le> length (pending c) \<Longrightarrow>
     cr_stream c k = take m (pending c) @ cr_stream (c\<lparr>cr_ix := cr_ix c + m\<rparr>) k"
  by (simp add: cr_stream_def pending_def add.commute flip: drop_drop append_assoc)

lemma cr_stream_refill:
  "cr_ix c = length (cr_rand c) \<Longrightarrow> cr_stream c (k + 1) = cr_stream (cr_refill c) k"
  by (simp add: cr_stream_def pending_def cr_refill_def)

lemma cr_read_stream:
  assumes "cr_wf c" "cr_read c n = (d, c')"
  shows "\<exists>j \<le> 1. \<forall>k. cr_stream c (k + j) = d @ cr_stream c' k"
proof (cases "cr_ix c = length (cr_rand c)")
  case True
  have "cr_stream (cr_refill c) k = d @ cr_stream c' k" for k
    using assms(2) cr_read_none [OF True assms(1)] cr_read_left [OF cr_refill_left [OF assms(1)]]
    by (auto intro: cr_stream_advance)
  then show ?thesis using cr_stream_refill [OF True] by (intro exI [of _ 1]) simp
next
  case False
  have "cr_stream c k = d @ cr_stream c' k" for k
    using assms(2) cr_read_left [OF False] by (auto intro: cr_stream_advance)
  then show ?thesis by (intro exI [of _ 0]) simp
qed

lemma cr_reads_stream:
  "cr_wf c \<Longrightarrow> cr_reads c ns = (d, c') \<Longrightarrow>
     cr_wf c' \<and> (\<exists>j \<le> length ns. \<forall>k. cr_stream c (k + j) = d @ cr_stream c' k)"
proof (induction ns arbitrary: c d)
  case Nil
  then show ?case by auto
next
  case (Cons n ns)
  obtain d1 c1 d2 where 1: "cr_read c n = (d1, c1)" and 2: "cr_reads c1 ns = (d2, c')"
    and d: "d = d1 @ d2"
    using Cons.prems(2) by (auto split: prod.splits)
  obtain j1 where j1: "j1 \<le> 1" "\<And>k. cr_stream c (k + j1) = d1 @ cr_stream c1 k"
    using cr_read_stream [OF Cons.prems(1) 1] by blast
  have wf: "cr_wf c1" using cr_wf_read [OF Cons.prems(1), of n] 1 by simp
  obtain j2 where j2: "j2 \<le> length ns" "\<And>k. cr_stream c1 (k + j2) = d2 @ cr_stream c' k"
    and wf': "cr_wf c'"
    using Cons.IH [OF wf 2] by blast
  have "cr_stream c (k + (j2 + j1)) = d @ cr_stream c' k" for k
    using j1(2) [of "k + j2"] j2(2) [of k] d by (simp add: add.assoc)
  then show ?case using wf' j1(1) j2(1) by (intro conjI exI [of _ "j2 + j1"]) auto
qed

lemma keystream_add:
  "\<exists>t. keystream e c (k + j) = keystream e c k @ t"
  by (induction k arbitrary: c) auto

lemma cr_stream_mono: "k \<le> j \<Longrightarrow> \<exists>t. cr_stream c j = cr_stream c k @ t"
  using keystream_add [of "cr_cipher c" "cr_counter c" k "j - k"] by (auto simp: cr_stream_def)

section \<open>Properties\<close>

text \<open>
  The counter step of \<open>refill\<close> adds one to the little-endian value of the counter,
  modulo its range: consecutive blocks encrypt consecutive counters, and the counter
  repeats only after every value was used.
\<close>

theorem inc_counter_value:
  "le_value (inc_counter bs) = (le_value bs + 1) mod 256 ^ length bs"
proof (induction bs)
  case Nil
  then show ?case by simp
next
  case (Cons b bs)
  have lt: "unat b < 256" by (rule unat_byte)
  show ?case
  proof (cases "b + 1 = 0")
    case True
    have "le_value bs + 1 \<le> 256 ^ length bs" using le_value_bound [of bs] by simp
    moreover have "unat b = 255" using True by (simp add: byte_wraps)
    ultimately show ?thesis using True Cons by (simp add: mult_mod_right)
  next
    case False
    then have "unat (b + 1) = unat b + 1" using lt byte_wraps [of b] by (simp add: unat_inc_byte)
    moreover have "le_value (b # bs) + 1 < 256 ^ length (b # bs)"
      using le_value_bound [of bs] lt False byte_wraps [of b]
      by (simp del: not_less)
    ultimately show ?thesis using False by simp
  qed
qed

text \<open>
  The bytes read do not depend on how the reads are cut: for any two sequences of
  buffer sizes, what one sequence of reads delivers in total is a prefix of what the other
  delivers, or the other way round.
\<close>

theorem reads_chunking:
  assumes "cr_wf c"
  shows "take (length (fst (cr_reads c ms))) (fst (cr_reads c ns)) =
         take (length (fst (cr_reads c ns))) (fst (cr_reads c ms))"
proof -
  obtain d c1 where 1: "cr_reads c ns = (d, c1)" by force
  obtain e c2 where 2: "cr_reads c ms = (e, c2)" by force
  obtain i where i: "\<And>k. cr_stream c (k + i) = d @ cr_stream c1 k"
    using cr_reads_stream [OF assms 1] by blast
  obtain j where j: "\<And>k. cr_stream c (k + j) = e @ cr_stream c2 k"
    using cr_reads_stream [OF assms 2] by blast
  have "d @ cr_stream c1 j = e @ cr_stream c2 i"
    using i [of j] j [of i] by (simp add: add.commute)
  then have "take (length e) (d @ cr_stream c1 j) = e" "take (length d) (e @ cr_stream c2 i) = d"
    by (metis append_eq_conv_conj)+
  then show ?thesis using 1 2
    by (cases "length d \<le> length e") (auto dest: arg_cong [where f = "take (length d)"]
      arg_cong [where f = "take (length e)"])
qed

definition counter_example :: counter_rand where
  "counter_example = \<lparr>cr_cipher = rev, cr_counter = [1, 2, 3], cr_rand = [7, 8, 9], cr_ix = 1\<rparr>"

lemma counter_example_wf: "cr_wf counter_example"
  by (simp add: cr_wf_def counter_example_def)

theorem reads_chunking_witness:
  "take (length (fst (cr_reads counter_example [4]))) (fst (cr_reads counter_example [1, 2, 2])) =
   take (length (fst (cr_reads counter_example [1, 2, 2]))) (fst (cr_reads counter_example [4]))"
  by (rule reads_chunking [OF counter_example_wf])

text \<open>Every read into a non-empty buffer makes progress, and never delivers more than asked for.\<close>

theorem read_progress:
  assumes "cr_wf c" "0 < n"
  shows "0 < length (fst (cr_read c n)) \<and> length (fst (cr_read c n)) \<le> n"
  using assms by (auto simp: cr_read_def cr_refill_def cr_wf_def Let_def)

theorem read_progress_witness:
  "0 < length (fst (cr_read counter_example 5)) \<and> length (fst (cr_read counter_example 5)) \<le> 5"
  by (rule read_progress [OF counter_example_wf]) simp

text \<open>
  The cipher key does not depend on a hash: \<open>h.Sum(keyBytes)\<close> appends the digest to the
  encoded key instead of hashing it, so the AES key is the first 16 bytes of the encoding.
\<close>

theorem key_not_hashed:
  assumes "aes_block_size \<le> length der" "new_counter_rand aes (RsaKey der) seed = Inr c"
  shows "cr_cipher c = aes (take aes_block_size der)"
  using assms by (auto simp: new_counter_rand_def hash_sum_def Let_def)

definition counter_key_example :: bytes where
  "counter_key_example = replicate 20 7"

theorem key_not_hashed_witness:
  "\<exists>c. new_counter_rand (\<lambda>key block. key) (RsaKey counter_key_example) None = Inr c \<and>
     cr_cipher c = (\<lambda>block. take aes_block_size counter_key_example)"
proof -
  obtain c where c: "new_counter_rand (\<lambda>key block. key) (RsaKey counter_key_example) None = Inr c"
    by (simp add: new_counter_rand_def Let_def)
  have "aes_block_size \<le> length counter_key_example"
    by (simp add: aes_block_size_def counter_key_example_def)
  from key_not_hashed [OF this c] c show ?thesis by blast
qed

end
