(* ===== verification/Idle_Timeout.thy ===== *)
theory Idle_Timeout
  imports Conn_Model
begin

text \<open>
  \<open>idletimeoutconn.go\<close>: a connection that moves its deadline forward at every read and
  write. Times are nanoseconds, the zero \<open>time.Time\<close> is \<open>None\<close>; durations are Go's 64-bit signed
  integers, so the product with \<open>time.Second\<close> wraps. The connection underneath is used through
  the contract of the locale \<open>deadline_setter\<close>.
\<close>

type_synonym gotime = int

definition second :: int where
  "second = 1000000000"

text \<open>\<open>time.Duration(n) * time.Second\<close>.\<close>

definition seconds_duration :: "int \<Rightarrow> int" where
  "seconds_duration n = sint (word_of_int (n * second) :: 64 word)"

lemma seconds_duration_small:
  assumes "0 \<le> n" "n \<le> 9000000000"
  shows "seconds_duration n = n * second"
  using assms unfolding seconds_duration_def by (intro sint64_word_of_int) (simp_all add: second_def)

locale deadline_setter =
  fixes set_both set_read set_write :: "'c \<Rightarrow> gotime option \<Rightarrow> 'c"
    and read_deadline write_deadline :: "'c \<Rightarrow> gotime option"
  assumes both: "read_deadline (set_both c t) = t" "write_deadline (set_both c t) = t"
    and read_only: "read_deadline (set_read c t) = t" "write_deadline (set_read c t) = write_deadline c"
    and write_only: "write_deadline (set_write c t) = t" "read_deadline (set_write c t) = read_deadline c"

text \<open>A TCP connection and its two deadlines.\<close>

record socket =
  so_conn :: tcp_conn
  so_read_deadline :: "gotime option"
  so_write_deadline :: "gotime option"

definition so_set_deadline :: "socket \<Rightarrow> gotime option \<Rightarrow> socket" where
  "so_set_deadline s t = s\<lparr>so_read_deadline := t, so_write_deadline := t\<rparr>"

definition so_set_read :: "socket \<Rightarrow> gotime option \<Rightarrow> socket" where
  "so_set_read s t = s\<lparr>so_read_deadline := t\<rparr>"

definition so_set_write :: "socket \<Rightarrow> gotime option \<Rightarrow> socket" where
  "so_set_write s t = s\<lparr>so_write_deadline := t\<rparr>"

interpretation sock: deadline_setter so_set_deadline so_set_read so_set_write
  so_read_deadline so_write_deadline
  by unfold_locales (simp_all add: so_set_deadline_def so_set_read_def so_set_write_def)

text \<open>\<open>IdleTimeoutConn\<close> and its methods; \<open>now\<close> is the clock at the call.\<close>

record idle_conn =
  ic_conn :: socket
  ic_idle_timeout :: int
  ic_deadline :: "gotime option"

definition connection_idle_timeout :: int where
  "connection_idle_timeout = 60"

definition idle_limit :: "gotime \<Rightarrow> idle_conn \<Rightarrow> gotime" where
  "idle_limit now c =
     (let t0 = now + seconds_duration connection_idle_timeout;
          t1 = (if ic_idle_timeout c > 0 then now + seconds_duration (ic_idle_timeout c) else t0)
      in case ic_deadline c of
           None \<Rightarrow> t1
         | Some d \<Rightarrow> if d < t1 then d else t1)"

definition settimeout :: "gotime \<Rightarrow> idle_conn \<Rightarrow> idle_conn" where
  "settimeout now c = c\<lparr>ic_conn := so_set_deadline (ic_conn c) (Some (idle_limit now c))\<rparr>"

text \<open>\<open>Read\<close>: the bytes come from the peer, so the model delivers what the argument says.\<close>

definition idle_read :: "gotime \<Rightarrow> (string \<times> goerr option) \<Rightarrow> idle_conn \<Rightarrow> (string \<times> goerr option) \<times> idle_conn" where
  "idle_read now incoming c = (incoming, settimeout now c)"

definition idle_write :: "gotime \<Rightarrow> string \<Rightarrow> idle_conn \<Rightarrow> write_res \<times> idle_conn" where
  "idle_write now data c0 =
     (let c = settimeout now c0 in
      case tcp_write (so_conn (ic_conn c)) data of
        (r, t) \<Rightarrow> (r, c\<lparr>ic_conn := (ic_conn c)\<lparr>so_conn := t\<rparr>\<rparr>))"

definition idle_close :: "idle_conn \<Rightarrow> goerr option \<times> idle_conn" where
  "idle_close c =
     (case tcp_close (so_conn (ic_conn c)) of
        (e, t) \<Rightarrow> (e, c\<lparr>ic_conn := (ic_conn c)\<lparr>so_conn := t\<rparr>\<rparr>))"

definition idle_set_deadline :: "gotime option \<Rightarrow> idle_conn \<Rightarrow> idle_conn" where
  "idle_set_deadline t c = c\<lparr>ic_deadline := t, ic_conn := so_set_deadline (ic_conn c) t\<rparr>"

definition idle_set_read_deadline :: "gotime option \<Rightarrow> idle_conn \<Rightarrow> idle_conn" where
  "idle_set_read_deadline t c = c\<lparr>ic_deadline := t, ic_conn := so_set_read (ic_conn c) t\<rparr>"

definition idle_set_write_deadline :: "gotime option \<Rightarrow> idle_conn \<Rightarrow> idle_conn" where
  "idle_set_write_deadline t c = c\<lparr>ic_deadline := t, ic_conn := so_set_write (ic_conn c) t\<rparr>"

section \<open>Sequences of uses\<close>

text \<open>A use of the connection at some time: a read or a write.\<close>

datatype conn_use = UseRead gotime string | UseWrite gotime string

primrec use_time :: "conn_use \<Rightarrow> gotime" where
  "use_time (UseRead t _) = t"
| "use_time (UseWrite t _) = t"

primrec idle_use :: "conn_use \<Rightarrow> idle_conn \<Rightarrow> idle_conn" where
  "idle_use (UseRead t d) c = snd (idle_read t (d, None) c)"
| "idle_use (UseWrite t d) c = snd (idle_write t d c)"

lemma settimeout_fields [simp]:
  "ic_deadline (settimeout now c) = ic_deadline c"
  "ic_idle_timeout (settimeout now c) = ic_idle_timeout c"
  "so_conn (ic_conn (settimeout now c)) = so_conn (ic_conn c)"
  "so_read_deadline (ic_conn (settimeout now c)) = Some (idle_limit now c)"
  "so_write_deadline (ic_conn (settimeout now c)) = Some (idle_limit now c)"
  by (simp_all add: settimeout_def sock.both) (simp add: so_set_deadline_def)

lemma idle_use_fields [simp]:
  "ic_deadline (idle_use u c) = ic_deadline c"
  "ic_idle_timeout (idle_use u c) = ic_idle_timeout c"
  "so_read_deadline (ic_conn (idle_use u c)) = Some (idle_limit (use_time u) c)"
  "so_write_deadline (ic_conn (idle_use u c)) = Some (idle_limit (use_time u) c)"
  by (cases u; simp add: idle_read_def idle_write_def Let_def split: prod.split)+

lemma idle_uses_fields:
  "ic_deadline (fold idle_use us c) = ic_deadline c"
  "ic_idle_timeout (fold idle_use us c) = ic_idle_timeout c"
  by (induction us arbitrary: c) auto

text \<open>The idle allowance in nanoseconds: 60 seconds unless the connection sets its own.\<close>

definition allowance :: "idle_conn \<Rightarrow> int" where
  "allowance c = seconds_duration
     (if ic_idle_timeout c > 0 then ic_idle_timeout c else connection_idle_timeout)"

lemma idle_limit_min:
  "idle_limit now c =
     (case ic_deadline c of None \<Rightarrow> now + allowance c | Some d \<Rightarrow> min d (now + allowance c))"
  by (auto simp: idle_limit_def allowance_def Let_def min_def split: option.split)

lemma idle_limit_cong:
  "ic_deadline c = ic_deadline c' \<Longrightarrow> ic_idle_timeout c = ic_idle_timeout c' \<Longrightarrow>
     idle_limit now c = idle_limit now c'"
  by (simp add: idle_limit_def)

section \<open>Properties\<close>

text \<open>
  After any sequence of reads and writes, both deadlines of the connection are the
  last use plus the idle allowance, cut off at the global deadline where one is set: the global
  deadline is never extended by traffic, and traffic always leaves a deadline behind.
\<close>

theorem idle_deadline:
  assumes "us \<noteq> []" and "idle_set_deadline t c0 = c"
  shows "so_read_deadline (ic_conn (fold idle_use us c)) =
           Some (case t of None \<Rightarrow> use_time (last us) + allowance c0
                 | Some d \<Rightarrow> min d (use_time (last us) + allowance c0))
       \<and> so_write_deadline (ic_conn (fold idle_use us c)) =
           so_read_deadline (ic_conn (fold idle_use us c))"
proof -
  obtain vs u where us: "us = vs @ [u]" using assms(1) by (metis append_butlast_last_id)
  have "ic_deadline c = t" "ic_idle_timeout c = ic_idle_timeout c0"
    using assms(2) by (auto simp: idle_set_deadline_def)
  then show ?thesis
    by (simp add: us idle_limit_min idle_uses_fields allowance_def split: option.split)
qed

definition idle_example :: idle_conn where
  "idle_example = \<lparr>ic_conn = \<lparr>so_conn = fresh_conn, so_read_deadline = None, so_write_deadline = None\<rparr>,
     ic_idle_timeout = 5, ic_deadline = None\<rparr>"

theorem idle_deadline_witness:
  "so_read_deadline (ic_conn (fold idle_use [UseRead 1 ''a'', UseWrite 7000000000 ''b'']
     (idle_set_deadline (Some 9000000000) idle_example))) = Some 9000000000"
  using idle_deadline [of "[UseRead 1 ''a'', UseWrite 7000000000 ''b'']", OF _ refl,
      of "Some 9000000000" idle_example]
  by (simp add: allowance_def idle_example_def seconds_duration_small second_def)

end
