(* ===== verification/Log_Buffer.thy ===== *)
theory Log_Buffer
  imports Idle_Timeout
begin

text \<open>
  \<open>log.go\<close>: the two log filters (a bit per level for \<open>ctx.Logf\<close>) and the buffer of log
  lines one subscriber may poll. The buffer is global in the source, so it is a record of its own.
  Formatting a message is \<open>fmt.Sprintf\<close>'s; here \<open>msg\<close> is the formatted text.
\<close>

unbundle bit_operations_syntax

record log_buffer =
  lb_log :: "string list"
  lb_signature :: string
  lb_deadline :: "gotime option"

definition empty_log_buffer :: log_buffer where
  "empty_log_buffer = \<lparr>lb_log = [], lb_signature = [], lb_deadline = None\<rparr>"

text \<open>What the log calls read of \<open>ProxyHttpServer\<close>; the logger is nil or a list of lines.\<close>

record log_proxy =
  lp_verbose :: bool
  lp_level :: "16 word"
  lp_logger :: "string list option"

record log_state =
  lg_proxy :: "log_proxy option"
  lg_buffer :: log_buffer
  lg_now :: gotime

definition time_after :: "gotime option \<Rightarrow> gotime \<Rightarrow> bool" where
  "time_after t now = (case t of None \<Rightarrow> False | Some d \<Rightarrow> now < d)"

definition time_before :: "gotime option \<Rightarrow> gotime \<Rightarrow> bool" where
  "time_before t now = (case t of None \<Rightarrow> True | Some d \<Rightarrow> d < now)"

text \<open>\<open>BufferLogEntry\<close>.\<close>

definition buffer_log_entry :: "string \<Rightarrow> string \<Rightarrow> gotime \<Rightarrow> log_buffer \<Rightarrow> log_buffer" where
  "buffer_log_entry signature entry now b =
     (if time_after (lb_deadline b) now \<and> signature = lb_signature b
      then b\<lparr>lb_log := lb_log b @ [entry]\<rparr> else b)"

text \<open>
  \<open>GetLogEntries\<close>. The clock is read three times: \<open>now\<close> for the new deadline, \<open>now'\<close> when the
  deadline is tested, \<open>now''\<close> when the buffer is reset.
\<close>

definition get_log_entries ::
  "string \<Rightarrow> gotime \<Rightarrow> gotime \<Rightarrow> gotime \<Rightarrow> log_buffer \<Rightarrow> string list \<times> log_buffer" where
  "get_log_entries signature now now' now'' b0 =
     (let b = b0\<lparr>lb_deadline := Some (now + 30 * second)\<rparr> in
      if lb_signature b \<noteq> signature \<or> time_before (lb_deadline b) now'
      then ([], b\<lparr>lb_signature := signature, lb_deadline := Some (now'' + 30 * second), lb_log := []\<rparr>)
      else (lb_log b, b\<lparr>lb_log := []\<rparr>))"

text \<open>\<open>%03d\<close> of \<open>ctx.Session & 0xFF\<close>, a number below 256.\<close>

definition session_tag :: "64 word \<Rightarrow> string" where
  "session_tag session =
     (let n = unat (session AND 0xFF)
      in CHR ''['' # [digit_char (n div 100), digit_char (n div 10 mod 10), digit_char (n mod 10)] @ ''] '')"

text \<open>\<open>uint16(1 << uint16(level - 1))\<close>: the subtraction wraps, a shift by 16 or more gives 0.\<close>

definition level_bit :: "16 word \<Rightarrow> 16 word" where
  "level_bit level = push_bit (unat (level - 1)) 1"

text \<open>\<open>ctx.printf\<close>: a nil logger panics.\<close>

definition log_printf :: "string \<Rightarrow> (log_state, unit) go" where
  "log_printf line = (\<lambda>s. case lg_proxy s of
     None \<Rightarrow> gopanic ''nil pointer dereference'' s
   | Some p \<Rightarrow> (case lp_logger p of
       None \<Rightarrow> gopanic ''nil pointer dereference'' s
     | Some ls \<Rightarrow> ret () (s\<lparr>lg_proxy := Some (p\<lparr>lp_logger := Some (ls @ [line])\<rparr>)\<rparr>)))"

text \<open>\<open>(*ProxyCtx).Logf\<close>: \<open>ctx.Proxy\<close> is dereferenced before it is compared with nil.\<close>

definition ctx_logf :: "64 word \<Rightarrow> string \<Rightarrow> 16 word \<Rightarrow> string \<Rightarrow> (log_state, unit) go" where
  "ctx_logf session signature level msg = (\<lambda>s. case lg_proxy s of
     None \<Rightarrow> gopanic ''nil pointer dereference'' s
   | Some p \<Rightarrow>
       (let line = session_tag session @ msg @ [CHR 0x0A] in
        thn (go_when (lp_verbose p \<and> (level = 0 \<or> lp_level p AND level_bit level \<noteq> 0)) (log_printf line))
            (modify (\<lambda>s. s\<lparr>lg_buffer := buffer_log_entry signature line (lg_now s) (lg_buffer s)\<rparr>)) s))"

definition ctx_warnf :: "64 word \<Rightarrow> string \<Rightarrow> string \<Rightarrow> (log_state, unit) go" where
  "ctx_warnf session signature msg = ctx_logf session signature 6 (''WARN: '' @ msg)"

text \<open>\<open>(*ProxyHttpServer).Logf\<close>: the level itself is the mask, and \<open>Verbose\<close> is not consulted.\<close>

definition proxy_logf :: "16 word \<Rightarrow> string \<Rightarrow> log_proxy \<Rightarrow> log_proxy" where
  "proxy_logf level msg p = (case lp_logger p of
     None \<Rightarrow> p
   | Some ls \<Rightarrow>
       if level = 0 \<or> lp_level p AND level \<noteq> 0
       then p\<lparr>lp_logger := Some (ls @ [msg @ [CHR 0x0A]])\<rparr> else p)"

section \<open>The subscription protocol\<close>

text \<open>What happens to the buffer: lines are logged and the subscriber polls.\<close>

datatype log_event = LogLine string string gotime | Poll string gotime gotime gotime

primrec log_step :: "log_event \<Rightarrow> log_buffer \<Rightarrow> log_buffer" where
  "log_step (LogLine sig e now) b = buffer_log_entry sig e now b"
| "log_step (Poll sig t1 t2 t3) b = snd (get_log_entries sig t1 t2 t3 b)"

lemma get_log_entries_signature [simp]:
  "lb_signature (snd (get_log_entries sig t1 t2 t3 b)) = sig"
  by (simp add: get_log_entries_def Let_def)

lemma get_log_entries_empties [simp]: "lb_log (snd (get_log_entries sig t1 t2 t3 b)) = []"
  by (simp add: get_log_entries_def Let_def)

lemma buffer_log_entry_fields [simp]:
  "lb_signature (buffer_log_entry sig e now b) = lb_signature b"
  "lb_deadline (buffer_log_entry sig e now b) = lb_deadline b"
  by (simp_all add: buffer_log_entry_def)

lemma buffer_log_entry_log:
  "lb_log (buffer_log_entry sig e now b) =
     lb_log b @ (if time_after (lb_deadline b) now \<and> sig = lb_signature b then [e] else [])"
  by (simp add: buffer_log_entry_def)

lemma buffer_lines:
  "lb_log (fold (\<lambda>(sig, e, now). buffer_log_entry sig e now) ls b) =
     lb_log b @ map (\<lambda>(sig, e, now). e)
       (filter (\<lambda>(sig, e, now). sig = lb_signature b \<and> time_after (lb_deadline b) now) ls)"
  "lb_signature (fold (\<lambda>(sig, e, now). buffer_log_entry sig e now) ls b) = lb_signature b"
  "lb_deadline (fold (\<lambda>(sig, e, now). buffer_log_entry sig e now) ls b) = lb_deadline b"
proof (induction ls arbitrary: b)
  case (Cons l ls)
  obtain sig e now where l: "l = (sig, e, now)" by (cases l) auto
  { case 1 show ?case using Cons(1) [of "buffer_log_entry sig e now b"]
      by (auto simp: l buffer_log_entry_log) }
  { case 2 show ?case using Cons(2) by (simp add: l) }
  { case 3 show ?case using Cons(3) by (simp add: l) }
qed simp_all

lemma poll_deadline:
  "lb_signature b = sig \<Longrightarrow> t2 \<le> t1 + 30 * second \<Longrightarrow>
     get_log_entries sig t1 t2 t3 b = (lb_log b, b\<lparr>lb_deadline := Some (t1 + 30 * second), lb_log := []\<rparr>)"
  by (simp add: get_log_entries_def time_before_def Let_def)

section \<open>Properties\<close>

text \<open>
  Between two polls for the same signature, the second poll returns exactly the lines
  logged under that signature within 30 seconds of the first, in the order they were logged, and
  nothing of other clients.
\<close>

theorem poll_returns_lines:
  assumes "lb_signature b = sig" "t2 \<le> t1 + 30 * second" "u2 \<le> u1 + 30 * second"
    and "snd (get_log_entries sig t1 t2 t3 b) = b1"
    and "fold (\<lambda>(sg, e, now). buffer_log_entry sg e now) ls b1 = b2"
  shows "fst (get_log_entries sig u1 u2 u3 b2) =
    map (\<lambda>(sg, e, now). e) (filter (\<lambda>(sg, e, now). sg = sig \<and> now < t1 + 30 * second) ls)"
proof -
  have b1: "b1 = b\<lparr>lb_deadline := Some (t1 + 30 * second), lb_log := []\<rparr>"
    using assms(4) poll_deadline [OF assms(1,2)] by simp
  have "lb_log b2 = map (\<lambda>(sg, e, now). e)
      (filter (\<lambda>(sg, e, now). sg = sig \<and> now < t1 + 30 * second) ls)"
    using assms(1,5) buffer_lines(1) [of ls b1] by (simp add: b1 time_after_def)
  moreover have "lb_signature b2 = sig"
    using assms(1,5) buffer_lines(2) [of ls b1] by (simp add: b1)
  ultimately show ?thesis using poll_deadline [OF _ assms(3)] by simp
qed

theorem poll_returns_lines_witness:
  "fst (get_log_entries ''a'' 5 6 7
     (fold (\<lambda>(sg, e, now). buffer_log_entry sg e now)
        [(''a'', ''one'', 3), (''b'', ''other'', 4), (''a'', ''two'', 5)]
        (snd (get_log_entries ''a'' 1 2 2 \<lparr>lb_log = [''old''], lb_signature = ''a'', lb_deadline = None\<rparr>)))) =
   [''one'', ''two'']"
  using poll_returns_lines [of "\<lparr>lb_log = [''old''], lb_signature = ''a'', lb_deadline = None\<rparr>" "''a''"
      2 1 6 5, OF _ _ _ refl refl,
      where ls = "[(''a'', ''one'', 3), (''b'', ''other'', 4), (''a'', ''two'', 5)]" and ?t3.0 = 2 and ?u3.0 = 7]
  by (simp add: second_def)

text \<open>
  A subscription never times out: \<open>GetLogEntries\<close> moves the deadline 30 seconds ahead
  before it asks whether the deadline has passed, so lines buffered any time ago are still returned
  where the comment promises a new 30-second window.
\<close>

theorem subscription_never_expires:
  assumes "lb_signature b = sig" "t1 \<le> t2" "t2 \<le> t1 + second"
  shows "fst (get_log_entries sig t1 t2 t3 b) = lb_log b"
  using assms by (simp add: get_log_entries_def time_before_def second_def Let_def)

theorem subscription_never_expires_witness:
  "fst (get_log_entries ''a'' (3600 * second) (3600 * second) (3600 * second)
      \<lparr>lb_log = [''an hour old''], lb_signature = ''a'', lb_deadline = Some (30 * second)\<rparr>) = [''an hour old'']"
  using subscription_never_expires [of
      "\<lparr>lb_log = [''an hour old''], lb_signature = ''a'', lb_deadline = Some (30 * second)\<rparr>" "''a''"
      "3600 * second" "3600 * second" "3600 * second"]
  by (simp add: second_def)

text \<open>
  \<open>ctx.Logf\<close> and \<open>proxy.Logf\<close> disagree on what a verbosity level is: at level 3 with
  only the bit of level 3 set, the context logs the line and the server drops it; with only the bit of
  level 1 set, the server logs it and the context does not.
\<close>

theorem log_levels_disagree:
  "proxy_logf 3 msg \<lparr>lp_verbose = True, lp_level = 4, lp_logger = Some ls\<rparr> =
     \<lparr>lp_verbose = True, lp_level = 4, lp_logger = Some ls\<rparr> \<and>
   snd (ctx_logf 1 sig 3 msg
     \<lparr>lg_proxy = Some \<lparr>lp_verbose = True, lp_level = 4, lp_logger = Some ls\<rparr>,
        lg_buffer = empty_log_buffer, lg_now = t\<rparr>) =
     \<lparr>lg_proxy = Some \<lparr>lp_verbose = True, lp_level = 4,
        lp_logger = Some (ls @ [''[001] '' @ msg @ [CHR 0x0A]])\<rparr>,
        lg_buffer = empty_log_buffer, lg_now = t\<rparr> \<and>
   proxy_logf 3 msg \<lparr>lp_verbose = True, lp_level = 1, lp_logger = Some ls\<rparr> =
     \<lparr>lp_verbose = True, lp_level = 1, lp_logger = Some (ls @ [msg @ [CHR 0x0A]])\<rparr> \<and>
   snd (ctx_logf 1 sig 3 msg
     \<lparr>lg_proxy = Some \<lparr>lp_verbose = True, lp_level = 1, lp_logger = Some ls\<rparr>,
        lg_buffer = empty_log_buffer, lg_now = t\<rparr>) =
     \<lparr>lg_proxy = Some \<lparr>lp_verbose = True, lp_level = 1, lp_logger = Some ls\<rparr>,
        lg_buffer = empty_log_buffer, lg_now = t\<rparr>"
  by (intro conjI) (simp_all add: proxy_logf_def ctx_logf_def log_printf_def level_bit_def session_tag_def
      buffer_log_entry_def empty_log_buffer_def time_after_def digit_char_def Let_def go_defs)

end
