(* ===== verification/Host_Names.thy ===== *)
theory Host_Names
  imports Go_Prelude
begin

text \<open>
  The functions on host names and paths that the components share: \<open>inheritPort\<close> (\<open>utils.go\<close>),
  \<open>stripPort\<close> (\<open>https.go\<close>), \<open>checkDomain\<close> (\<open>proxy.go\<close>), \<open>validIP4\<close> (\<open>ctx.go\<close>), and
  \<open>filepath.Ext\<close>. The slices \<open>s[i:]\<close> of the source are \<open>drop (nat i) s\<close>, always with an index
  that \<open>strings.IndexRune\<close> found.
\<close>

definition inherit_port :: "string \<Rightarrow> string \<Rightarrow> string" where
  "inherit_port new_host previous_host =
     (if index_byte new_host (CHR '':'') = -1 then
        (let i = index_byte previous_host (CHR '':'') in
         if i = -1 then new_host @ '':80'' else new_host @ drop (nat i) previous_host)
      else new_host)"

definition strip_port :: "string \<Rightarrow> string" where
  "strip_port s =
     (let i = index_byte s (CHR '':'') in if i = -1 then s else take (nat i) s)"

definition check_domain :: "string \<Rightarrow> bool" where
  "check_domain host =
     (if length host = 0 then False
      else let b = hd host in is_lower b \<or> is_digit b \<or> b = CHR ''-'' \<or> is_upper b)"

text \<open>
  The expression of \<open>validIP4\<close>: three octets each followed by a dot, then a digit (it is not
  anchored at the end, and the first alternative of the last octet is one digit).
\<close>

definition valid_octet :: "string \<Rightarrow> bool" where
  "valid_octet w \<longleftrightarrow> 1 \<le> length w \<and> length w \<le> 3 \<and> list_all is_digit w \<and>
     (1 < length w \<longrightarrow> hd w \<noteq> CHR ''0'') \<and> parse_radix 10 w \<le> 255"

definition ip_regex :: "string \<Rightarrow> bool" where
  "ip_regex s = (case split_byte s (CHR ''.'') of
     a # b # c # (x # _) # _ \<Rightarrow> valid_octet a \<and> valid_octet b \<and> valid_octet c \<and> is_digit x
   | _ \<Rightarrow> False)"

definition valid_ip4 :: "string \<Rightarrow> bool" where
  "valid_ip4 ip = ip_regex (trim_set [CHR '' ''] ip)"

text \<open>\<open>filepath.Ext\<close>: from the last dot of the last element of the path.\<close>

definition path_ext :: "string \<Rightarrow> string" where
  "path_ext p =
     (let e = rev (takeWhile (\<lambda>c. c \<noteq> CHR ''/'') (rev p)); i = last_index_byte e (CHR ''.'')
      in if i < 0 then [] else drop (nat i) e)"

section \<open>Facts\<close>

lemma inherit_port_absent:
  "CHR '':'' \<notin> set n \<Longrightarrow> inherit_port n p =
     n @ (if CHR '':'' \<in> set p then drop (nat (index_byte p (CHR '':''))) p else '':80'')"
  by (simp add: inherit_port_def Let_def)

lemma inherit_port_present: "CHR '':'' \<in> set n \<Longrightarrow> inherit_port n p = n"
  by (simp add: inherit_port_def)

lemma index_byte_drop: "c \<in> set s \<Longrightarrow> \<exists>u v. s = u @ c # v \<and> c \<notin> set u \<and> index_byte s c = int (length u)"
proof -
  assume "c \<in> set s"
  then obtain u v where "s = u @ c # v" "c \<notin> set u" by (metis split_list_first)
  then show ?thesis using index_byte_split by blast
qed

text \<open>A host and a port written \<open>host:port\<close> pass their port on.\<close>

lemma inherit_port_from:
  "CHR '':'' \<notin> set n \<Longrightarrow> CHR '':'' \<notin> set h \<Longrightarrow> inherit_port n (h @ CHR '':'' # port) = n @ CHR '':'' # port"
  by (simp add: inherit_port_absent index_byte_split)

lemma strip_port_host: "CHR '':'' \<notin> set h \<Longrightarrow> strip_port (h @ CHR '':'' # port) = h"
  by (simp add: strip_port_def index_byte_split Let_def)

lemma strip_port_none: "CHR '':'' \<notin> set h \<Longrightarrow> strip_port h = h"
  by (simp add: strip_port_def)

lemma check_domain_no_colon_start: "check_domain h \<Longrightarrow> h \<noteq> [] \<and> hd h \<noteq> CHR '':''"
  by (auto simp: check_domain_def is_lower_def is_digit_def is_upper_def Let_def split: if_splits)

section \<open>Properties\<close>

text \<open>
  \<open>inheritPort\<close> always yields a host with a port: the new host's own where it has one,
  else the previous host's, else 80; its host part is the new host's, and applying it again, with
  any previous host, changes nothing.
\<close>

theorem inherit_port_spec:
  "CHR '':'' \<in> set (inherit_port n p) \<and> strip_port (inherit_port n p) = strip_port n \<and>
   inherit_port (inherit_port n p) q = inherit_port n p"
proof (cases "CHR '':'' \<in> set n")
  case True
  then show ?thesis by (simp add: inherit_port_present)
next
  case False
  have "\<exists>t. inherit_port n p = n @ CHR '':'' # t"
  proof (cases "CHR '':'' \<in> set p")
    case True
    then obtain u v where "p = u @ CHR '':'' # v" "CHR '':'' \<notin> set u" by (metis split_list_first)
    then show ?thesis using False inherit_port_from by auto
  next
    case no: False
    then show ?thesis using False by (simp add: inherit_port_absent)
  qed
  then obtain t where "inherit_port n p = n @ CHR '':'' # t" ..
  then show ?thesis using False by (simp add: strip_port_host strip_port_none inherit_port_present)
qed

end
