(* ===== verification/Blocked_Page.thy ===== *)
theory Blocked_Page
  imports Host_Names
begin

text \<open>
  The page the proxy answers a blocked request with (\<open>blockedhtml\<close> of \<open>ctx.go\<close>, as its lines) and
  the substitutions the dispatchers make in it. The text has one character outside ASCII, a
  typographic apostrophe, which is three bytes.
\<close>

definition blocked_lines :: "string list" where
  "blocked_lines = [
    [],
    ''<!DOCTYPE html><html lang='' @ [CHR 0x22] @ ''en'' @ [CHR 0x22] @ ''>'',
    ''<head>'',
    ''    <title>Page blocked by Winston</title>'',
    [],
    ''    <style>'',
    ''        html, body {'',
    ''            height:100%;'',
    [CHR 0x09, CHR 0x09, CHR 0x09] @ ''width:100%;'',
    ''            margin:0;'',
    ''            padding:0;'',
    [CHR 0x09, CHR 0x09, CHR 0x09] @ ''font-family: '' @ [CHR 0x27] @ ''IBM Plex Mono'' @ [CHR 0x27] @ '';'',
    ''        }'',
    ''        .wrap {'',
    ''            display:table;'',
    [CHR 0x09, CHR 0x09, CHR 0x09] @ ''table-layout: fixed;'',
    ''            width: 100%;'',
    [CHR 0x09, CHR 0x09, CHR 0x09] @ ''height: 100%;'',
    ''        }'',
    ''        .image {'',
    [CHR 0x09, CHR 0x09, CHR 0x09] @ ''text-align: center;'',
    ''            vertical-align:middle;'',
    ''            display:table-cell;'',
    [],
    [],
    ''        }'',
    [CHR 0x09] @ ''.reason {'',
    [CHR 0x09] @ ''    width:500px;'',
    ''            vertical-align:middle;'',
    [CHR 0x09] @ ''    text-align: left;'',
    ''            display:table-cell;'',
    [CHR 0x09] @ ''    padding: 0px 20px;'',
    [CHR 0x09] @ ''    font-size:14px;'',
    [CHR 0x09] @ ''}'',
    [CHR 0x09] @ ''.spacer {'',
    [CHR 0x09, CHR 0x09] @ ''min-width:20px;'',
    [CHR 0x09, CHR 0x09] @ ''display:table-cell;'',
    [],
    [CHR 0x09] @ ''}'',
    ''        .image img {'',
    ''            max-width: 250px;'',
    ''            height:auto;'',
    ''        }'',
    [CHR 0x09] @ ''h1 { font-size: 28px; }'',
    [CHR 0x09] @ ''@media (max-width: 750px) {'',
    [CHR 0x09, CHR 0x09] @ ''.image { display:none;}'',
    [CHR 0x09, CHR 0x09] @ ''.middle { width:100% !important; }'',
    [CHR 0x09, CHR 0x09] @ ''.spacer { display:none; }'',
    [CHR 0x09, CHR 0x09] @ ''.reason {width: 100%;}'',
    [CHR 0x09] @ ''}'',
    [],
    [CHR 0x09] @ ''@media (max-width: 1000px) {'',
    [CHR 0x09, CHR 0x09] @ ''.image { width:250px; }'',
    [CHR 0x09, CHR 0x09] @ ''.middle { width:calc(100% - 250px) !important; }'',
    [CHR 0x09, CHR 0x09] @ ''.spacer { display:none; }'',
    [CHR 0x09] @ ''}'',
    ''    </style>'',
    '' <script>'',
    ''   function post(url, params, callback) {'',
    ''      var httpRequest = new XMLHttpRequest();'',
    ''      httpRequest.onreadystatechange = function () {'',
    ''        if (this.readyState != 4) return;'',
    [],
    ''        if (this.status == 200) {'',
    ''          if (callback) {'',
    ''            callback(this.responseText);'',
    ''          }'',
    ''        }'',
    ''      };'',
    ''      httpRequest.open('' @ [CHR 0x27] @ ''POST'' @ [CHR 0x27] @ '', url);'',
    ''      httpRequest.setRequestHeader('' @ [CHR 0x27] @ ''Content-Type'' @ [CHR 0x27] @ '', '' @ [CHR 0x27] @ ''application/x-www-form-urlencoded'' @ [CHR 0x27] @ '');'',
    [],
    ''      httpRequest.send(JSON.stringify(params));'',
    ''  }'',
    [],
    ''function buildURL() {'',
    ''    var hostname;'',
    ''    //find & remove protocol (http, ftp, etc.) and get hostname'',
    [CHR 0x09] @ ''url = window.location.href;'',
    [],
    ''    if (url.indexOf('' @ [CHR 0x22] @ ''://'' @ [CHR 0x22] @ '') > -1) {'',
    ''        hostname = url.split('' @ [CHR 0x27] @ ''/'' @ [CHR 0x27] @ '')[2];'',
    ''    }'',
    ''    else {'',
    ''        hostname = url.split('' @ [CHR 0x27] @ ''/'' @ [CHR 0x27] @ '')[0];'',
    ''    }'',
    [],
    ''    hostname = hostname.split('' @ [CHR 0x27] @ '':'' @ [CHR 0x27] @ '')[0];'',
    ''    hostname = hostname.split('' @ [CHR 0x27] @ ''?'' @ [CHR 0x27] @ '')[0];'',
    [],
    [CHR 0x09] @ ''var scheme = '' @ [CHR 0x22] @ ''http://winston.conf:81'' @ [CHR 0x22] @ '';'',
    [CHR 0x09] @ ''if (location.protocol == '' @ [CHR 0x22] @ ''https:'' @ [CHR 0x22] @ '')'',
    [CHR 0x09] @ ''    scheme = '' @ [CHR 0x22] @ ''https://winston.conf:82'' @ [CHR 0x22] @ '';'',
    [],
    [CHR 0x09] @ ''var url = scheme + '' @ [CHR 0x27] @ ''/api/add_allowed_site'' @ [CHR 0x27] @ '';'',
    [CHR 0x09] @ ''var reqdata = {Host: hostname, Minutes: 10};'',
    [CHR 0x09] @ ''post(url, reqdata, function (data) {'',
    [CHR 0x09, CHR 0x09] @ ''location.reload(true);'',
    [CHR 0x09] @ ''});'',
    [],
    ''}'',
    '' </script>'',
    ''</head>'',
    ''<body>'',
    ''<div class='' @ [CHR 0x22] @ ''wrap'' @ [CHR 0x22] @ ''>'',
    ''        <div class='' @ [CHR 0x22] @ ''image'' @ [CHR 0x22] @ ''>'',
    [CHR 0x09, CHR 0x09, CHR 0x09] @ ''<img src='' @ [CHR 0x22] @ ''//winston.conf/images/logo.svg'' @ [CHR 0x22] @ ''>'',
    ''            <div>%BLOCKED%</div>'',
    ''        </div>'',
    [CHR 0x09, CHR 0x09] @ ''<div class='' @ [CHR 0x22] @ ''reason'' @ [CHR 0x22] @ ''>'',
    [],
    [CHR 0x09, CHR 0x09, CHR 0x09] @ ''<h1>%TITLE%</h1>'',
    [],
    [CHR 0x09, CHR 0x09, CHR 0x09] @ ''<p>%TEXT%</p>'',
    [],
    ''<p>%PROCEED%</p>'',
    [CHR 0x09, CHR 0x09] @ ''</div>'',
    [CHR 0x09, CHR 0x09] @ ''<div class='' @ [CHR 0x22] @ ''spacer'' @ [CHR 0x22] @ ''></div>'',
    [],
    ''</div>'',
    [],
    ''</body>'',
    ''</html>'']"

definition blocked_html :: string where
  "blocked_html = join_with [CHR 0x0A] blocked_lines"

text \<open>The four substitutions, in the order of the source; each replaces the first occurrence.\<close>

definition blocked_page :: "string \<Rightarrow> string \<Rightarrow> string \<Rightarrow> string \<Rightarrow> string" where
  "blocked_page errorcode title text proceed =
     (let b0 = replace1 blocked_html ''%BLOCKED%'' errorcode;
          b1 = replace1 b0 ''%TITLE%'' title;
          b2 = replace1 b1 ''%TEXT%'' text
      in replace1 b2 ''%PROCEED%'' proceed)"

definition tracker_text :: string where
  "tracker_text = ''A website is attempting to track you. For your protection, access to this page has been blocked. It'' @
     [CHR 0xE2, CHR 0x80, CHR 0x99] @ ''s recommended that you do NOT visit this site.''"

definition proceed_link :: string where
  "proceed_link = ''<a href='' @ [CHR 0x22] @ ''#'' @ [CHR 0x22] @ '' onclick='' @ [CHR 0x22] @
     ''buildURL();return false;'' @ [CHR 0x22] @ ''>Visit this page anyway</a>''"

end
