(* ===== verification/Http_Types.thy ===== *)
theory Http_Types
  imports Go_Prelude "HOL-Library.AList" "HOL-Library.Char_ord" "HOL-Library.List_Lexorder"
begin

text \<open>
  The data of package \<open>net/http\<close> that the proxy handles: URLs, headers, requests, responses,
  with the methods the source calls on them, and the library's own response constructor
  (\<open>responses.go\<close>) and header copy (\<open>ctx.go\<close>).
  A header is an association list with distinct keys, in the order in which Go's map iteration
  happens to visit it: every statement holds for any such order.
\<close>

section \<open>URLs\<close>

record url =
  u_scheme :: string
  u_opaque :: string
  u_user :: "string option"
  u_host :: string
  u_path :: string
  u_query :: string
  u_fragment :: string

definition empty_url :: url where
  "empty_url = \<lparr>u_scheme = [], u_opaque = [], u_user = None, u_host = [], u_path = [],
     u_query = [], u_fragment = []\<rparr>"

definition url_is_abs :: "url \<Rightarrow> bool" where
  "url_is_abs u \<longleftrightarrow> u_scheme u \<noteq> []"

definition is_alnum :: "char \<Rightarrow> bool" where
  [str_simps]: "is_alnum c \<longleftrightarrow> is_digit c \<or> is_upper c \<or> is_lower c"

definition hex_upper :: "nat \<Rightarrow> char" where
  [str_simps]: "hex_upper d = upper_char (digit_char d)"

text \<open>\<open>url.escape\<close> in path mode.\<close>

definition escape_path_char :: "char \<Rightarrow> string" where
  "escape_path_char c =
     (if is_alnum c \<or> c \<in> set ''-_.~$&+,/:;=@'' then [c]
      else [CHR 0x25, hex_upper (byte c div 16), hex_upper (byte c mod 16)])"

definition escaped_path :: "url \<Rightarrow> string" where
  "escaped_path u = (if u_path u = ''*'' then ''*'' else concat (map escape_path_char (u_path u)))"

text \<open>\<open>(*URL).String\<close>, for URLs whose user, host and fragment need no escaping.\<close>

definition url_string :: "url \<Rightarrow> string" where
  "url_string u =
     (let scheme = (if u_scheme u = [] then [] else u_scheme u @ '':'');
          query = (if u_query u = [] then [] else ''?'' @ u_query u);
          frag = (if u_fragment u = [] then [] else ''#'' @ u_fragment u);
          auth = (if u_scheme u \<noteq> [] \<or> u_host u \<noteq> [] \<or> u_user u \<noteq> None
                  then (if u_host u \<noteq> [] \<or> u_path u \<noteq> [] \<or> u_user u \<noteq> None then ''//'' else [])
                    @ (case u_user u of None \<Rightarrow> [] | Some i \<Rightarrow> i @ ''@'') @ u_host u
                  else []);
          path = escaped_path u;
          slash = (if path \<noteq> [] \<and> hd path \<noteq> CHR ''/'' \<and> u_host u \<noteq> [] then ''/'' else []);
          i = index_byte path (CHR '':'');
          dot = (if scheme @ auth @ slash = [] \<and> i > -1 \<and> CHR ''/'' \<notin> set (take (nat i) path)
                 then ''./'' else [])
      in if u_opaque u \<noteq> [] then scheme @ u_opaque u @ query @ frag
         else scheme @ auth @ slash @ dot @ path @ query @ frag)"

text \<open>\<open>net.JoinHostPort\<close> and \<open>net.SplitHostPort\<close> (its error cases by message only).\<close>

definition join_host_port :: "string \<Rightarrow> string \<Rightarrow> string" where
  "join_host_port host port =
     (if CHR '':'' \<in> set host then ''['' @ host @ '']:'' @ port else host @ '':'' @ port)"

definition split_host_port :: "string \<Rightarrow> goerr + (string \<times> string)" where
  "split_host_port s =
     (let i = last_index_byte s (CHR '':'') in
      if i < 0 then Inl (ErrText ''missing port in address'')
      else if s \<noteq> [] \<and> hd s = CHR ''['' then
        (let e = index_byte s (CHR '']'') in
         if e < 0 then Inl (ErrText ''missing ']' in address'')
         else if e + 1 = int (length s) then Inl (ErrText ''missing port in address'')
         else if e + 1 \<noteq> i then
           Inl (ErrText (if s ! nat (e + 1) = CHR '':'' then ''too many colons in address''
                         else ''missing port in address''))
         else if CHR ''['' \<in> set (drop 1 s) then Inl (ErrText ''unexpected '[' in address'')
         else if CHR '']'' \<in> set (drop (nat (e + 1)) s) then Inl (ErrText ''unexpected ']' in address'')
         else Inr (take (nat (e - 1)) (drop 1 s), drop (nat (i + 1)) s))
      else if CHR '':'' \<in> set (take (nat i) s) then Inl (ErrText ''too many colons in address'')
      else if CHR ''['' \<in> set s then Inl (ErrText ''unexpected '[' in address'')
      else if CHR '']'' \<in> set s then Inl (ErrText ''unexpected ']' in address'')
      else Inr (take (nat i) s, drop (nat (i + 1)) s))"

lemma split_join_host_port:
  assumes "CHR '':'' \<notin> set h" "CHR ''['' \<notin> set h" "CHR '']'' \<notin> set h"
    "CHR '':'' \<notin> set p" "CHR ''['' \<notin> set p" "CHR '']'' \<notin> set p"
  shows "split_host_port (join_host_port h p) = Inr (h, p)"
proof -
  have i: "last_index_byte (h @ CHR '':'' # p) (CHR '':'') = int (length h)"
    using assms(4) by (rule last_index_byte_split)
  have b: "hd (h @ CHR '':'' # p) \<noteq> CHR ''[''"
    using assms(2) by (cases h) auto
  show ?thesis using assms i b
    by (simp add: split_host_port_def join_host_port_def Let_def nat_add_distrib)
qed

section \<open>Headers\<close>

type_synonym header = "(string \<times> string list) list"

definition token_char :: "char \<Rightarrow> bool" where
  "token_char c \<longleftrightarrow> is_alnum c \<or> c \<in> set ''!#$%&*+-.^_`|~'' \<or> byte c = 39"

fun canon_go :: "bool \<Rightarrow> string \<Rightarrow> string" where
  "canon_go up [] = []"
| "canon_go up (c # cs) =
     (if up then upper_char c else lower_char c) # canon_go (c = CHR ''-'') cs"

text \<open>\<open>textproto.CanonicalMIMEHeaderKey\<close>.\<close>

definition canonical_key :: "string \<Rightarrow> string" where
  "canonical_key k = (if list_all token_char k then canon_go True k else k)"

lemma dash_case [simp]: "upper_char c = CHR ''-'' \<longleftrightarrow> c = CHR ''-''" "lower_char c = CHR ''-'' \<longleftrightarrow> c = CHR ''-''"
proof -
  have "byte (CHR ''-'') = 45" by simp
  then show "upper_char c = CHR ''-'' \<longleftrightarrow> c = CHR ''-''" "lower_char c = CHR ''-'' \<longleftrightarrow> c = CHR ''-''"
    by (auto simp: upper_char_def lower_char_def is_lower_def is_upper_def dest!: arg_cong [of _ _ byte])
qed

lemma canon_go_idem: "canon_go up (canon_go up k) = canon_go up k"
  by (induction k arbitrary: up) auto

lemma canon_go_lower: "canon_go up (to_lower k) = canon_go up k"
  by (induction k arbitrary: up) (auto simp: to_lower_def)

lemma is_alnum_upper [simp]: "is_alnum (upper_char c) = is_alnum c"
  by (auto simp: is_alnum_def upper_char_def is_lower_def is_upper_def is_digit_def)

lemma is_alnum_lower [simp]: "is_alnum (lower_char c) = is_alnum c"
  by (auto simp: is_alnum_def lower_char_def is_lower_def is_upper_def is_digit_def)

lemma case_non_alnum: "\<not> is_alnum c \<Longrightarrow> upper_char c = c \<and> lower_char c = c"
  by (auto simp: is_alnum_def upper_char_def lower_char_def)

lemma token_char_upper [simp]: "token_char (upper_char c) = token_char c"
  using case_non_alnum [of c] is_alnum_upper [of c] unfolding token_char_def by (cases "is_alnum c") auto

lemma token_char_lower [simp]: "token_char (lower_char c) = token_char c"
  using case_non_alnum [of c] is_alnum_lower [of c] unfolding token_char_def by (cases "is_alnum c") auto

lemma token_canon_go [simp]: "list_all token_char (canon_go up k) = list_all token_char k"
  by (induction k arbitrary: up) auto

lemma canonical_key_idem [simp]: "canonical_key (canonical_key k) = canonical_key k"
  by (simp add: canonical_key_def canon_go_idem)

lemma canonical_key_lower: "list_all token_char k \<Longrightarrow> canonical_key (to_lower k) = canonical_key k"
proof -
  assume "list_all token_char k"
  moreover have "list_all token_char (to_lower k) = list_all token_char k"
    by (simp add: to_lower_def list.pred_map comp_def)
  ultimately show ?thesis by (simp add: canonical_key_def canon_go_lower)
qed

definition hvalues :: "header \<Rightarrow> string \<Rightarrow> string list" where
  "hvalues h k = (case map_of h (canonical_key k) of None \<Rightarrow> [] | Some vs \<Rightarrow> vs)"

definition hget :: "header \<Rightarrow> string \<Rightarrow> string" where
  "hget h k = (case hvalues h k of [] \<Rightarrow> [] | v # _ \<Rightarrow> v)"

definition hset :: "header \<Rightarrow> string \<Rightarrow> string \<Rightarrow> header" where
  "hset h k v = AList.update (canonical_key k) [v] h"

definition hadd :: "header \<Rightarrow> string \<Rightarrow> string \<Rightarrow> header" where
  "hadd h k v = AList.update (canonical_key k) (hvalues h k @ [v]) h"

definition hdel :: "header \<Rightarrow> string \<Rightarrow> header" where
  "hdel h k = AList.delete (canonical_key k) h"

definition header_wf :: "header \<Rightarrow> bool" where
  "header_wf h \<longleftrightarrow> distinct (map fst h) \<and> (\<forall>k \<in> set (map fst h). canonical_key k = k)"

text \<open>
  The interface of a keyed store of value lists, as the clients of a header use it: what a
  lookup returns after each operation, and that operations keep the store well formed.
\<close>

locale multi_store =
  fixes vals :: "'h \<Rightarrow> 'k \<Rightarrow> 'v list"
    and put :: "'h \<Rightarrow> 'k \<Rightarrow> 'v \<Rightarrow> 'h"
    and append1 :: "'h \<Rightarrow> 'k \<Rightarrow> 'v \<Rightarrow> 'h"
    and remove :: "'h \<Rightarrow> 'k \<Rightarrow> 'h"
    and same :: "'k \<Rightarrow> 'k \<Rightarrow> bool"
    and wf :: "'h \<Rightarrow> bool"
  assumes vals_put: "wf h \<Longrightarrow> vals (put h k v) j = (if same k j then [v] else vals h j)"
    and vals_append1: "wf h \<Longrightarrow> vals (append1 h k v) j = (if same k j then vals h j @ [v] else vals h j)"
    and vals_remove: "wf h \<Longrightarrow> vals (remove h k) j = (if same k j then [] else vals h j)"
    and wf_put: "wf h \<Longrightarrow> wf (put h k v)"
    and wf_append1: "wf h \<Longrightarrow> wf (append1 h k v)"
    and wf_remove: "wf h \<Longrightarrow> wf (remove h k)"
    and same_refl: "same k k"
begin

lemma wf_append_all: "wf h \<Longrightarrow> wf (fold (\<lambda>v h. append1 h k v) vs h)"
  by (induction vs arbitrary: h) (auto intro: wf_append1)

lemma vals_append_all:
  "wf h \<Longrightarrow> vals (fold (\<lambda>v h. append1 h k v) vs h) j = (if same k j then vals h j @ vs else vals h j)"
  by (induction vs arbitrary: h) (auto simp: vals_append1 wf_append1)

lemma vals_remove_append_all:
  "wf h \<Longrightarrow> vals (fold (\<lambda>v h. append1 h k v) vs (remove h k)) k = vs"
  by (simp add: vals_append_all vals_remove wf_remove same_refl)

end

lemma map_fst_update:
  "set (map fst (AList.update k v h)) = insert k (set (map fst h))"
  using dom_update [of k v h] by (simp add: dom_map_of_conv_image_fst)

lemma map_fst_delete:
  "set (map fst (AList.delete k h)) = set (map fst h) - {k}"
  by (simp only: delete_keys set_removeAll)

lemma distinct_delete_keys: "distinct (map fst h) \<Longrightarrow> distinct (map fst (AList.delete k h))"
  by (rule distinct_delete)

lemma header_wf_nil [simp]: "header_wf []"
  by (simp add: header_wf_def)

lemma header_wf_hset: "header_wf h \<Longrightarrow> header_wf (hset h k v)"
  using map_fst_update [of "canonical_key k" "[v]" h]
  by (auto simp: header_wf_def hset_def distinct_update simp del: map_fst_update set_map)

lemma header_wf_hadd: "header_wf h \<Longrightarrow> header_wf (hadd h k v)"
  using map_fst_update [of "canonical_key k" "hvalues h k @ [v]" h]
  by (auto simp: header_wf_def hadd_def distinct_update simp del: map_fst_update set_map)

lemma header_wf_hdel: "header_wf h \<Longrightarrow> header_wf (hdel h k)"
  using map_fst_delete [of "canonical_key k" h]
  by (auto simp: header_wf_def hdel_def distinct_delete simp del: map_fst_delete set_map)

definition same_key :: "string \<Rightarrow> string \<Rightarrow> bool" where
  "same_key j k \<longleftrightarrow> canonical_key j = canonical_key k"

lemma hvalues_ops:
  "hvalues (hset h k v) j = (if same_key k j then [v] else hvalues h j)"
  "hvalues (hadd h k v) j = (if same_key k j then hvalues h j @ [v] else hvalues h j)"
  "hvalues (hdel h k) j = (if same_key k j then [] else hvalues h j)"
  by (auto simp: hvalues_def hset_def hadd_def hdel_def same_key_def update_conv' delete_conv')

interpretation hdr: multi_store hvalues hset hadd hdel same_key header_wf
  by unfold_locales
    (auto simp: hvalues_ops header_wf_hset header_wf_hadd header_wf_hdel same_key_def [of k k for k])

lemma hget_hset: "header_wf h \<Longrightarrow> hget (hset h k v) j = (if same_key k j then v else hget h j)"
  by (simp add: hget_def hdr.vals_put)

lemma hget_hdel: "header_wf h \<Longrightarrow> hget (hdel h k) j = (if same_key k j then [] else hget h j)"
  by (simp add: hget_def hdr.vals_remove)

text \<open>\<open>copyHeaders\<close>: empty the destination, then add every value of the source.\<close>

fun add_all :: "header \<Rightarrow> header \<Rightarrow> header" where
  "add_all dst [] = dst"
| "add_all dst ((k, vs) # src) = add_all (fold (\<lambda>v h. hadd h k v) vs dst) src"

definition copy_headers :: "header \<Rightarrow> header \<Rightarrow> header" where
  "copy_headers dst src = add_all (fold (\<lambda>k h. hdel h k) (map fst dst) dst) src"

text \<open>
  \<open>Header.Write\<close>: one line per value, the keys in byte order; line breaks in a value become
  blanks, and the value is trimmed. The pieces are written one after the other and the first error
  ends the call, which delivers the same bytes as one write of the whole text.
\<close>

definition header_value_text :: "string \<Rightarrow> string" where
  "header_value_text v = trim_set [CHR '' '', CHR 0x09, CHR 0x0A, CHR 0x0D]
     (map (\<lambda>c. if c = CHR 0x0A \<or> c = CHR 0x0D then CHR '' '' else c) v)"

definition header_write :: "header \<Rightarrow> string" where
  "header_write h = concat (map (\<lambda>(k, vs).
     concat (map (\<lambda>v. k @ '': '' @ header_value_text v @ crlf) vs)) (sort_key fst h))"

text \<open>\<open>http.StatusText\<close>.\<close>

definition status_texts :: "(int \<times> string) list" where
  "status_texts = [(100, ''Continue''), (101, ''Switching Protocols''), (102, ''Processing''),
     (200, ''OK''), (201, ''Created''), (202, ''Accepted''), (203, ''Non-Authoritative Information''),
     (204, ''No Content''), (205, ''Reset Content''), (206, ''Partial Content''),
     (207, ''Multi-Status''), (208, ''Already Reported''), (226, ''IM Used''),
     (300, ''Multiple Choices''), (301, ''Moved Permanently''), (302, ''Found''),
     (303, ''See Other''), (304, ''Not Modified''), (305, ''Use Proxy''),
     (307, ''Temporary Redirect''), (308, ''Permanent Redirect''),
     (400, ''Bad Request''), (401, ''Unauthorized''), (402, ''Payment Required''),
     (403, ''Forbidden''), (404, ''Not Found''), (405, ''Method Not Allowed''),
     (406, ''Not Acceptable''), (407, ''Proxy Authentication Required''),
     (408, ''Request Timeout''), (409, ''Conflict''), (410, ''Gone''), (411, ''Length Required''),
     (412, ''Precondition Failed''), (413, ''Request Entity Too Large''),
     (414, ''Request URI Too Long''), (415, ''Unsupported Media Type''),
     (416, ''Requested Range Not Satisfiable''), (417, ''Expectation Failed''),
     (418, ''I'' @ [CHR 0x27] @ ''m a teapot''), (421, ''Misdirected Request''),
     (422, ''Unprocessable Entity''), (423, ''Locked''), (424, ''Failed Dependency''),
     (426, ''Upgrade Required''), (428, ''Precondition Required''), (429, ''Too Many Requests''),
     (431, ''Request Header Fields Too Large''), (451, ''Unavailable For Legal Reasons''),
     (500, ''Internal Server Error''), (501, ''Not Implemented''), (502, ''Bad Gateway''),
     (503, ''Service Unavailable''), (504, ''Gateway Timeout''),
     (505, ''HTTP Version Not Supported''), (506, ''Variant Also Negotiates''),
     (507, ''Insufficient Storage''), (508, ''Loop Detected''), (510, ''Not Extended''),
     (511, ''Network Authentication Required'')]"

definition status_text :: "int \<Rightarrow> string" where
  "status_text code = (case map_of status_texts code of None \<Rightarrow> [] | Some t \<Rightarrow> t)"

section \<open>Bodies, requests, responses\<close>

text \<open>
  A body is an \<open>io.ReadCloser\<close>: what reading it to the end still yields, the error reading ends
  with (\<open>None\<close> for EOF), whether it was closed, and whether closing it does nothing
  (\<open>ioutil.NopCloser\<close>). \<open>bd_id\<close> is its identity: 0 for a body made for an answer of the proxy's own,
  positive for the bodies that come from a round trip.
\<close>

record body =
  bd_id :: nat
  bd_data :: string
  bd_err :: "goerr option"
  bd_nop :: bool
  bd_closed :: bool

definition nop_body :: "string \<Rightarrow> body" where
  "nop_body d = \<lparr>bd_id = 0, bd_data = d, bd_err = None, bd_nop = True, bd_closed = False\<rparr>"

definition body_close :: "body \<Rightarrow> body" where
  "body_close b = (if bd_nop b then b else b\<lparr>bd_closed := True\<rparr>)"

text \<open>\<open>ioutil.ReadAll\<close>: what was read before the end, and the error that was not EOF.\<close>

definition read_all :: "body \<Rightarrow> (string \<times> goerr option) \<times> body" where
  "read_all b =
     (if bd_closed b then (([], Some (ErrText ''http: read on closed response body'')), b)
      else ((bd_data b, bd_err b), b\<lparr>bd_data := []\<rparr>))"

record http_request =
  rq_method :: string
  rq_url :: "url option"
  rq_proto :: string
  rq_header :: header
  rq_body :: "body option"
  rq_clen :: int
  rq_transfer :: "string list"
  rq_close :: bool
  rq_host :: string
  rq_remote :: string
  rq_requri :: string
  rq_form :: "(string \<times> string list) list"
  rq_get_body :: "string option"

definition empty_request :: http_request where
  "empty_request = \<lparr>rq_method = [], rq_url = None, rq_proto = [], rq_header = [], rq_body = None,
     rq_clen = 0, rq_transfer = [], rq_close = False, rq_host = [], rq_remote = [], rq_requri = [],
     rq_form = [], rq_get_body = None\<rparr>"

record http_response =
  rs_status :: string
  rs_code :: int
  rs_proto :: string
  rs_header :: header
  rs_body :: body
  rs_clen :: int
  rs_transfer :: "string list"
  rs_close :: bool

text \<open>\<open>NewResponse\<close> of \<open>responses.go\<close>; the zero value of \<open>http.Response\<close> has no status text.\<close>

definition new_response :: "http_request \<Rightarrow> int \<Rightarrow> string \<Rightarrow> string \<Rightarrow> http_response" where
  "new_response r status content_type b =
     (let h0 = hadd [] ''Content-Type'' content_type;
          h1 = hadd h0 ''Cache-Control'' ''no-cache, no-store, must-revalidate'';
          h2 = hadd h1 ''Pragma'' ''no-cache'';
          h3 = hadd h2 ''Expires'' ''0''
      in \<lparr>rs_status = [], rs_code = status, rs_proto = [], rs_header = h3, rs_body = nop_body b,
          rs_clen = int (length b), rs_transfer = rq_transfer r, rs_close = False\<rparr>)"

lemma new_response_simps [simp]:
  "rs_code (new_response r st ct b) = st"
  "rs_body (new_response r st ct b) = nop_body b"
  "rs_clen (new_response r st ct b) = int (length b)"
  "rs_status (new_response r st ct b) = []"
  by (simp_all add: new_response_def Let_def)

lemma header_wf_new_response [simp]: "header_wf (rs_header (new_response r st ct b))"
  by (simp add: new_response_def Let_def header_wf_hadd)

section \<open>Copying headers\<close>

lemma header_wf_fold_hdel: "header_wf h \<Longrightarrow> header_wf (fold (\<lambda>k h. hdel h k) ks h)"
  by (induction ks arbitrary: h) (auto intro: header_wf_hdel)

lemma fold_hdel_values:
  "header_wf h \<Longrightarrow> hvalues (fold (\<lambda>k h. hdel h k) ks h) j =
     (if \<exists>k \<in> set ks. same_key k j then [] else hvalues h j)"
  by (induction ks arbitrary: h) (auto simp: hdr.vals_remove header_wf_hdel)

lemma hvalues_absent:
  assumes "header_wf h" "\<not> (\<exists>k \<in> set (map fst h). same_key k j)"
  shows "hvalues h j = []"
proof -
  have "canonical_key j \<notin> fst ` set h"
    using assms by (auto simp: header_wf_def same_key_def)
  then show ?thesis by (simp add: hvalues_def map_of_eq_None_iff [THEN iffD2])
qed

lemma copy_headers_cleared:
  "header_wf dst \<Longrightarrow> hvalues (fold (\<lambda>k h. hdel h k) (map fst dst) dst) j = []"
  using hvalues_absent [of dst j] by (simp only: fold_hdel_values) auto

lemma add_all_values:
  assumes "header_wf dst" "header_wf src"
  shows "header_wf (add_all dst src) \<and> hvalues (add_all dst src) j = hvalues dst j @ hvalues src j"
  using assms
proof (induction src arbitrary: dst)
  case Nil
  then show ?case by (simp add: hvalues_def)
next
  case (Cons kv src)
  obtain k vs where kv: "kv = (k, vs)" by force
  let ?d = "fold (\<lambda>v h. hadd h k v) vs dst"
  have wfd: "header_wf ?d" using Cons.prems(1) by (rule hdr.wf_append_all)
  have wfs: "header_wf src" and k: "canonical_key k = k" and nk: "k \<notin> fst ` set src"
    using Cons.prems(2) kv by (auto simp: header_wf_def)
  have d: "hvalues ?d j = (if same_key k j then hvalues dst j @ vs else hvalues dst j)"
    using Cons.prems(1) by (rule hdr.vals_append_all)
  have s: "hvalues (kv # src) j = (if same_key k j then vs else hvalues src j)"
    using k by (auto simp: kv hvalues_def same_key_def)
  have z: "same_key k j \<Longrightarrow> hvalues src j = []"
    using nk k by (simp add: hvalues_def same_key_def map_of_eq_None_iff [THEN iffD2])
  show ?case using Cons.IH [OF wfd wfs] d s z by (simp add: kv)
qed

lemma copy_headers_values:
  assumes "header_wf dst" "header_wf src"
  shows "hvalues (copy_headers dst src) j = hvalues src j"
  unfolding copy_headers_def
  using add_all_values [OF header_wf_fold_hdel [OF assms(1)] assms(2)] copy_headers_cleared [OF assms(1)]
  by simp

lemma header_wf_copy_headers: "header_wf dst \<Longrightarrow> header_wf src \<Longrightarrow> header_wf (copy_headers dst src)"
  unfolding copy_headers_def using add_all_values header_wf_fold_hdel by blast

end
