(* ===== verification/Tracer.thy ===== *)
theory Tracer
  imports Http_Types Idle_Timeout
begin

text \<open>
  \<open>tracer.go\<close>: the register of requests to be traced, and the report of a trace. The clock
  is an argument; times and durations are printed by two parameters, since \<open>fmt\<close> prints them with
  the local time zone. The mutex of the register is not modelled: each call is one step.
\<close>

section \<open>Trace requests\<close>

record trace_request =
  tr_match :: string
  tr_expires :: "gotime option"
  tr_modified :: bool
  tr_unmodified :: bool
  tr_skip_request :: bool
  tr_skip_response :: bool
  tr_skip_inject :: bool
  tr_skip_private :: bool
  tr_skip_monitor :: bool
  tr_skip_toolbar :: bool

definition no_trace :: trace_request where
  "no_trace = \<lparr>tr_match = [], tr_expires = None, tr_modified = False, tr_unmodified = False,
     tr_skip_request = False, tr_skip_response = False, tr_skip_inject = False,
     tr_skip_private = False, tr_skip_monitor = False, tr_skip_toolbar = False\<rparr>"

text \<open>\<open>RequestTracer\<close>; a nil tracer is \<open>None\<close>.\<close>

type_synonym tracer = "trace_request list option"

definition trim_blanks :: "string \<Rightarrow> string" where
  "trim_blanks s = trim_set [CHR '' ''] s"

definition apply_flag :: "string \<Rightarrow> trace_request \<Rightarrow> trace_request" where
  "apply_flag param r =
     (let p = to_lower (trim_blanks param) in
      if p = ''modified'' then r\<lparr>tr_modified := True\<rparr>
      else if p = ''unmodified'' then r\<lparr>tr_modified := True, tr_unmodified := True\<rparr>
      else if p = ''skiprequest'' then r\<lparr>tr_skip_request := True\<rparr>
      else if p = ''skipresponse'' then r\<lparr>tr_skip_response := True\<rparr>
      else if p = ''skipinject'' then r\<lparr>tr_skip_inject := True\<rparr>
      else if p = ''skipprivate'' then r\<lparr>tr_skip_private := True\<rparr>
      else if p = ''skipmonitor'' then r\<lparr>tr_skip_monitor := True\<rparr>
      else if p = ''skiptoolbar'' then r\<lparr>tr_skip_toolbar := True\<rparr>
      else r)"

text \<open>\<open>RequestTrace\<close>: the flags are looked for in the whole command, the host word included.\<close>

definition request_trace :: "string list \<Rightarrow> int \<Rightarrow> gotime \<Rightarrow> tracer \<Rightarrow> tracer" where
  "request_trace cmd seconds0 now t =
     (let seconds = (if seconds0 = 0 then 120 else seconds0) in
      if t = None \<or> length cmd < 1 then t
      else
        let req = no_trace\<lparr>tr_match := to_lower (trim_blanks (hd cmd)),
                    tr_expires := Some (now + seconds_duration seconds)\<rparr>;
            req1 = fold apply_flag cmd req;
            req2 = (if length cmd = 1 then req1\<lparr>tr_modified := True\<rparr> else req1)
        in Some [req2])"

definition expires_after :: "gotime \<Rightarrow> trace_request \<Rightarrow> bool" where
  "expires_after now r = (case tr_expires r of None \<Rightarrow> False | Some d \<Rightarrow> now < d)"

definition expires_before :: "gotime \<Rightarrow> trace_request \<Rightarrow> bool" where
  "expires_before now r = (case tr_expires r of None \<Rightarrow> True | Some d \<Rightarrow> d < now)"

text \<open>The bytes a trace request is searched in; a nil URL is dereferenced.\<close>

definition trace_bytes :: "http_request \<Rightarrow> string option" where
  "trace_bytes rq = (case rq_url rq of
     None \<Rightarrow> None
   | Some u \<Rightarrow> Some (if url_is_abs u then url_string u else rq_host rq @ url_string u))"

text \<open>The loop over the registered requests; the outcome is the request that matched, if any.\<close>

fun trace_loop :: "gotime \<Rightarrow> http_request \<Rightarrow> trace_request list \<Rightarrow> trace_request option gores" where
  "trace_loop now rq [] = Val None"
| "trace_loop now rq (r # rs) =
     (if expires_after now r then
        (case trace_bytes rq of
           None \<Rightarrow> Panic ''nil pointer dereference''
         | Some b \<Rightarrow> if contains b (tr_match r) then Val (Some r) else trace_loop now rq rs)
      else trace_loop now rq rs)"

text \<open>Delete the first expired request by moving the last one into its place.\<close>

fun first_expired :: "gotime \<Rightarrow> trace_request list \<Rightarrow> nat option" where
  "first_expired now [] = None"
| "first_expired now (r # rs) =
     (if expires_before now r then Some 0 else map_option Suc (first_expired now rs))"

definition drop_expired :: "gotime \<Rightarrow> trace_request list \<Rightarrow> trace_request list" where
  "drop_expired now rs = (case first_expired now rs of
     None \<Rightarrow> rs
   | Some i \<Rightarrow> butlast (rs[i := last rs]))"

text \<open>\<open>Trace\<close>.\<close>

definition trace :: "gotime \<Rightarrow> http_request \<Rightarrow> (tracer, trace_request) go" where
  "trace now rq = (\<lambda>t. case t of
     None \<Rightarrow> gopanic ''nil pointer dereference'' t
   | Some rs \<Rightarrow>
       (if 0 < length rs then
          (case trace_loop now rq rs of
             Panic e \<Rightarrow> gopanic e t
           | Val (Some r) \<Rightarrow> ret r (if tr_modified r \<or> tr_unmodified r then Some [] else t)
           | Val None \<Rightarrow> ret no_trace (Some (drop_expired now rs)))
        else ret no_trace t))"

section \<open>Trace reports\<close>

record trace_info =
  ti_name :: string
  ti_request_time :: gotime
  ti_duration :: int
  ti_request_headers :: "string list"
  ti_original_headers :: "(string \<times> string) list"
  ti_response_headers :: "string list"
  ti_private :: bool
  ti_mitm :: bool
  ti_round_trip_error :: string
  ti_cookies_sent :: "string list"
  ti_cookies_received :: "string list"
  ti_status :: int
  ti_body :: "string option"
  ti_method :: "string option"

definition setup_trace :: "gotime \<Rightarrow> string \<Rightarrow> trace_info" where
  "setup_trace now name = \<lparr>ti_name = name, ti_request_time = now, ti_duration = 0,
     ti_request_headers = [], ti_original_headers = [], ti_response_headers = [],
     ti_private = False, ti_mitm = False, ti_round_trip_error = [], ti_cookies_sent = [],
     ti_cookies_received = [], ti_status = 0, ti_body = Some [], ti_method = None\<rparr>"

text \<open>The lines \<open>name: value\<close> of a header, with the name in lower case.\<close>

definition header_lines :: "header \<Rightarrow> string list" where
  "header_lines h = concat (map (\<lambda>(k, vs). map (\<lambda>v. to_lower k @ '': '' @ v) vs) h)"

definition show_bool :: "bool \<Rightarrow> string" where
  "show_bool b = (if b then ''true'' else ''false'')"

definition nl :: string where
  "nl = [CHR 0x0A]"

definition ruler :: string where
  "ruler = ''==========================='' @ nl"

definition print_lines :: "string list \<Rightarrow> string" where
  "print_lines ls = concat (map (\<lambda>l. l @ nl) ls)"

text \<open>
  \<open>writeTrace\<close>: what is recorded (\<open>write_trace_info\<close>) and what is printed from the result
  (\<open>write_trace_report\<close>). \<open>ctx\<close> contributes its request, its trace flags, and two of its fields.
\<close>

definition write_trace_info ::
  "gotime \<Rightarrow> http_request \<Rightarrow> trace_request \<Rightarrow> bool \<Rightarrow> bool \<Rightarrow> trace_info \<Rightarrow> trace_info" where
  "write_trace_info now rq tr private mitm i =
     i\<lparr>ti_duration := now - ti_request_time i, ti_private := private, ti_mitm := mitm,
       ti_request_headers := ti_request_headers i @
         (if tr_modified tr \<or> tr_unmodified tr then header_lines (rq_header rq) else []),
       ti_cookies_sent := ti_cookies_sent i @ split_byte (hget (rq_header rq) ''Cookie'') (CHR '';'')\<rparr>"

definition write_trace_report ::
  "(gotime \<Rightarrow> string) \<Rightarrow> (int \<Rightarrow> string) \<Rightarrow> http_request \<Rightarrow> trace_info \<Rightarrow> string" where
  "write_trace_report show_time show_duration rq i =
     nl @ nl @ nl @ ''[INFO] Trace Results ['' @ ti_name i @ '']:'' @ nl @ ruler @ nl @
     ''URL: '' @ (case rq_url rq of None \<Rightarrow> ''<nil>'' | Some u \<Rightarrow> url_string u) @ nl @
     ''Time: '' @ show_time (ti_request_time i) @ nl @
     ''Duration: '' @ show_duration (ti_duration i) @ nl @
     ''Private: '' @ show_bool (ti_private i) @ nl @
     ''Decrypted: '' @ show_bool (ti_mitm i) @ nl @ nl @
     ''Request:'' @ nl @ print_lines (ti_request_headers i) @ nl @
     ''Cookies sent to server:'' @ nl @ print_lines (ti_cookies_sent i) @
     (case ti_body i of
        None \<Rightarrow> []
      | Some b \<Rightarrow> if 0 < length b then nl @ ''Request Body: '' @ nl @ b @ nl else []) @
     nl @ ''Response:'' @ nl @ ''Status: '' @ itoa (ti_status i) @ nl @ nl @
     print_lines (ti_response_headers i) @
     (if 0 < length (ti_cookies_received i)
      then nl @ ''Cookies received from server:'' @ nl @ print_lines (ti_cookies_received i) else []) @
     (if ti_round_trip_error i \<noteq> []
      then nl @ ''Server reported error: '' @ ti_round_trip_error i @ nl else []) @
     nl @ nl @ ''[INFO] End Trace ['' @ ti_name i @ '']:'' @ nl @ ruler @ nl"

section \<open>The register over time\<close>

text \<open>What happens to the register: a trace is ordered, or a request asks for its trace.\<close>

inductive tracer_step :: "tracer \<Rightarrow> trace_request option \<Rightarrow> tracer \<Rightarrow> bool" where
  order: "tracer_step t None (request_trace cmd seconds now t)"
| ask: "trace now rq t = (Val r, t') \<Longrightarrow> tracer_step t (Some r) t'"

inductive_cases tracer_stepE: "tracer_step t r t'"

inductive tracer_reachable :: "tracer \<Rightarrow> bool" where
  start: "tracer_reachable (Some [])"
| step: "tracer_reachable t \<Longrightarrow> tracer_step t r t' \<Longrightarrow> tracer_reachable t'"

definition flags_ok :: "trace_request \<Rightarrow> bool" where
  "flags_ok r \<longleftrightarrow> (tr_unmodified r \<longrightarrow> tr_modified r)"

lemma flags_ok_no_trace [simp]: "flags_ok no_trace"
  by (simp add: flags_ok_def no_trace_def)

lemma flags_ok_apply: "flags_ok r \<Longrightarrow> flags_ok (apply_flag p r)"
  by (simp add: flags_ok_def apply_flag_def Let_def)

lemma flags_ok_fold: "flags_ok r \<Longrightarrow> flags_ok (fold apply_flag ps r)"
  by (induction ps arbitrary: r) (auto intro: flags_ok_apply)

text \<open>The invariant: at most one request, whose flags are consistent.\<close>

definition tracer_inv :: "tracer \<Rightarrow> bool" where
  "tracer_inv t = (case t of None \<Rightarrow> False | Some rs \<Rightarrow> length rs \<le> 1 \<and> list_all flags_ok rs)"

lemma flags_ok_update [simp]:
  "flags_ok (r\<lparr>tr_match := m\<rparr>) = flags_ok r" "flags_ok (r\<lparr>tr_expires := d\<rparr>) = flags_ok r"
  by (simp_all add: flags_ok_def)

lemma tracer_inv_request: "tracer_inv t \<Longrightarrow> tracer_inv (request_trace cmd s now t)"
  by (auto simp: request_trace_def tracer_inv_def Let_def flags_ok_fold split: option.splits)
     (simp_all add: flags_ok_def)

lemma drop_expired_small: "length rs \<le> 1 \<Longrightarrow> drop_expired now rs = rs \<or> drop_expired now rs = []"
  by (cases rs) (auto simp: drop_expired_def)

lemma tracer_inv_trace: "tracer_inv t \<Longrightarrow> trace now rq t = (Val r, t') \<Longrightarrow> tracer_inv t'"
  using drop_expired_small [of "the t" now]
  by (auto simp: trace_def tracer_inv_def go_defs split: option.splits gores.splits if_splits)

lemma trace_loop_in: "trace_loop now rq rs = Val (Some r) \<Longrightarrow> r \<in> set rs \<and> expires_after now r"
  by (induction rs) (auto split: if_splits option.splits)

lemma trace_loop_panics: "trace_loop now rq rs = Panic e \<Longrightarrow> rq_url rq = None"
  by (induction rs) (auto simp: trace_bytes_def split: if_splits option.splits)

lemma tracer_reachable_inv: "tracer_reachable t \<Longrightarrow> tracer_inv t"
proof (induction rule: tracer_reachable.induct)
  case start
  then show ?case by (simp add: tracer_inv_def)
next
  case (step t r t')
  from step.hyps(2) show ?case
    by (cases rule: tracer_stepE) (auto intro: tracer_inv_request tracer_inv_trace step.IH)
qed

section \<open>Properties\<close>

text \<open>
  However traces are ordered and asked for, at most one request waits to be traced, and a
  request that wants its original replayed is also traced itself (the copy is made from that trace).
\<close>

theorem tracer_one_active:
  "tracer_reachable t \<Longrightarrow> \<exists>rs. t = Some rs \<and> length rs \<le> 1 \<and>
     (\<forall>r \<in> set rs. tr_unmodified r \<longrightarrow> tr_modified r)"
  using tracer_reachable_inv [of t]
  by (auto simp: tracer_inv_def flags_ok_def list_all_iff split: option.splits)

theorem tracer_one_active_witness:
  "\<exists>rs. request_trace [''example.com'', ''unmodified''] 0 5 (Some []) = Some rs \<and> length rs \<le> 1 \<and>
     (\<forall>r \<in> set rs. tr_unmodified r \<longrightarrow> tr_modified r)"
  by (rule tracer_one_active) (rule tracer_reachable.step, rule tracer_reachable.start, rule tracer_step.order)

text \<open>
  A trace of a page (modified or unmodified) is handed out once: the request that got it
  empties the register, so every later request gets none until a new trace is ordered, and a
  trace that is handed out had not expired.
\<close>

theorem trace_handed_out_once:
  assumes "tracer_reachable t" "trace now rq t = (Val r, t1)"
    and "tr_modified r \<or> tr_unmodified r"
  shows "t1 = Some [] \<and> trace now' rq' t1 = (Val no_trace, t1) \<and> expires_after now r"
proof -
  obtain rs where t: "t = Some rs" using tracer_reachable_inv [OF assms(1)]
    by (auto simp: tracer_inv_def split: option.splits)
  have "\<not> (tr_modified no_trace \<or> tr_unmodified no_trace)" by (simp add: no_trace_def)
  with assms(2,3) t have "trace_loop now rq rs = Val (Some r) \<and> t1 = Some []"
    by (auto simp: trace_def go_defs split: if_splits gores.splits option.splits)
  then show ?thesis by (auto simp: trace_def go_defs dest: trace_loop_in)
qed

definition trace_example :: http_request where
  "trace_example = empty_request\<lparr>rq_url := Some (empty_url\<lparr>u_host := ''a.com''\<rparr>)\<rparr>"

definition trace_example_register :: tracer where
  "trace_example_register = request_trace [''A.com''] 1 0 (Some [])"

theorem trace_handed_out_once_witness:
  "\<exists>r. trace 5 trace_example trace_example_register = (Val r, Some []) \<and>
     trace 6 trace_example (Some []) = (Val no_trace, Some []) \<and> expires_after 5 r"
proof -
  have reach: "tracer_reachable trace_example_register"
    unfolding trace_example_register_def
    by (rule tracer_reachable.step, rule tracer_reachable.start, rule tracer_step.order)
  have "case trace 5 trace_example trace_example_register of
      (Val r, t) \<Rightarrow> t = Some [] \<and> tr_modified r | (Panic e, t) \<Rightarrow> False"
    by code_simp
  then obtain r where "trace 5 trace_example trace_example_register = (Val r, Some [])" "tr_modified r"
    by (auto split: prod.splits gores.splits)
  with trace_handed_out_once [OF reach this(1), where rq' = trace_example and now' = 6] show ?thesis by blast
qed

end
