(* ===== verification/Response_Writer.thy ===== *)
theory Response_Writer
  imports Chunked Http_Types
begin

text \<open>
  \<open>notsodumbresponsewriter.go\<close>: the response writer the proxy answers a client with on a
  connection it read itself. The connection is used through the contract of \<open>byte_writer\<close>; the
  header the writer points to is a component of the record (the aliasing of that pointer with the
  header of the request is modelled where the writer is built, in the server's theory).
\<close>

record 'w nsd_writer =
  nw_conn :: 'w
  nw_header :: "header option"
  nw_wrote :: bool
  nw_chunking :: bool
  nw_hijacked :: bool

definition new_nsd_writer :: "'w \<Rightarrow> header option \<Rightarrow> 'w nsd_writer" where
  "new_nsd_writer c h = \<lparr>nw_conn = c, nw_header = h, nw_wrote = False, nw_chunking = False,
     nw_hijacked = False\<rparr>"

text \<open>\<open>Header\<close>: the header, created where there is none.\<close>

definition nsd_header :: "'w nsd_writer \<Rightarrow> header \<times> 'w nsd_writer" where
  "nsd_header n = (case nw_header n of
     None \<Rightarrow> ([], n\<lparr>nw_header := Some []\<rparr>)
   | Some h \<Rightarrow> (h, n))"

text \<open>A write to the connection whose result is not looked at.\<close>

definition nsd_put :: "('w \<Rightarrow> string \<Rightarrow> write_res \<times> 'w) \<Rightarrow> string \<Rightarrow> 'w nsd_writer \<Rightarrow> 'w nsd_writer" where
  "nsd_put wwrite d n = n\<lparr>nw_conn := snd (wwrite (nw_conn n) d)\<rparr>"

definition status_line :: "int \<Rightarrow> string" where
  "status_line code = ''HTTP/1.1 '' @ itoa code @ '' '' @ status_text code @ crlf"

text \<open>\<open>WriteHeader\<close>.\<close>

definition nsd_write_header ::
  "('w \<Rightarrow> string \<Rightarrow> write_res \<times> 'w) \<Rightarrow> int \<Rightarrow> 'w nsd_writer \<Rightarrow> 'w nsd_writer" where
  "nsd_write_header wwrite code n =
     (if nw_hijacked n \<or> nw_wrote n then n
      else
        let (h0, n1) = nsd_header (n\<lparr>nw_wrote := True\<rparr>);
            n2 = (if hget h0 ''content-length'' = []
                  then n1\<lparr>nw_header := Some (hset h0 ''transfer-encoding'' ''chunked''), nw_chunking := True\<rparr>
                  else n1);
            h2 = fst (nsd_header n2);
            n3 = (if hget h2 ''Content-Type'' = []
                  then n2\<lparr>nw_header := Some (hset h2 ''Content-Type'' ''text/html; charset=utf-8'')\<rparr>
                  else n2);
            n4 = nsd_put wwrite (status_line code) n3;
            n5 = (case nw_header n4 of None \<Rightarrow> n4 | Some h \<Rightarrow> nsd_put wwrite (header_write h) n4)
        in nsd_put wwrite crlf n5)"

text \<open>\<open>Write\<close>.\<close>

definition nsd_write ::
  "('w \<Rightarrow> string \<Rightarrow> write_res \<times> 'w) \<Rightarrow> 'w nsd_writer \<Rightarrow> string \<Rightarrow> write_res \<times> 'w nsd_writer" where
  "nsd_write wwrite n0 buf =
     (let n = (if \<not> nw_wrote n0 then nsd_write_header wwrite 200 n0 else n0);
          n1 = (if \<not> nw_hijacked n \<and> nw_chunking n
                then nsd_put wwrite (hex_of (length buf) @ crlf) n else n)
      in case wwrite (nw_conn n1) buf of
           (r, c) \<Rightarrow>
             let n2 = n1\<lparr>nw_conn := c\<rparr> in
             (r, if \<not> nw_hijacked n2 \<and> nw_chunking n2 then nsd_put wwrite crlf n2 else n2))"

text \<open>\<open>Flush\<close>.\<close>

definition nsd_flush :: "('w \<Rightarrow> string \<Rightarrow> write_res \<times> 'w) \<Rightarrow> 'w nsd_writer \<Rightarrow> 'w nsd_writer" where
  "nsd_flush wwrite n0 =
     (if nw_hijacked n0 then n0
      else
        let n = (if \<not> nw_wrote n0 then nsd_write_header wwrite 200 n0 else n0);
            n1 = (if nw_chunking n then nsd_put wwrite (''0'' @ crlf) n else n)
        in nsd_put wwrite crlf n1)"

text \<open>\<open>Hijack\<close>: the connection it hands out is the writer itself.\<close>

definition nsd_hijack :: "'w nsd_writer \<Rightarrow> 'w nsd_writer" where
  "nsd_hijack n = n\<lparr>nw_hijacked := True\<rparr>"

text \<open>A response written in pieces.\<close>

fun nsd_writes ::
  "('w \<Rightarrow> string \<Rightarrow> write_res \<times> 'w) \<Rightarrow> 'w nsd_writer \<Rightarrow> string list \<Rightarrow> 'w nsd_writer" where
  "nsd_writes wwrite n [] = n"
| "nsd_writes wwrite n (d # ds) = nsd_writes wwrite (snd (nsd_write wwrite n d)) ds"

section \<open>What goes out\<close>

text \<open>The header after \<open>WriteHeader\<close>, the head of the response, and a piece of its body.\<close>

definition sent_header :: "header \<Rightarrow> header" where
  "sent_header h0 =
     (let h = (if hget h0 ''content-length'' = [] then hset h0 ''transfer-encoding'' ''chunked'' else h0)
      in if hget h ''Content-Type'' = [] then hset h ''Content-Type'' ''text/html; charset=utf-8'' else h)"

definition response_head :: "int \<Rightarrow> header \<Rightarrow> string" where
  "response_head code h = status_line code @ header_write (sent_header h) @ crlf"

definition nsd_chunk :: "string \<Rightarrow> string" where
  "nsd_chunk d = hex_of (length d) @ crlf @ d @ crlf"

definition header_of :: "'w nsd_writer \<Rightarrow> header" where
  "header_of n = (case nw_header n of None \<Rightarrow> [] | Some h \<Rightarrow> h)"

lemma nsd_put_fields [simp]:
  "nw_header (nsd_put f d n) = nw_header n" "nw_wrote (nsd_put f d n) = nw_wrote n"
  "nw_chunking (nsd_put f d n) = nw_chunking n" "nw_hijacked (nsd_put f d n) = nw_hijacked n"
  by (simp_all add: nsd_put_def)

lemma hex_of_0: "hex_of 0 = ''0''"
  by (simp add: hex_of_def radix.simps digit_char_def)

lemma nsd_chunk_chunk: "d \<noteq> [] \<Longrightarrow> nsd_chunk d = chunk d"
  by (simp add: nsd_chunk_def chunk_def)

text \<open>A receiver takes an empty piece for the end of the body.\<close>

lemma dechunk_nsd_chunks:
  "\<exists>r. dechunk (concat (map nsd_chunk ds) @ last_chunk @ crlf) =
     Some (concat (takeWhile (\<lambda>d. d \<noteq> []) ds), r) \<and> ((\<forall>d \<in> set ds. d \<noteq> []) \<longrightarrow> r = crlf)"
proof (induction ds)
  case Nil
  then show ?case by (simp add: dechunk_last)
next
  case (Cons d ds)
  show ?case
  proof (cases "d = []")
    case True
    then show ?thesis using dechunk_last by (simp add: nsd_chunk_def hex_of_0 last_chunk_def)
  next
    case False
    then show ?thesis using Cons.IH by (auto simp: nsd_chunk_chunk dest: dechunk_chunk)
  qed
qed

context total_writer
begin

lemma nsd_put_good:
  assumes "good (nw_conn n)"
  shows "good (nw_conn (nsd_put wwrite d n)) \<and>
    sent (nw_conn (nsd_put wwrite d n)) = sent (nw_conn n) @ d"
proof -
  obtain w' where "wwrite (nw_conn n) d = ((length d, None), w')" "good w'"
    "sent w' = sent (nw_conn n) @ d"
    using good_write_sent [OF assms] .
  then show ?thesis by (simp add: nsd_put_def)
qed

lemma nsd_write_header_good:
  assumes "good (nw_conn n)" "\<not> nw_wrote n" "\<not> nw_hijacked n"
  shows "let n' = nsd_write_header wwrite code n in
    good (nw_conn n') \<and> nw_wrote n' \<and> \<not> nw_hijacked n' \<and>
    nw_chunking n' = (nw_chunking n \<or> hget (header_of n) ''content-length'' = []) \<and>
    nw_header n' = Some (sent_header (header_of n)) \<and>
    sent (nw_conn n') = sent (nw_conn n) @ response_head code (header_of n)"
  using assms nsd_put_good
  by (auto simp: nsd_write_header_def nsd_header_def header_of_def sent_header_def response_head_def
      Let_def split: option.splits)

lemma nsd_write_good:
  assumes "good (nw_conn n)" "nw_wrote n" "\<not> nw_hijacked n"
  shows "let n' = snd (nsd_write wwrite n d) in
    good (nw_conn n') \<and> nw_wrote n' \<and> \<not> nw_hijacked n' \<and> nw_chunking n' = nw_chunking n \<and>
    sent (nw_conn n') = sent (nw_conn n) @ (if nw_chunking n then nsd_chunk d else d) \<and>
    fst (nsd_write wwrite n d) = (length d, None) \<and> nw_header n' = nw_header n"
proof -
  let ?n1 = "if nw_chunking n then nsd_put wwrite (hex_of (length d) @ crlf) n else n"
  have 1: "good (nw_conn ?n1)"
    "sent (nw_conn ?n1) = sent (nw_conn n) @ (if nw_chunking n then hex_of (length d) @ crlf else [])"
    using nsd_put_good [OF assms(1)] assms(1) by auto
  obtain w' where "wwrite (nw_conn ?n1) d = ((length d, None), w')" "good w'"
    "sent w' = sent (nw_conn ?n1) @ d"
    using good_write_sent [OF 1(1)] .
  then show ?thesis using assms 1 nsd_put_good [of "?n1\<lparr>nw_conn := w'\<rparr>" crlf]
    by (auto simp: nsd_write_def nsd_chunk_def Let_def)
qed

lemma nsd_writes_good:
  assumes "good (nw_conn n)" "nw_wrote n" "\<not> nw_hijacked n"
  shows "let n' = nsd_writes wwrite n ds in
    good (nw_conn n') \<and> nw_wrote n' \<and> \<not> nw_hijacked n' \<and> nw_chunking n' = nw_chunking n \<and>
    nw_header n' = nw_header n \<and>
    sent (nw_conn n') = sent (nw_conn n) @ concat (map (if nw_chunking n then nsd_chunk else id) ds)"
  using assms
proof (induction ds arbitrary: n)
  case (Cons d ds)
  have "let n' = snd (nsd_write wwrite n d) in
    good (nw_conn n') \<and> nw_wrote n' \<and> \<not> nw_hijacked n' \<and> nw_chunking n' = nw_chunking n \<and>
    sent (nw_conn n') = sent (nw_conn n) @ (if nw_chunking n then nsd_chunk d else d) \<and>
    fst (nsd_write wwrite n d) = (length d, None) \<and> nw_header n' = nw_header n"
    by (rule nsd_write_good [OF Cons.prems])
  then show ?case using Cons.IH [of "snd (nsd_write wwrite n d)"] by (auto simp: Let_def)
qed simp

text \<open>The whole response: the head, the pieces, and the end that \<open>Flush\<close> writes.\<close>

lemma nsd_response_good:
  assumes "good (nw_conn n)" "\<not> nw_wrote n" "\<not> nw_hijacked n" "\<not> nw_chunking n"
  shows "sent (nw_conn (nsd_flush wwrite (nsd_writes wwrite (nsd_write_header wwrite code n) ds))) =
    sent (nw_conn n) @ response_head code (header_of n) @
    (if hget (header_of n) ''content-length'' = []
     then concat (map nsd_chunk ds) @ last_chunk @ crlf else concat ds @ crlf)"
proof -
  let ?n1 = "nsd_write_header wwrite code n" and ?n2 = "nsd_writes wwrite (nsd_write_header wwrite code n) ds"
  have 1: "good (nw_conn ?n1)" "nw_wrote ?n1" "\<not> nw_hijacked ?n1"
    "nw_chunking ?n1 = (hget (header_of n) ''content-length'' = [])"
    "sent (nw_conn ?n1) = sent (nw_conn n) @ response_head code (header_of n)"
    using nsd_write_header_good [OF assms(1-3), of code] assms(4) by (simp_all add: Let_def)
  have 2: "good (nw_conn ?n2)" "nw_wrote ?n2" "\<not> nw_hijacked ?n2" "nw_chunking ?n2 = nw_chunking ?n1"
    "sent (nw_conn ?n2) = sent (nw_conn ?n1) @ concat (map (if nw_chunking ?n1 then nsd_chunk else id) ds)"
    using nsd_writes_good [OF 1(1-3), of ds] by (simp_all add: Let_def)
  show ?thesis
    using 2 1(4,5) nsd_put_good [of ?n2 last_chunk] nsd_put_good [OF 2(1), of crlf]
      nsd_put_good [of "nsd_put wwrite last_chunk ?n2" crlf]
    by (simp add: nsd_flush_def last_chunk_def Let_def)
qed

end

text \<open>What every write to the connection keeps, every call of the response writer keeps.\<close>

locale writer_invariant =
  fixes wwrite :: "'w \<Rightarrow> string \<Rightarrow> write_res \<times> 'w" and inv :: "'w \<Rightarrow> bool"
  assumes write_keeps: "inv w \<Longrightarrow> inv (snd (wwrite w d))"
begin

lemma put_keeps: "inv (nw_conn n) \<Longrightarrow> inv (nw_conn (nsd_put wwrite d n))"
  by (simp add: nsd_put_def write_keeps)

lemma write_header_keeps: "inv (nw_conn n) \<Longrightarrow> inv (nw_conn (nsd_write_header wwrite code n))"
  by (auto simp: nsd_write_header_def nsd_header_def Let_def intro!: put_keeps split: option.split)

lemma nsd_write_keeps:
  assumes "inv (nw_conn n)"
  shows "inv (nw_conn (snd (nsd_write wwrite n d)))"
proof -
  have keeps: "inv c" if "wwrite x d = (r, c)" "inv x" for x r c
    using write_keeps [OF that(2), of d] that(1) by simp
  show ?thesis
    using assms write_header_keeps [OF assms, of 200]
    by (auto simp: nsd_write_def Let_def intro!: put_keeps intro: keeps split: prod.split)
qed

lemma writes_keep: "inv (nw_conn n) \<Longrightarrow> inv (nw_conn (nsd_writes wwrite n ds))"
  by (induction ds arbitrary: n) (simp_all add: nsd_write_keeps)

lemma flush_keeps: "inv (nw_conn n) \<Longrightarrow> inv (nw_conn (nsd_flush wwrite n))"
  by (auto simp: nsd_flush_def Let_def intro!: put_keeps write_header_keeps)

end

section \<open>Properties\<close>

text \<open>
  C35. Without a \<open>Content-Length\<close>, a response of non-empty pieces that is flushed goes out as
  one head, whose header announces chunks, and a body from which a receiver decodes exactly the
  pieces, with nothing left but the final empty line.
\<close>

theorem nsd_chunked_response:
  assumes "conn_open c" "hget h ''content-length'' = []" "\<forall>d \<in> set ds. d \<noteq> []"
    and "nsd_flush tcp_write (nsd_writes tcp_write
           (nsd_write_header tcp_write code (new_nsd_writer c (Some h))) ds) = n"
  shows "\<exists>w. tc_sent (nw_conn n) = tc_sent c @ response_head code h @ w \<and>
    hget (sent_header h) ''Transfer-Encoding'' = ''chunked'' \<and> dechunk w = Some (concat ds, crlf)"
proof -
  have t: "takeWhile (\<lambda>d. d \<noteq> []) ds = ds" using assms(3) by (simp add: takeWhile_eq_all_conv)
  have "hget (sent_header h) ''Transfer-Encoding'' = ''chunked''"
  proof -
    have "same_key ''transfer-encoding'' ''Transfer-Encoding''"
      "\<not> same_key ''Content-Type'' ''Transfer-Encoding''" by code_simp+
    then show ?thesis using assms(2)
      by (simp add: sent_header_def Let_def hget_def hvalues_ops)
  qed
  moreover have "dechunk (concat (map nsd_chunk ds) @ last_chunk @ crlf) = Some (concat ds, crlf)"
    using dechunk_nsd_chunks [of ds] assms(3) unfolding t by blast
  ultimately show ?thesis
    using tcp.nsd_response_good [of "new_nsd_writer c (Some h)" code ds] assms
    by (auto simp: new_nsd_writer_def header_of_def)
qed

theorem nsd_chunked_response_witness:
  "\<exists>w. tc_sent (nw_conn (nsd_flush tcp_write (nsd_writes tcp_write
      (nsd_write_header tcp_write 200 (new_nsd_writer fresh_conn (Some []))) [''ab'', ''c'']))) =
     response_head 200 [] @ w \<and> dechunk w = Some (''abc'', crlf)"
  using nsd_chunked_response [OF conn_open_fresh _ _ refl, of "[]" "[''ab'', ''c'']" 200]
  by (auto simp: hget_def hvalues_def simp del: append_assoc)

text \<open>
  An empty piece ends the response early: the writer frames it as a chunk of length 0, so
  a receiver decodes only the pieces before it and takes the rest for the next response. (The writer
  of \<open>chunked.go\<close> drops empty writes for this reason; this one does not.)
\<close>

theorem nsd_empty_write_truncates:
  "\<exists>w r. tc_sent (nw_conn (nsd_flush tcp_write (nsd_writes tcp_write
       (nsd_write_header tcp_write 200 (new_nsd_writer fresh_conn None)) (ds @ [] # es)))) =
       response_head 200 [] @ w \<and>
     dechunk w = Some (concat (takeWhile (\<lambda>d. d \<noteq> []) ds), r)"
proof -
  have t: "takeWhile (\<lambda>d. d \<noteq> []) (ds @ [] # es) = takeWhile (\<lambda>d. d \<noteq> []) ds"
    by (induction ds) simp_all
  show ?thesis
    using tcp.nsd_response_good [of "new_nsd_writer fresh_conn None" 200 "ds @ [] # es"]
      dechunk_nsd_chunks [of "ds @ [] # es"]
    unfolding t by (force simp: new_nsd_writer_def header_of_def hget_def hvalues_def)
qed

text \<open>
  With a \<open>Content-Length\<close>, \<open>Flush\<close> puts two bytes more on the wire than the pieces hold:
  a client that keeps the connection finds an empty line before the next response.
\<close>

theorem nsd_fixed_length_extra:
  "tc_sent (nw_conn (nsd_flush tcp_write (nsd_writes tcp_write
     (nsd_write_header tcp_write 200 (new_nsd_writer fresh_conn (Some [(''Content-Length'', [''3''])]))) [''abc'']))) =
   response_head 200 [(''Content-Length'', [''3''])] @ ''abc'' @ crlf"
proof -
  have h: "hget [(''Content-Length'', [''3''])] ''content-length'' = ''3''" by code_simp
  show ?thesis
    using tcp.nsd_response_good [of "new_nsd_writer fresh_conn (Some [(''Content-Length'', [''3''])])" 200 "[''abc'']"] h
    by (simp add: new_nsd_writer_def header_of_def)
qed

end
