(* ===== verification/Ctx.thy ===== *)
theory Ctx
  imports Host_Names Tracer Response_Writer
begin

text \<open>
  The context of a request (\<open>ProxyCtx\<close> of \<open>ctx.go\<close>), the state a handler runs in, and the
  operations of the context that need no dialling. What the process does not implement itself (the
  network, the SNI muxer, the fitter that joins two connections, the shadow network) comes in as
  the functions of the record \<open>env\<close>.
\<close>

section \<open>Connections\<close>

text \<open>
  A value of type \<open>net.Conn\<close>: a connection of the network, or one of the two response writers
  wrapped around a connection, which \<open>Hijack\<close> hands out as the client's connection.
\<close>

datatype conn_ref = TcpRef nat | NsdRef conn_ref | DumbRef conn_ref

text \<open>Things the model writes down as they happen, to state what was done and in which order.\<close>

datatype event = EvDial string | EvFit conn_ref conn_ref | EvDone

record net =
  nt_conns :: "nat \<Rightarrow> tcp_conn"
  nt_events :: "event list"

definition faux_ok :: string where
  "faux_ok = ''HTTP/1.0 200 OK'' @ crlf @ crlf"

text \<open>
  \<open>Write\<close> and \<open>Close\<close> of a connection. \<open>dumbResponseWriter.Write\<close> throws the answer to the
  faux CONNECT away; a hijacked \<open>notsodumbResponseWriter\<close> passes everything on.
\<close>

primrec conn_write :: "conn_ref \<Rightarrow> string \<Rightarrow> net \<Rightarrow> write_res \<times> net" where
  "conn_write (TcpRef i) d n = (case tcp_write (nt_conns n i) d of
     (r, c) \<Rightarrow> (r, n\<lparr>nt_conns := (nt_conns n)(i := c)\<rparr>))"
| "conn_write (NsdRef r) d n = conn_write r d n"
| "conn_write (DumbRef r) d n = (if d = faux_ok then ((length d, None), n) else conn_write r d n)"

primrec conn_close :: "conn_ref \<Rightarrow> net \<Rightarrow> goerr option \<times> net" where
  "conn_close (TcpRef i) n = (case tcp_close (nt_conns n i) of
     (e, c) \<Rightarrow> (e, n\<lparr>nt_conns := (nt_conns n)(i := c)\<rparr>))"
| "conn_close (NsdRef r) n = conn_close r n"
| "conn_close (DumbRef r) n = conn_close r n"

text \<open>The network connection behind a reference.\<close>

primrec conn_id :: "conn_ref \<Rightarrow> nat" where
  "conn_id (TcpRef i) = i"
| "conn_id (NsdRef r) = conn_id r"
| "conn_id (DumbRef r) = conn_id r"

definition conn_of :: "conn_ref \<Rightarrow> net \<Rightarrow> tcp_conn" where
  "conn_of r n = nt_conns n (conn_id r)"

text \<open>A reference with the network as the writer that \<open>chunked.go\<close> and \<open>http.Header\<close> are given.\<close>

definition ref_write :: "conn_ref \<times> net \<Rightarrow> string \<Rightarrow> write_res \<times> (conn_ref \<times> net)" where
  "ref_write rn d = (case conn_write (fst rn) d (snd rn) of (res, n) \<Rightarrow> (res, (fst rn, n)))"

lemma conn_write_sent:
  "conn_write r d n = ((k, e), n') \<Longrightarrow>
     k \<le> length d \<and> (tc_sent (conn_of r n') = tc_sent (conn_of r n) @ take k d \<or>
       d = faux_ok \<and> n' = n)"
  by (induction r) (auto simp: conn_of_def tcp.sent_write tcp.write_count split: prod.splits if_splits)

lemma conn_write_others: "i \<noteq> conn_id r \<Longrightarrow> nt_conns (snd (conn_write r d n)) i = nt_conns n i"
  by (induction r) (auto split: prod.splits)

lemma conn_write_events [simp]: "nt_events (snd (conn_write r d n)) = nt_events n"
  by (induction r) (auto split: prod.splits)

lemma conn_write_closed [simp]: "tc_closed (nt_conns (snd (conn_write r d n)) i) = tc_closed (nt_conns n i)"
  by (induction r) (auto simp: case_prod_unfold)

lemma conn_close_others: "i \<noteq> conn_id r \<Longrightarrow> nt_conns (snd (conn_close r n)) i = nt_conns n i"
  by (induction r) (auto split: prod.splits)

lemma conn_close_events [simp]: "nt_events (snd (conn_close r n)) = nt_events n"
  by (induction r) (auto split: prod.splits)

lemma conn_close_closed [simp]: "tc_closed (nt_conns (snd (conn_close r n)) (conn_id r))"
  by (induction r) (auto simp: case_prod_unfold)

lemma conn_close_keeps: "tc_closed (nt_conns n i) \<Longrightarrow> tc_closed (nt_conns (snd (conn_close r n)) i)"
  by (cases "i = conn_id r") (auto simp: conn_close_others)

lemma conn_close_sent [simp]: "tc_sent (nt_conns (snd (conn_close r n)) i) = tc_sent (nt_conns n i)"
  by (induction r) (auto simp: case_prod_unfold)

text \<open>A reference that drops nothing is a writer in the sense of the contract.\<close>

primrec plain_ref :: "conn_ref \<Rightarrow> bool" where
  "plain_ref (TcpRef i) = True"
| "plain_ref (NsdRef r) = plain_ref r"
| "plain_ref (DumbRef r) = False"

lemma conn_write_plain:
  "plain_ref r \<Longrightarrow> conn_write r d n = (case tcp_write (conn_of r n) d of
     (res, c) \<Rightarrow> (res, n\<lparr>nt_conns := (nt_conns n)(conn_id r := c)\<rparr>))"
  by (induction r) (auto simp: conn_of_def)

text \<open>
  A numbered connection within the network, as the writer below the HTTP response writer: it
  keeps the contract of \<open>io.Writer\<close>, and is total while the connection is open.
\<close>

definition net_write :: "nat \<times> net \<Rightarrow> string \<Rightarrow> write_res \<times> (nat \<times> net)" where
  "net_write w d = (case conn_write (TcpRef (fst w)) d (snd w) of (res, n) \<Rightarrow> (res, (fst w, n)))"

definition net_sent :: "nat \<times> net \<Rightarrow> string" where
  "net_sent w = tc_sent (nt_conns (snd w) (fst w))"

definition net_good :: "nat \<times> net \<Rightarrow> bool" where
  "net_good w \<longleftrightarrow> conn_open (nt_conns (snd w) (fst w))"

interpretation netw: total_writer net_write net_sent net_good
proof unfold_locales
  fix w d n e w'
  assume a: "net_write w d = ((n, e), w')"
  then obtain c where c: "tcp_write (nt_conns (snd w) (fst w)) d = ((n, e), c)"
    "w' = (fst w, (snd w)\<lparr>nt_conns := (nt_conns (snd w))(fst w := c)\<rparr>)"
    by (auto simp: net_write_def split: prod.splits)
  show "net_sent w' = net_sent w @ take n d" using c tcp.sent_write by (simp add: net_sent_def)
  show "n \<le> length d" using c tcp.write_count by blast
next
  fix w d
  assume "net_good w"
  then show "\<exists>w'. net_write w d = ((length d, None), w') \<and> net_good w'"
    by (simp add: net_write_def net_good_def)
qed

lemma net_write_fst [simp]: "fst (snd (net_write w d)) = fst w"
  by (simp add: net_write_def case_prod_unfold)

lemma net_write_events [simp]: "nt_events (snd (snd (net_write w d))) = nt_events (snd w)"
  using conn_write_events [of "TcpRef (fst w)" d "snd w"] by (simp add: net_write_def case_prod_unfold)

text \<open>What was done to the network was done to one connection, and that was not closed.\<close>

definition net_frame :: "nat \<Rightarrow> net \<Rightarrow> nat \<times> net \<Rightarrow> bool" where
  "net_frame c n w \<longleftrightarrow> fst w = c \<and> nt_events (snd w) = nt_events n \<and>
     (\<forall>i. i \<noteq> c \<longrightarrow> nt_conns (snd w) i = nt_conns n i) \<and>
     tc_closed (nt_conns (snd w) c) = tc_closed (nt_conns n c)"

lemma net_frame_refl [simp]: "net_frame (fst w) (snd w) w"
  by (simp add: net_frame_def)

interpretation framed: writer_invariant net_write "net_frame c n" for c n
proof
  fix w d assume w: "net_frame c n w"
  have "nt_conns (snd (snd (net_write w d))) i = nt_conns (snd w) i" if "i \<noteq> fst w" for i
    using conn_write_others [of i "TcpRef (fst w)" d "snd w"] that by (simp add: net_write_def case_prod_unfold)
  moreover have "tc_closed (nt_conns (snd (snd (net_write w d))) i) = tc_closed (nt_conns (snd w) i)" for i
    using conn_write_closed [of "TcpRef (fst w)" d "snd w" i] by (simp add: net_write_def case_prod_unfold)
  ultimately show "net_frame c n (snd (net_write w d))" using w by (simp add: net_frame_def)
qed

text \<open>Writing to a hijacked \<open>notsodumbResponseWriter\<close> is writing to the connection in it.\<close>

lemma nsd_write_hijacked:
  "nw_hijacked n \<Longrightarrow> nsd_write wwrite n d =
     (case wwrite (nw_conn n) d of (r, c) \<Rightarrow> (r, n\<lparr>nw_conn := c\<rparr>))"
  by (auto simp: nsd_write_def nsd_write_header_def Let_def split: prod.splits)

section \<open>The outside\<close>

text \<open>
  What a dial or a round trip is told through \<open>context.Context\<close>: to bypass the local DNS, to go
  through the private network, that a failure of that network may be reported back, and the shadow
  transport to use.
\<close>

record dial_ctx =
  dc_upstream :: bool
  dc_private :: bool
  dc_report_failure :: bool
  dc_shadow :: "nat option"

definition background :: dial_ctx where
  "background = \<lparr>dc_upstream = False, dc_private = False, dc_report_failure = False, dc_shadow = None\<rparr>"

type_synonym dial_res = "(goerr + conn_ref) \<times> net"
type_synonym dialer = "dial_ctx \<Rightarrow> string \<Rightarrow> string \<Rightarrow> net \<Rightarrow> dial_res"
type_synonym plain_dialer = "string \<Rightarrow> string \<Rightarrow> net \<Rightarrow> dial_res"

datatype transport_choice = ProxyTransport | FakeDnsTransport string | ShadowTransport nat

text \<open>What a transport answers: the response, the error, and whether the private network failed.\<close>

type_synonym trip_res = "(http_response option \<times> goerr option \<times> bool) \<times> net"

record env =
  ev_sniff :: "conn_ref \<Rightarrow> net \<Rightarrow> (conn_ref \<times> string \<times> goerr option) \<times> net"
  ev_fit :: "conn_ref \<Rightarrow> conn_ref \<Rightarrow> net \<Rightarrow> net"
  ev_net_dial_context :: dialer
  ev_net_dial :: plain_dialer
  ev_transport_dial_context :: "dialer option"
  ev_transport_dial :: "plain_dialer option"
  ev_app_dial_context :: dialer
  ev_app_dial :: plain_dialer
  ev_shadow_transport :: "string \<Rightarrow> nat option"
  ev_shadow_dial :: "nat \<Rightarrow> dialer"
  ev_tls_dial :: "bool \<Rightarrow> plain_dialer"
  ev_tls_client :: "conn_ref \<Rightarrow> net \<Rightarrow> conn_ref \<times> net"
  ev_request_text :: "http_request \<Rightarrow> string"
  ev_read_response :: "conn_ref \<Rightarrow> http_request \<Rightarrow> net \<Rightarrow> (goerr + http_response) \<times> net"
  ev_transport :: "transport_choice \<Rightarrow> dial_ctx \<Rightarrow> http_request \<Rightarrow> net \<Rightarrow> trip_res"
  ev_custom_trip :: "nat \<Rightarrow> dial_ctx \<Rightarrow> http_request \<Rightarrow> net \<Rightarrow> trip_res"

section \<open>The context and the state of a handler\<close>

datatype round_tripper = TunnelTripper | WrappedTransport transport_choice | CustomTripper nat

text \<open>The response writer of the request: the one made for HTTP, or the one made for TLS.\<close>

datatype writer_ref = WNsd | WDumb conn_ref

record ctx =
  cx_method :: string
  cx_source_ip :: string
  cx_is_secure :: bool
  cx_through_mitm :: bool
  cx_through_tunnel :: bool
  cx_tunnel_request :: bool
  cx_non_http_request :: string
  cx_host :: string
  cx_sni_host :: string
  cx_sniffed_tls :: bool
  cx_mitm_config :: "nat option"
  cx_connect_scheme :: string
  cx_original_request :: "http_request option"
  cx_req :: http_request
  cx_writer :: writer_ref
  cx_conn :: "conn_ref option"
  cx_target_conn :: "conn_ref option"
  cx_resp :: "http_response option"
  cx_resp_error :: "goerr option"
  cx_original_body :: "nat option"
  cx_round_tripper :: "round_tripper option"
  cx_fake_dns :: string
  cx_log_enabled :: bool
  cx_log_content :: bool
  cx_session :: int
  cx_cipher_signature :: string
  cx_new_body_length :: int
  cx_verbosity :: "16 word"
  cx_device_type :: int
  cx_whitelisted :: bool
  cx_status :: "string list"
  cx_private :: bool
  cx_shadow :: "nat option"
  cx_trace :: trace_request
  cx_trace_info :: "trace_info option"
  cx_request_time :: gotime

text \<open>An entry of the channel to the HAR logger (\<open>harReqAndResp\<close>).\<close>

record har_pair =
  hp_req :: http_request
  hp_start :: gotime
  hp_resp :: "http_response option"
  hp_end :: gotime
  hp_content :: bool

text \<open>
  The data of \<open>ProxyHttpServer\<close> that handling a request reads or writes. \<open>px_connect_dial\<close> says
  what \<open>ConnectDialContext\<close> and \<open>ConnectDial\<close> are: nil, the application's, or the dialers to an
  upstream proxy that \<open>https.go\<close> builds from the environment.
\<close>

datatype connect_dial = NoConnectDial | AppConnectDial | HttpProxyDial string | HttpsProxyDial string

record proxy_data =
  px_sess :: int
  px_verbosity :: "16 word"
  px_mitm_config :: "nat option"
  px_private_network :: bool
  px_flush_idle :: bool
  px_idle_flushes :: nat
  px_connect_dial :: connect_dial
  px_tracer :: tracer
  px_open_handlers :: int
  px_har_queue :: "har_pair list"
  px_har_running :: bool

text \<open>
  The \<open>notsodumbResponseWriter\<close> of the request. Its header pointer is \<open>&req.Header\<close>, so the header
  it reads and writes is the request's: the writer of \<open>Response_Writer\<close> is loaded with that header
  before each call and the header stored back after it.
\<close>

record nsd_state =
  ns_conn :: nat
  ns_wrote :: bool
  ns_chunking :: bool
  ns_hijacked :: bool

record pst =
  ps_ctx :: ctx
  ps_proxy :: proxy_data
  ps_net :: net
  ps_nsd :: nsd_state
  ps_now :: gotime
  ps_next_body :: nat

datatype next_action = NEXT | MOCK | DONE | FORWARD | MITM | REJECT | SIGNATURE | InvalidNext int

type_synonym handler = "(pst, next_action) go"

definition get_ctx :: "(ctx \<Rightarrow> 'a) \<Rightarrow> (pst, 'a) go" where
  [go_defs]: "get_ctx f = gets (\<lambda>s. f (ps_ctx s))"

definition upd_ctx :: "(ctx \<Rightarrow> ctx) \<Rightarrow> (pst, unit) go" where
  [go_defs]: "upd_ctx f = modify (\<lambda>s. s\<lparr>ps_ctx := f (ps_ctx s)\<rparr>)"

definition log_event :: "event \<Rightarrow> net \<Rightarrow> net" where
  "log_event e n = n\<lparr>nt_events := nt_events n @ [e]\<rparr>"

lemma log_event_simps [simp]:
  "nt_conns (log_event e n) = nt_conns n" "nt_events (log_event e n) = nt_events n @ [e]"
  by (simp_all add: log_event_def)

text \<open>A call on the network, and calls on a connection that may be a nil interface.\<close>

definition on_net :: "(net \<Rightarrow> 'a \<times> net) \<Rightarrow> (pst, 'a) go" where
  [go_defs]: "on_net f = (\<lambda>s. case f (ps_net s) of (x, n) \<Rightarrow> (Val x, s\<lparr>ps_net := n\<rparr>))"

definition on_conn :: "conn_ref option \<Rightarrow> (conn_ref \<Rightarrow> net \<Rightarrow> 'a \<times> net) \<Rightarrow> (pst, 'a) go" where
  [go_defs]: "on_conn c f = (case c of None \<Rightarrow> gopanic nil_deref | Some r \<Rightarrow> on_net (f r))"

definition client_write :: "string \<Rightarrow> (pst, write_res) go" where
  "client_write d = bnd (get_ctx cx_conn) (\<lambda>c. on_conn c (\<lambda>r. conn_write r d))"

definition client_close :: "(pst, goerr option) go" where
  "client_close = bnd (get_ctx cx_conn) (\<lambda>c. on_conn c conn_close)"

text \<open>A call on the HTTP response writer.\<close>

definition nsd_load :: "pst \<Rightarrow> (nat \<times> net) nsd_writer" where
  "nsd_load s = \<lparr>nw_conn = (ns_conn (ps_nsd s), ps_net s), nw_header = Some (rq_header (cx_req (ps_ctx s))),
     nw_wrote = ns_wrote (ps_nsd s), nw_chunking = ns_chunking (ps_nsd s),
     nw_hijacked = ns_hijacked (ps_nsd s)\<rparr>"

definition nsd_store :: "(nat \<times> net) nsd_writer \<Rightarrow> pst \<Rightarrow> pst" where
  "nsd_store w s = s\<lparr>ps_net := snd (nw_conn w),
     ps_nsd := \<lparr>ns_conn = fst (nw_conn w), ns_wrote = nw_wrote w, ns_chunking = nw_chunking w,
                ns_hijacked = nw_hijacked w\<rparr>,
     ps_ctx := (ps_ctx s)\<lparr>cx_req := (cx_req (ps_ctx s))\<lparr>rq_header := header_of w\<rparr>\<rparr>\<rparr>"

definition on_nsd :: "((nat \<times> net) nsd_writer \<Rightarrow> (nat \<times> net) nsd_writer) \<Rightarrow> (pst, unit) go" where
  "on_nsd f = modify (\<lambda>s. nsd_store (f (nsd_load s)) s)"

end
