(* ===== verification/Ctx_Ops.thy ===== *)
theory Ctx_Ops
  imports Ctx
begin

text \<open>
  The operations of \<open>ProxyCtx\<close> that dial nothing (\<open>ctx.go\<close>): the destination host and the
  interpretation of a CONNECT, the answers that close a connection, and the setters and readers of
  the request and response.
\<close>

section \<open>Hosts and schemes\<close>

definition record_status :: "string \<Rightarrow> ctx \<Rightarrow> ctx" where
  "record_status msg c =
     (if length (cx_status c) = 0 then c\<lparr>cx_status := [msg]\<rparr>
      else c\<lparr>cx_status := cx_status c @ [msg]\<rparr>)"

definition set_destination_host :: "string \<Rightarrow> ctx \<Rightarrow> ctx" where
  "set_destination_host h c = c\<lparr>cx_host := inherit_port h (cx_host c)\<rparr>"

definition fake_destination_dns :: "string \<Rightarrow> ctx \<Rightarrow> ctx" where
  "fake_destination_dns h c = c\<lparr>cx_fake_dns := inherit_port h (cx_host c)\<rparr>"

text \<open>\<open>SNIHost\<close>: answers the CONNECT before sniffing; \<open>tlsConn\<close> is what the muxer returns.\<close>

definition sni_host :: "env \<Rightarrow> (pst, string) go" where
  "sni_host env = bnd (get_ctx id) (\<lambda>c.
     if cx_method c \<noteq> ''CONNECT'' then ret (cx_host c)
     else if cx_sniffed_tls c then ret (cx_sni_host c)
     else
       thn (client_write faux_ok)
       (bnd (on_conn (cx_conn c) (ev_sniff env)) (\<lambda>(r, sni, err).
        thn (upd_ctx (\<lambda>c. c\<lparr>cx_conn := Some r, cx_sniffed_tls := True\<rparr>))
        (if err \<noteq> None then get_ctx cx_host
         else
           thn (go_when (sni \<noteq> [])
             (thn (upd_ctx (\<lambda>c.
                if cx_host c = [] then c\<lparr>cx_host := sni @ '':443''\<rparr>
                else set_destination_host (inherit_port sni (cx_host c)) c))
              (upd_ctx (\<lambda>c. c\<lparr>cx_sni_host := cx_host c\<rparr>))))
           (get_ctx cx_sni_host)))))"

definition get_connect_scheme :: "ctx \<Rightarrow> string gores" where
  "get_connect_scheme c =
     (if cx_connect_scheme c = [] then
        if has_suffix (cx_host c) '':80'' then Val ''http''
        else if has_suffix (cx_host c) '':443'' then Val ''https''
        else case rq_url (cx_req c) of
               None \<Rightarrow> Panic nil_deref
             | Some u \<Rightarrow> if u_scheme u = ''https'' then Val ''https'' else Val ''http''
      else Val (cx_connect_scheme c))"

definition set_connect_scheme :: "string \<Rightarrow> (pst, unit) go" where
  "set_connect_scheme scheme =
     (if scheme \<noteq> ''http'' \<and> scheme \<noteq> ''https''
      then gopanic ''invalid scheme passed to \"SetConnectScheme\", use \"http\" or \"https\" only.''
      else upd_ctx (\<lambda>c. c\<lparr>cx_connect_scheme := scheme\<rparr>))"

section \<open>Answers on the client's connection\<close>

definition hijack_connect :: "(pst, conn_ref option) go" where
  "hijack_connect = bnd (get_ctx id) (\<lambda>c.
     if cx_method c \<noteq> ''CONNECT''
     then gopanic ''method is not CONNECT when HijackConnect() is called''
     else thn (if \<not> cx_sniffed_tls c then thn (client_write faux_ok) (ret ()) else ret ())
            (get_ctx cx_conn))"

definition rejected_502 :: string where
  "rejected_502 = ''HTTP/1.0 502 Rejected'' @ crlf @ crlf"

definition bad_gateway :: string where
  "bad_gateway = ''HTTP/1.1 502 Bad Gateway'' @ crlf @ crlf"

definition connect_ok :: string where
  "connect_ok = ''HTTP/1.1 200 OK'' @ crlf @ crlf"

definition reject_connect :: "(pst, unit) go" where
  "reject_connect = bnd (get_ctx id) (\<lambda>c.
     if cx_method c \<noteq> ''CONNECT''
     then gopanic ''cannot RejectConnect() when Method is not CONNECT''
     else thn (if \<not> cx_sniffed_tls c then thn (client_write rejected_502) (ret ()) else ret ())
            (thn client_close (ret ())))"

text \<open>\<open>httpError\<close>; its errors are only logged.\<close>

definition http_error :: "(pst, unit) go" where
  "http_error = bnd (get_ctx cx_sniffed_tls) (\<lambda>sniffed.
     thn (if \<not> sniffed then thn (client_write bad_gateway) (ret ()) else ret ())
         (thn client_close (ret ())))"

section \<open>Requests and responses\<close>

definition remove_proxy_headers :: "ctx \<Rightarrow> ctx" where
  "remove_proxy_headers c =
     (let r = cx_req c;
          h = hdel (hdel (hdel (rq_header r) ''Accept-Encoding'') ''Proxy-Connection'') ''Connection''
      in c\<lparr>cx_req := r\<lparr>rq_requri := [], rq_header := h\<rparr>\<rparr>)"

text \<open>\<open>writeResponseHeaders\<close>; the trace record is nil unless a trace was set up.\<close>

definition write_response_headers :: "(pst, unit) go" where
  "write_response_headers = bnd (get_ctx id) (\<lambda>c. case cx_resp c of
     None \<Rightarrow> ret ()
   | Some r \<Rightarrow>
      (if header_lines (rs_header r) = [] then ret ()
       else case cx_trace_info c of
         None \<Rightarrow> gopanic nil_deref
       | Some i \<Rightarrow> upd_ctx (\<lambda>c. c\<lparr>cx_trace_info :=
           Some (i\<lparr>ti_response_headers := ti_response_headers i @ header_lines (rs_header r)\<rparr>)\<rparr>)))"

definition buffer_response :: "(pst, goerr + string) go" where
  "buffer_response = bnd (get_ctx id) (\<lambda>c. case cx_resp c of
     None \<Rightarrow> ret (Inl (ErrText ''Response is nil''))
   | Some r \<Rightarrow>
      (case read_all (rs_body r) of
         ((d, Some e), b) \<Rightarrow> thn (upd_ctx (\<lambda>c. c\<lparr>cx_resp := Some (r\<lparr>rs_body := b\<rparr>)\<rparr>)) (ret (Inl e))
       | ((d, None), b) \<Rightarrow>
           thn (upd_ctx (\<lambda>c. c\<lparr>cx_resp := Some (r\<lparr>rs_body := body_close b\<rparr>)\<rparr>)) (ret (Inr d))))"

definition set_response_body :: "string \<Rightarrow> ctx \<Rightarrow> ctx" where
  "set_response_body content c = (case cx_resp c of
     None \<Rightarrow> c
   | Some r \<Rightarrow> c\<lparr>cx_resp := Some (r\<lparr>rs_body := nop_body content\<rparr>)\<rparr>)"

definition ctx_new_response :: "int \<Rightarrow> string \<Rightarrow> string \<Rightarrow> ctx \<Rightarrow> ctx" where
  "ctx_new_response status ct b c = c\<lparr>cx_resp := Some (new_response (cx_req c) status ct b)\<rparr>"

definition new_text_response :: "string \<Rightarrow> ctx \<Rightarrow> ctx" where
  "new_text_response b c = c\<lparr>cx_resp := Some (new_response (cx_req c) 202 ''text/plain'' b)\<rparr>"

definition new_html_response :: "string \<Rightarrow> ctx \<Rightarrow> ctx" where
  "new_html_response b c = c\<lparr>cx_resp := Some (new_response (cx_req c) 202 ''text/html'' b)\<rparr>"

definition new_empty_script :: "ctx \<Rightarrow> ctx" where
  "new_empty_script c = c\<lparr>cx_resp := Some (new_response (cx_req c) 502
     ''application/javascript; charset=utf-8'' ''/*Blocked by Winston*/'')\<rparr>"

definition new_empty_gif :: "ctx \<Rightarrow> ctx" where
  "new_empty_gif c = c\<lparr>cx_resp := Some (new_response (cx_req c) 403 ''text/html'' ''Blocked by Winston'')\<rparr>"

definition new_empty_png :: "ctx \<Rightarrow> ctx" where
  "new_empty_png c = c\<lparr>cx_resp := Some (new_response (cx_req c) 403 ''text/html'' ''Blocked by Winston'')\<rparr>"

definition new_empty_image :: "string \<Rightarrow> ctx \<Rightarrow> ctx" where
  "new_empty_image extension c =
     (if extension = ''.gif'' then new_empty_gif c
      else if extension = ''.png'' then new_empty_png c
      else new_empty_gif c)"

text \<open>
  \<open>SetRequestBody\<close>. The reader is nil, one of the three kinds whose length Go knows, or another
  one, which may be an \<open>io.ReadCloser\<close> already. \<open>http.NoBody\<close> is an empty body whose close does
  nothing; \<open>rq_get_body\<close> is what \<open>GetBody\<close> would return.
\<close>

datatype reader = BytesBuffer string | BytesReader string | StringsReader string | OtherReader body

fun reader_body :: "reader \<Rightarrow> body" where
  "reader_body (BytesBuffer d) = nop_body d"
| "reader_body (BytesReader d) = nop_body d"
| "reader_body (StringsReader d) = nop_body d"
| "reader_body (OtherReader b) = b"

definition sized_request :: "string \<Rightarrow> http_request \<Rightarrow> http_request" where
  "sized_request d rq = rq\<lparr>rq_clen := int (length d), rq_get_body := Some d\<rparr>"

definition set_request_body :: "reader option \<Rightarrow> http_request \<Rightarrow> http_request" where
  "set_request_body rd rq0 =
     (case rd of
        None \<Rightarrow> rq0\<lparr>rq_body := None\<rparr>
      | Some r \<Rightarrow>
          (let rq1 = rq0\<lparr>rq_body := Some (reader_body r)\<rparr>;
               rq2 = (case r of
                  BytesBuffer d \<Rightarrow> sized_request d rq1
                | BytesReader d \<Rightarrow> sized_request d rq1
                | StringsReader d \<Rightarrow> sized_request d rq1
                | OtherReader _ \<Rightarrow> rq1)
           in if rq_get_body rq2 \<noteq> None \<and> rq_clen rq2 = 0
              then rq2\<lparr>rq_body := Some (nop_body []), rq_get_body := Some []\<rparr>
              else rq2))"

text \<open>\<open>Charset\<close>: the leftmost match of \<open>charset=([^ ;]*)\<close>.\<close>

fun find_after :: "string \<Rightarrow> string \<Rightarrow> string option" where
  "find_after p [] = (if p = [] then Some [] else None)"
| "find_after p (x # xs) =
     (if has_prefix (x # xs) p then Some (drop (length p) (x # xs)) else find_after p xs)"

definition charset :: "ctx \<Rightarrow> string gores" where
  "charset c = (case cx_resp c of
     None \<Rightarrow> Panic nil_deref
   | Some r \<Rightarrow> (case find_after ''charset='' (hget (rs_header r) ''Content-Type'') of
       None \<Rightarrow> Val []
     | Some t \<Rightarrow> Val (takeWhile (\<lambda>x. x \<noteq> CHR '' '' \<and> x \<noteq> CHR '';'') t)))"

section \<open>Facts\<close>

lemma client_write_some:
  "cx_conn (ps_ctx s) = Some r \<Longrightarrow> client_write d s =
     (Val (fst (conn_write r d (ps_net s))), s\<lparr>ps_net := snd (conn_write r d (ps_net s))\<rparr>)"
  by (simp add: client_write_def go_defs case_prod_unfold)

lemma client_close_some:
  "cx_conn (ps_ctx s) = Some r \<Longrightarrow> client_close s =
     (Val (fst (conn_close r (ps_net s))), s\<lparr>ps_net := snd (conn_close r (ps_net s))\<rparr>)"
  by (simp add: client_close_def go_defs case_prod_unfold)

text \<open>
  The three answers that end a connection have one shape: a line unless the TLS handshake was
  sniffed, then a close.
\<close>

definition answer_and_close :: "string \<Rightarrow> (pst, unit) go" where
  "answer_and_close line = bnd (get_ctx cx_sniffed_tls) (\<lambda>sniffed.
     thn (if \<not> sniffed then thn (client_write line) (ret ()) else ret ())
         (thn client_close (ret ())))"

lemma http_error_answer: "http_error = answer_and_close bad_gateway"
  by (simp add: http_error_def answer_and_close_def)

lemma reject_connect_answer:
  "cx_method (ps_ctx s) = ''CONNECT'' \<Longrightarrow> reject_connect s = answer_and_close rejected_502 s"
  by (simp add: reject_connect_def answer_and_close_def go_defs)

lemma answer_and_close_effect:
  assumes "cx_conn (ps_ctx s) = Some r" "plain_ref r" "conn_open (conn_of r (ps_net s))"
  shows "\<exists>s'. answer_and_close line s = (Val (), s') \<and> ps_ctx s' = ps_ctx s \<and>
    nt_events (ps_net s') = nt_events (ps_net s) \<and>
    tc_closed (conn_of r (ps_net s')) \<and>
    tc_sent (conn_of r (ps_net s')) =
      tc_sent (conn_of r (ps_net s)) @ (if cx_sniffed_tls (ps_ctx s) then [] else line)"
  using assms
  by (auto simp: answer_and_close_def bnd_apply thn_def get_ctx_def gets_def ret_def client_write_some
      client_close_some conn_write_plain conn_of_def case_prod_unfold)

lemma read_all_open:
  "\<not> bd_closed b \<Longrightarrow> read_all b = ((bd_data b, bd_err b), b\<lparr>bd_data := []\<rparr>)"
  by (simp add: read_all_def)

lemma read_all_nop [simp]: "read_all (nop_body d) = ((d, None), nop_body [])"
  by (simp add: read_all_def nop_body_def)

section \<open>An example state\<close>

text \<open>A CONNECT request on connection 0, and an outside that always answers.\<close>

definition example_env :: env where
  "example_env = \<lparr>ev_sniff = \<lambda>r n. ((r, ''b.org'', None), n), ev_fit = \<lambda>a b n. n,
     ev_net_dial_context = \<lambda>c nw a n. (Inr (TcpRef 7), n), ev_net_dial = \<lambda>nw a n. (Inr (TcpRef 7), n),
     ev_transport_dial_context = None, ev_transport_dial = None,
     ev_app_dial_context = \<lambda>c nw a n. (Inr (TcpRef 7), n), ev_app_dial = \<lambda>nw a n. (Inr (TcpRef 7), n),
     ev_shadow_transport = \<lambda>a. None, ev_shadow_dial = \<lambda>k c nw a n. (Inr (TcpRef 7), n),
     ev_tls_dial = \<lambda>b nw a n. (Inr (TcpRef 7), n), ev_tls_client = \<lambda>r n. (r, n),
     ev_request_text = rq_method,
     ev_read_response = \<lambda>r rq n. (Inr (new_response rq 200 ''text/plain'' ''hi''), n),
     ev_transport = \<lambda>t c rq n.
       ((Some ((new_response rq 200 ''text/plain'' ''hi'')
          \<lparr>rs_body := \<lparr>bd_id = 5, bd_data = ''hi'', bd_err = None, bd_nop = False, bd_closed = False\<rparr>\<rparr>),
         None, False), n),
     ev_custom_trip = \<lambda>k c rq n. ((None, Some (ErrText ''none''), False), n)\<rparr>"

definition example_ctx :: ctx where
  "example_ctx = \<lparr>cx_method = ''CONNECT'', cx_source_ip = [], cx_is_secure = False,
     cx_through_mitm = False, cx_through_tunnel = False, cx_tunnel_request = True,
     cx_non_http_request = ''GET / HTTP/1.1'' @ crlf @ crlf, cx_host = ''a.com:443'', cx_sni_host = [],
     cx_sniffed_tls = False, cx_mitm_config = None, cx_connect_scheme = [],
     cx_original_request = None,
     cx_req = empty_request\<lparr>rq_method := ''CONNECT'', rq_url := Some (empty_url\<lparr>u_host := ''a.com:443''\<rparr>)\<rparr>,
     cx_writer = WNsd, cx_conn = Some (TcpRef 0), cx_target_conn = None, cx_resp = None,
     cx_resp_error = None, cx_original_body = None, cx_round_tripper = None, cx_fake_dns = [],
     cx_log_enabled = False, cx_log_content = False, cx_session = 1, cx_cipher_signature = [],
     cx_new_body_length = 0, cx_verbosity = 0, cx_device_type = -1, cx_whitelisted = False,
     cx_status = [], cx_private = False, cx_shadow = None, cx_trace = no_trace,
     cx_trace_info = None, cx_request_time = 0\<rparr>"

definition example_proxy :: proxy_data where
  "example_proxy = \<lparr>px_sess = 1, px_verbosity = 0, px_mitm_config = None, px_private_network = False,
     px_flush_idle = False, px_idle_flushes = 0, px_connect_dial = NoConnectDial,
     px_tracer = Some [], px_open_handlers = 0, px_har_queue = [], px_har_running = False\<rparr>"

definition example_pst :: pst where
  "example_pst = \<lparr>ps_ctx = example_ctx, ps_proxy = example_proxy,
     ps_net = \<lparr>nt_conns = \<lambda>i. fresh_conn, nt_events = []\<rparr>,
     ps_nsd = \<lparr>ns_conn = 0, ns_wrote = False, ns_chunking = False, ns_hijacked = False\<rparr>,
     ps_now = 0, ps_next_body = 10\<rparr>"

lemma example_fit [simp]: "ev_fit example_env a b n = n"
  by (simp add: example_env_def)

section \<open>Properties\<close>

text \<open>
  Whatever the SNI muxer returns, sniffing leaves a context whose destination host has a port
  whenever it had a host or a server name was found; a found name replaces the host and keeps the port
  of the CONNECT request (443 where there was no host), and the client was told 200 first.
\<close>

theorem sni_host_destination:
  assumes "cx_method (ps_ctx s) = ''CONNECT''" "\<not> cx_sniffed_tls (ps_ctx s)"
    and "cx_conn (ps_ctx s) = Some r"
    and "ev_sniff env r (snd (conn_write r faux_ok (ps_net s))) = ((r', sni, None), n')"
    and "sni \<noteq> []" "CHR '':'' \<notin> set sni"
  shows "\<exists>s'. sni_host env s = (Val (cx_host (ps_ctx s')), s') \<and>
    cx_host (ps_ctx s') = (if cx_host (ps_ctx s) = [] then sni @ '':443''
                           else inherit_port sni (cx_host (ps_ctx s))) \<and>
    cx_sni_host (ps_ctx s') = cx_host (ps_ctx s') \<and> cx_conn (ps_ctx s') = Some r' \<and>
    cx_sniffed_tls (ps_ctx s')"
proof -
  have i: "inherit_port (inherit_port sni h) h = inherit_port sni h" for h
    using inherit_port_spec [of sni h] by (simp add: inherit_port_present)
  show ?thesis using assms i
    by (simp add: sni_host_def bnd_apply thn_def client_write_some on_conn_def on_net_def
        set_destination_host_def go_when_def upd_ctx_def get_ctx_def gets_def modify_def ret_def)
qed

theorem sni_host_destination_witness:
  "\<exists>s'. sni_host example_env example_pst = (Val ''b.org:443'', s') \<and> cx_host (ps_ctx s') = ''b.org:443''"
proof -
  have i: "inherit_port ''b.org'' ''a.com:443'' = ''b.org:443''" by code_simp
  have "\<exists>s'. sni_host example_env example_pst = (Val (cx_host (ps_ctx s')), s') \<and>
    cx_host (ps_ctx s') = (if cx_host (ps_ctx example_pst) = [] then ''b.org'' @ '':443''
                           else inherit_port ''b.org'' (cx_host (ps_ctx example_pst))) \<and>
    cx_sni_host (ps_ctx s') = cx_host (ps_ctx s') \<and> cx_conn (ps_ctx s') = Some (TcpRef 0) \<and>
    cx_sniffed_tls (ps_ctx s')"
    by (rule sni_host_destination)
      (simp_all add: example_pst_def example_ctx_def example_env_def)
  then show ?thesis using i by (auto simp: example_pst_def example_ctx_def)
qed

text \<open>
  \<open>RejectConnect\<close> and \<open>httpError\<close> always close the client's connection, dial nothing, and put
  one status line on the wire first, unless the TLS handshake was sniffed: then the client, which
  speaks TLS, gets not a byte of clear text.
\<close>

theorem reject_and_error_close:
  assumes "cx_conn (ps_ctx s) = Some r" "plain_ref r" "conn_open (conn_of r (ps_net s))"
    and "cx_method (ps_ctx s) = ''CONNECT''"
  shows "\<exists>s1 s2. reject_connect s = (Val (), s1) \<and> http_error s = (Val (), s2) \<and>
    (\<forall>(t, line) \<in> {(s1, rejected_502), (s2, bad_gateway)}.
       tc_closed (conn_of r (ps_net t)) \<and> nt_events (ps_net t) = nt_events (ps_net s) \<and>
       tc_sent (conn_of r (ps_net t)) =
         tc_sent (conn_of r (ps_net s)) @ (if cx_sniffed_tls (ps_ctx s) then [] else line))"
  using answer_and_close_effect [OF assms(1-3), of rejected_502]
    answer_and_close_effect [OF assms(1-3), of bad_gateway]
  by (auto simp: http_error_answer reject_connect_answer [OF assms(4)])

theorem reject_and_error_close_witness:
  "\<exists>s1. reject_connect example_pst = (Val (), s1) \<and> tc_closed (nt_conns (ps_net s1) 0) \<and>
     tc_sent (nt_conns (ps_net s1) 0) = rejected_502"
proof -
  have "\<exists>s1 s2. reject_connect example_pst = (Val (), s1) \<and> http_error example_pst = (Val (), s2) \<and>
    (\<forall>(t, line) \<in> {(s1, rejected_502), (s2, bad_gateway)}.
       tc_closed (conn_of (TcpRef 0) (ps_net t)) \<and> nt_events (ps_net t) = nt_events (ps_net example_pst) \<and>
       tc_sent (conn_of (TcpRef 0) (ps_net t)) = tc_sent (conn_of (TcpRef 0) (ps_net example_pst)) @
         (if cx_sniffed_tls (ps_ctx example_pst) then [] else line))"
    by (rule reject_and_error_close) (simp_all add: example_pst_def example_ctx_def conn_of_def)
  then show ?thesis by (auto simp: conn_of_def) (auto simp: example_pst_def example_ctx_def)
qed

text \<open>
  What \<open>SetResponseBody\<close> sets is what \<open>BufferResponse\<close> reads, once: a second call reads the
  empty string, since the response keeps the exhausted body.
\<close>

theorem set_then_buffer_response:
  assumes "cx_resp (ps_ctx s) = Some r"
  shows "\<exists>s'. buffer_response (s\<lparr>ps_ctx := set_response_body content (ps_ctx s)\<rparr>) = (Val (Inr content), s') \<and>
    buffer_response s' = (Val (Inr []), s')"
  using assms
  by (simp add: buffer_response_def set_response_body_def bnd_apply thn_def go_defs nop_body_def
      read_all_def body_close_def)

theorem set_then_buffer_response_witness:
  "\<exists>s'. buffer_response (example_pst\<lparr>ps_ctx := set_response_body ''abc'' (new_html_response ''old'' example_ctx)\<rparr>)
     = (Val (Inr ''abc''), s') \<and> buffer_response s' = (Val (Inr []), s')"
  using set_then_buffer_response [of "example_pst\<lparr>ps_ctx := new_html_response ''old'' example_ctx\<rparr>", where content = "''abc''"]
  by (auto simp: new_html_response_def)

text \<open>
  \<open>SetRequestBody\<close> keeps \<open>ContentLength\<close> and the body in step for the readers whose
  length is known, an empty one included; for any other reader it leaves the length that was there.
\<close>

theorem set_request_body_length:
  "rq_clen (set_request_body (Some (BytesBuffer d)) rq) = int (length d) \<and>
   map_option bd_data (rq_body (set_request_body (Some (BytesBuffer d)) rq)) = Some d \<and>
   rq_get_body (set_request_body (Some (BytesBuffer d)) rq) = Some d \<and>
   rq_clen (set_request_body (Some (OtherReader b)) rq) = rq_clen rq"
  by (simp add: set_request_body_def sized_request_def nop_body_def Let_def)

text \<open>
  A stale \<open>GetBody\<close> loses a body: after an empty buffer was set, setting a reader of another
  kind leaves \<open>http.NoBody\<close> in the request, whatever the reader holds.
\<close>

theorem set_request_body_stale:
  "rq_body (set_request_body (Some (OtherReader b)) (set_request_body (Some (BytesBuffer [])) rq)) =
     Some (nop_body [])"
  by (simp add: set_request_body_def sized_request_def)

text \<open>
  On a port other than 80 and 443 the scheme of a CONNECT is \<open>http\<close> unless the URL of the request
  says \<open>https\<close>.
\<close>

theorem connect_scheme_other_port:
  assumes "cx_connect_scheme c = []" "\<not> has_suffix (cx_host c) '':80''" "\<not> has_suffix (cx_host c) '':443''"
    "rq_url (cx_req c) = Some u" "u_scheme u \<noteq> ''https''"
  shows "get_connect_scheme c = Val ''http''"
  using assms by (simp add: get_connect_scheme_def)

end
