(* ===== verification/Dialers.thy ===== *)
theory Dialers
  imports Ctx_Ops
begin

text \<open>
  \<open>https.go\<close>: how the proxy reaches a destination. A dial goes through the private network when
  the context asks for it and a shadow transport serves the address, else through the transport's
  dialer, else directly; a proxy named by the environment is reached with a CONNECT handshake.
  Every dial is written down as an event.
\<close>

section \<open>Direct dials\<close>

definition dial_context :: "env \<Rightarrow> proxy_data \<Rightarrow> dialer" where
  "dial_context env px c network addr n0 =
     (let n = log_event (EvDial addr) n0;
          direct = (case ev_transport_dial_context env of
              Some d \<Rightarrow> d c network addr n
            | None \<Rightarrow> ev_net_dial_context env c network addr n)
      in if dc_private c \<and> px_private_network px
         then (case ev_shadow_transport env addr of
                 Some k \<Rightarrow> ev_shadow_dial env k (c\<lparr>dc_shadow := Some k\<rparr>) network addr n
               | None \<Rightarrow> direct)
         else direct)"

definition dial :: "env \<Rightarrow> plain_dialer" where
  "dial env network addr n0 =
     (let n = log_event (EvDial addr) n0 in
      case ev_transport_dial env of
        Some d \<Rightarrow> d network addr n
      | None \<Rightarrow> ev_net_dial env network addr n)"

section \<open>Through a proxy of the environment\<close>

text \<open>The CONNECT request and the text \<open>Request.Write\<close> sends for it.\<close>

definition connect_request :: "string \<Rightarrow> http_request" where
  "connect_request addr = empty_request\<lparr>rq_method := ''CONNECT'',
     rq_url := Some (empty_url\<lparr>u_opaque := addr\<rparr>), rq_host := addr\<rparr>"

definition connect_text :: "string \<Rightarrow> string" where
  "connect_text addr = ''CONNECT '' @ addr @ '' HTTP/1.1'' @ crlf @ ''Host: '' @ addr @ crlf @
     ''User-Agent: Go-http-client/1.1'' @ crlf @ crlf"

text \<open>
  The handshake on a dialled connection: the text is written (its error is not looked at), the
  response is read, anything but 200 closes the connection and becomes an error that quotes the
  body, cut off where a limit is given.
\<close>

definition proxy_handshake :: "env \<Rightarrow> nat option \<Rightarrow> conn_ref \<Rightarrow> string \<Rightarrow> net \<Rightarrow> dial_res" where
  "proxy_handshake env limit c addr n =
     (let n1 = snd (conn_write c (connect_text addr) n) in
      case ev_read_response env c (connect_request addr) n1 of
        (Inl e, n2) \<Rightarrow> (Inl e, snd (conn_close c n2))
      | (Inr resp, n2) \<Rightarrow>
          (if rs_code resp \<noteq> 200 then
             (let d = fst (fst (read_all (rs_body resp)));
                  text = (case limit of None \<Rightarrow> d | Some k \<Rightarrow> take k d)
              in (Inl (ErrText (''proxy refused connection'' @ text)), snd (conn_close c n2)))
           else (Inr c, n2)))"

definition http_proxy_dial_context :: "env \<Rightarrow> proxy_data \<Rightarrow> string \<Rightarrow> dialer" where
  "http_proxy_dial_context env px host c network addr n =
     (case dial_context env px c network host n of
        (Inl e, n1) \<Rightarrow> (Inl e, n1)
      | (Inr r, n1) \<Rightarrow> proxy_handshake env None r addr n1)"

definition https_proxy_dial_context :: "env \<Rightarrow> proxy_data \<Rightarrow> string \<Rightarrow> dialer" where
  "https_proxy_dial_context env px host c network addr n =
     (case dial_context env px c network host n of
        (Inl e, n1) \<Rightarrow> (Inl e, n1)
      | (Inr r, n1) \<Rightarrow> (case ev_tls_client env r n1 of
          (t, n2) \<Rightarrow> proxy_handshake env (Some 500) t addr n2))"

definition http_proxy_dial :: "env \<Rightarrow> string \<Rightarrow> plain_dialer" where
  "http_proxy_dial env host network addr n =
     (case dial env network host n of
        (Inl e, n1) \<Rightarrow> (Inl e, n1)
      | (Inr r, n1) \<Rightarrow> proxy_handshake env None r addr n1)"

definition https_proxy_dial :: "env \<Rightarrow> string \<Rightarrow> plain_dialer" where
  "https_proxy_dial env host network addr n =
     (case dial env network host n of
        (Inl e, n1) \<Rightarrow> (Inl e, n1)
      | (Inr r, n1) \<Rightarrow> (case ev_tls_client env r n1 of
          (t, n2) \<Rightarrow> proxy_handshake env (Some 500) t addr n2))"

text \<open>
  \<open>NewConnectDialToProxy\<close> and its context version choose the dialer from the scheme and host that
  \<open>url.Parse\<close> found (\<open>None\<close> where it fails); the port defaults to the scheme's.
\<close>

definition new_connect_dial_to_proxy :: "(string \<Rightarrow> (string \<times> string) option) \<Rightarrow> string \<Rightarrow> connect_dial" where
  "new_connect_dial_to_proxy parse_url https_proxy =
     (case parse_url https_proxy of
        None \<Rightarrow> NoConnectDial
      | Some (scheme, host) \<Rightarrow>
          (if scheme = [] \<or> scheme = ''http'' then
             HttpProxyDial (if index_byte host (CHR '':'') = -1 then host @ '':80'' else host)
           else if scheme = ''https'' then
             HttpsProxyDial (if index_byte host (CHR '':'') = -1 then host @ '':443'' else host)
           else NoConnectDial))"

definition dialer_from_env ::
  "(string \<Rightarrow> (string \<times> string) option) \<Rightarrow> (string \<Rightarrow> string) \<Rightarrow> connect_dial" where
  "dialer_from_env parse_url getenv =
     (let p0 = getenv ''HTTPS_PROXY''; p = (if p0 = [] then getenv ''https_proxy'' else p0)
      in if p = [] then NoConnectDial else new_connect_dial_to_proxy parse_url p)"

text \<open>\<open>dialerFromEnv\<close>, the one without a context, which reads the same variables again.\<close>

definition plain_dialer_from_env ::
  "(string \<Rightarrow> (string \<times> string) option) \<Rightarrow> (string \<Rightarrow> string) \<Rightarrow> connect_dial" where
  "plain_dialer_from_env parse_url getenv =
     (let p0 = getenv ''HTTPS_PROXY''; p = (if p0 = [] then getenv ''https_proxy'' else p0)
      in if p = [] then NoConnectDial else new_connect_dial_to_proxy parse_url p)"

lemma plain_dialer_same [simp]: "plain_dialer_from_env = dialer_from_env"
  by (intro ext) (simp add: plain_dialer_from_env_def dialer_from_env_def)

section \<open>The dialers the context uses\<close>

definition connect_dial_context :: "env \<Rightarrow> proxy_data \<Rightarrow> dialer" where
  "connect_dial_context env px c network addr n =
     (case px_connect_dial px of
        NoConnectDial \<Rightarrow> dial_context env px c network addr n
      | AppConnectDial \<Rightarrow> ev_app_dial_context env c network addr (log_event (EvDial addr) n)
      | HttpProxyDial host \<Rightarrow> http_proxy_dial_context env px host c network addr n
      | HttpsProxyDial host \<Rightarrow> https_proxy_dial_context env px host c network addr n)"

definition connect_dial_plain :: "env \<Rightarrow> proxy_data \<Rightarrow> plain_dialer" where
  "connect_dial_plain env px network addr n =
     (case px_connect_dial px of
        NoConnectDial \<Rightarrow> dial env network addr n
      | AppConnectDial \<Rightarrow> ev_app_dial env network addr (log_event (EvDial addr) n)
      | HttpProxyDial host \<Rightarrow> http_proxy_dial env host network addr n
      | HttpsProxyDial host \<Rightarrow> https_proxy_dial env host network addr n)"

section \<open>Facts\<close>

lemma proxy_handshake_cases:
  "proxy_handshake env limit c addr n = (Inl e, n') \<Longrightarrow> tc_closed (conn_of c n')"
  "proxy_handshake env limit c addr n = (Inr r, n') \<Longrightarrow> r = c \<and>
     (\<exists>resp. ev_read_response env c (connect_request addr)
        (snd (conn_write c (connect_text addr) n)) = (Inr resp, n') \<and> rs_code resp = 200)"
  by (auto simp: proxy_handshake_def conn_of_def Let_def split: prod.splits sum.splits if_splits)

section \<open>Properties\<close>

text \<open>
  C40. A dial through an upstream HTTP proxy hands out a connection only after that proxy
  answered the CONNECT with 200, and every failure after the connection to the proxy was made
  closes it: nothing leaks, whatever the proxy answers.
\<close>

theorem proxy_dial_no_leak:
  assumes "px_connect_dial px = HttpProxyDial host"
    and "dial_context env px c network host n = (Inr r, n1)"
  shows "case connect_dial_context env px c network addr n of
      (Inl e, n2) \<Rightarrow> tc_closed (conn_of r n2)
    | (Inr r', n2) \<Rightarrow> r' = r \<and> (\<exists>resp. rs_code resp = 200 \<and>
        ev_read_response env r (connect_request addr)
          (snd (conn_write r (connect_text addr) n1)) = (Inr resp, n2))"
  using assms proxy_handshake_cases [of env None r addr n1]
  by (auto simp: connect_dial_context_def http_proxy_dial_context_def split: prod.splits sum.splits)

definition refusing_env :: env where
  "refusing_env = example_env\<lparr>ev_read_response := \<lambda>r rq n. (Inr (new_response rq 407 ''text/plain'' ''no''), n)\<rparr>"

theorem proxy_dial_no_leak_witness:
  "\<exists>e n2. connect_dial_context refusing_env (example_proxy\<lparr>px_connect_dial := HttpProxyDial ''p:80''\<rparr>) background ''tcp'' ''a:443''
       (ps_net example_pst) = (Inl e, n2) \<and> tc_closed (conn_of (TcpRef 7) n2)"
proof -
  let ?px = "example_proxy\<lparr>px_connect_dial := HttpProxyDial ''p:80''\<rparr>"
  have d: "dial_context refusing_env ?px background ''tcp'' ''p:80'' (ps_net example_pst) =
    (Inr (TcpRef 7), log_event (EvDial ''p:80'') (ps_net example_pst))"
    by (simp add: dial_context_def refusing_env_def example_env_def background_def Let_def)
  obtain r n2 where c: "connect_dial_context refusing_env ?px background ''tcp'' ''a:443'' (ps_net example_pst) = (r, n2)"
    by fastforce
  have "\<exists>e. r = Inl e" using c d
    by (auto simp: connect_dial_context_def http_proxy_dial_context_def proxy_handshake_def refusing_env_def Let_def)
  with c proxy_dial_no_leak [OF _ d, of "''a:443''"] show ?thesis by auto
qed

text \<open>
  A whitelisted or local request never enters the private network: with no private network,
  or without the request for one in the context, the destination is dialled directly, at the very
  address that was asked for.
\<close>

theorem dial_direct:
  assumes "\<not> (dc_private c \<and> px_private_network px) \<or> ev_shadow_transport env addr = None"
    and "px_connect_dial px = NoConnectDial"
  shows "connect_dial_context env px c network addr n =
    (case ev_transport_dial_context env of
       Some d \<Rightarrow> d c network addr (log_event (EvDial addr) n)
     | None \<Rightarrow> ev_net_dial_context env c network addr (log_event (EvDial addr) n))"
  using assms by (auto simp: connect_dial_context_def dial_context_def Let_def)

end
