(* ===== verification/Go_Fmt.thy ===== *)
theory Go_Fmt
  imports Go_Prelude
begin

text \<open>
  \<open>fmt.Sprintf(format)\<close> with no operands, as \<open>ForwardRequest\<close> calls it with the client's bytes
  for a format: \<open>doPrintf\<close> of package \<open>fmt\<close>, whose verbs all miss their operand. The model keeps
  what decides the output: the flags are skipped, an explicit index \<open>[n]\<close> is always out of range,
  a \<open>*\<close> always lacks its operand, and a byte outside ASCII that is no valid start of a character is
  printed as the replacement character.
\<close>

definition percent :: char where
  "percent = CHR 0x25"

definition fmt_flag :: "char \<Rightarrow> bool" where
  "fmt_flag c \<longleftrightarrow> c \<in> set ''#0+- ''"

text \<open>\<open>parsenum\<close>: digits up to a million; whether there was a number, and the rest of the format.\<close>

definition tolarge :: "nat \<Rightarrow> bool" where
  "tolarge n \<longleftrightarrow> n > 1000000"

fun parsenum :: "nat \<Rightarrow> bool \<Rightarrow> string \<Rightarrow> nat \<times> bool \<times> string" where
  "parsenum n isnum [] = (n, isnum, [])"
| "parsenum n isnum (c # cs) =
     (if \<not> is_digit c then (n, isnum, c # cs)
      else if tolarge n then (0, False, [])
      else parsenum (n * 10 + (byte c - 48)) True cs)"

text \<open>
  \<open>argNumber\<close> with no operands: nothing to do without a bracket; else the format after it,
  whether the bracket was a well-formed number (\<open>afterIndex\<close>), and never a good index.
\<close>

definition parse_arg_number :: "string \<Rightarrow> string \<times> bool" where
  "parse_arg_number f =
     (if length f < 3 then (drop 1 f, False)
      else case index_byte (drop 1 f) (CHR '']'') of i \<Rightarrow>
        if i < 0 then (drop 1 f, False)
        else (let close = nat i + 1; inner = take (nat i) (drop 1 f) in
              case parsenum 0 False inner of (n, ok, rest) \<Rightarrow>
                (drop (close + 1) f, ok \<and> rest = [])))"

definition arg_number :: "string \<Rightarrow> (string \<times> bool) \<times> bool" where
  "arg_number f =
     (if f \<noteq> [] \<and> hd f = CHR ''['' then (parse_arg_number f, False) else ((f, False), True))"

text \<open>The length of the valid UTF-8 character a string starts with; 0 where there is none.\<close>

definition cont_byte :: "char \<Rightarrow> bool" where
  "cont_byte c \<longleftrightarrow> 128 \<le> byte c \<and> byte c \<le> 191"

definition rune_len :: "string \<Rightarrow> nat" where
  "rune_len s = (case s of
     [] \<Rightarrow> 0
   | a # t \<Rightarrow>
      (if byte a < 128 then 1
       else if 194 \<le> byte a \<and> byte a \<le> 223 \<and> 1 \<le> length t \<and> cont_byte (t ! 0) then 2
       else if 224 \<le> byte a \<and> byte a \<le> 239 \<and> 2 \<le> length t \<and> cont_byte (t ! 0) \<and> cont_byte (t ! 1) \<and>
               (byte a = 224 \<longrightarrow> 160 \<le> byte (t ! 0)) \<and> (byte a = 237 \<longrightarrow> byte (t ! 0) \<le> 159) then 3
       else if 240 \<le> byte a \<and> byte a \<le> 244 \<and> 3 \<le> length t \<and> cont_byte (t ! 0) \<and> cont_byte (t ! 1) \<and>
               cont_byte (t ! 2) \<and> (byte a = 240 \<longrightarrow> 144 \<le> byte (t ! 0)) \<and>
               (byte a = 244 \<longrightarrow> byte (t ! 0) \<le> 143) then 4
       else 0))"

definition replacement_char :: string where
  "replacement_char = [CHR 0xEF, CHR 0xBF, CHR 0xBD]"

text \<open>The verb: what is printed for it, and the rest of the format.\<close>

definition print_verb :: "bool \<Rightarrow> string \<Rightarrow> string \<times> string" where
  "print_verb good f =
     (if f = [] then (''%!(NOVERB)'', [])
      else
        let k = rune_len f;
            verb = (if k = 0 then replacement_char else take k f);
            rest = drop (if k = 0 then 1 else k) f
        in (if verb = [percent] then ''%''
            else if \<not> good then ''%!'' @ verb @ ''(BADINDEX)''
            else ''%!'' @ verb @ ''(MISSING)'', rest))"

text \<open>What follows a percent sign: its output and the rest of the format.\<close>

definition width_part :: "string \<Rightarrow> bool \<Rightarrow> string \<times> bool \<times> bool \<times> string" where
  "width_part f after =
     (if f \<noteq> [] \<and> hd f = CHR ''*'' then (''%!(BADWIDTH)'', False, True, tl f)
      else case parsenum 0 False f of (n, present, t) \<Rightarrow> ([], after, \<not> (after \<and> present), t))"

definition precision_part :: "string \<Rightarrow> bool \<Rightarrow> string \<times> bool \<times> bool \<times> string" where
  "precision_part f after =
     (if f \<noteq> [] \<and> hd f = CHR ''.'' then
        (case arg_number (tl f) of ((t1, after1), good1) \<Rightarrow>
           if t1 \<noteq> [] \<and> hd t1 = CHR ''*'' then (''%!(BADPREC)'', False, good1 \<and> \<not> after, tl t1)
           else case parsenum 0 False t1 of (n, present, t2) \<Rightarrow> ([], after1, good1 \<and> \<not> after, t2))
      else ([], after, True, f))"

definition print_directive :: "string \<Rightarrow> string \<times> string" where
  "print_directive f0 =
     (let f1 = dropWhile fmt_flag f0 in
      case arg_number f1 of ((f2, after2), good2) \<Rightarrow>
      case width_part f2 after2 of (out3, after3, good3, f3) \<Rightarrow>
      case precision_part f3 after3 of (out4, after4, good4, f4) \<Rightarrow>
      case (if \<not> after4 then arg_number f4 else ((f4, after4), True)) of ((f5, after5), good5) \<Rightarrow>
      case print_verb (good2 \<and> good3 \<and> good4 \<and> good5) f5 of (out6, f6) \<Rightarrow>
        (out3 @ out4 @ out6, f6))"

lemma parsenum_length: "parsenum n b f = (k, ok, r) \<Longrightarrow> length r \<le> length f"
  by (induction n b f arbitrary: k ok r rule: parsenum.induct) (auto split: if_splits)

lemma arg_number_length: "arg_number f = ((r, a), g) \<Longrightarrow> length r \<le> length f"
  by (auto simp: arg_number_def parse_arg_number_def Let_def split: if_splits prod.splits)

lemma width_part_length: "width_part f a = (x, b, g, r) \<Longrightarrow> length r \<le> length f"
  using parsenum_length [of 0 False f]
  by (auto simp: width_part_def split: if_splits prod.splits)

lemma precision_part_length:
  assumes "precision_part f a = (x, b, g, r)"
  shows "length r \<le> length f"
proof -
  obtain t1 a1 g1 where 1: "arg_number (tl f) = ((t1, a1), g1)" by (metis prod.collapse)
  have t1: "length t1 \<le> length (tl f)" using arg_number_length [OF 1] .
  show ?thesis using assms 1 t1 parsenum_length [of 0 False t1]
    by (auto simp: precision_part_def split: if_splits prod.splits)
qed

lemma print_verb_length: "print_verb g f = (x, r) \<Longrightarrow> length r \<le> length f"
  by (auto simp: print_verb_def Let_def split: if_splits)

lemma print_directive_length: "print_directive f = (x, r) \<Longrightarrow> length r \<le> length f"
proof -
  assume a: "print_directive f = (x, r)"
  let ?f1 = "dropWhile fmt_flag f"
  obtain f2 a2 g2 where 2: "arg_number ?f1 = ((f2, a2), g2)" by (metis prod.collapse)
  obtain x3 a3 g3 f3 where 3: "width_part f2 a2 = (x3, a3, g3, f3)" by (metis prod.collapse)
  obtain x4 a4 g4 f4 where 4: "precision_part f3 a3 = (x4, a4, g4, f4)" by (metis prod.collapse)
  obtain f5 a5 g5 where 5: "(if \<not> a4 then arg_number f4 else ((f4, a4), True)) = ((f5, a5), g5)"
    by (metis prod.collapse)
  obtain x6 where 6: "print_verb (g2 \<and> g3 \<and> g4 \<and> g5) f5 = (x6, r)"
    using a 2 3 4 5 by (auto simp: print_directive_def Let_def split: prod.splits)
  have "length f5 \<le> length f4" using 5 arg_number_length by (auto split: if_splits)
  then show ?thesis
    using print_verb_length [OF 6] precision_part_length [OF 4] width_part_length [OF 3]
      arg_number_length [OF 2] length_dropWhile_le [of fmt_flag f] by linarith
qed

text \<open>The whole format.\<close>

function sprintf0 :: "string \<Rightarrow> string" where
  "sprintf0 f =
     (case dropWhile (\<lambda>c. c \<noteq> percent) f of
        [] \<Rightarrow> f
      | _ # d \<Rightarrow> takeWhile (\<lambda>c. c \<noteq> percent) f @
          (case print_directive d of (out, rest) \<Rightarrow> out @ sprintf0 rest))"
  by pat_completeness auto
termination
proof (relation "measure length", goal_cases)
  case (2 f x d y rest)
  have "length (dropWhile (\<lambda>c. c \<noteq> percent) f) \<le> length f" by (rule length_dropWhile_le)
  then show ?case using 2 print_directive_length [of d y rest] by simp
qed simp

declare sprintf0.simps [simp del]

lemma dropWhile_no_percent: "percent \<notin> set f \<Longrightarrow> dropWhile (\<lambda>c. c \<noteq> percent) f = []"
  by (simp add: dropWhile_eq_Nil_conv) metis

lemma sprintf0_plain: "percent \<notin> set f \<Longrightarrow> sprintf0 f = f"
  by (simp add: sprintf0.simps dropWhile_no_percent)

lemma sprintf0_percent:
  "percent \<notin> set u \<Longrightarrow> sprintf0 (u @ percent # d) =
     u @ (case print_directive d of (out, rest) \<Rightarrow> out @ sprintf0 rest)"
proof -
  assume u: "percent \<notin> set u"
  then have "dropWhile (\<lambda>c. c \<noteq> percent) (u @ percent # d) = percent # d"
    "takeWhile (\<lambda>c. c \<noteq> percent) (u @ percent # d) = u"
    by (induction u) auto
  then show ?thesis by (subst sprintf0.simps) simp
qed

text \<open>A percent escape of a URL, two hexadecimal digits of which the second is a letter.\<close>

lemma sprintf0_escape:
  assumes "percent \<notin> set u" "is_digit d" "d \<noteq> CHR ''0''" "is_upper c" "percent \<notin> set v"
  shows "sprintf0 (u @ percent # d # c # v) = u @ ''%!'' @ c # ''(MISSING)'' @ v"
proof -
  have c: "c \<notin> set ''[*.]%''" "\<not> is_digit c" "byte c < 128" "c \<noteq> percent"
    using assms(4) by (auto simp: is_upper_def is_digit_def percent_def)
  have d: "\<not> fmt_flag d" "d \<notin> set ''[*.]%''"
    using assms(2,3) by (auto simp: fmt_flag_def is_digit_def)
  have "print_directive (d # c # v) = (''%!'' @ c # ''(MISSING)'', v)"
    using c d assms(2) by (simp add: print_directive_def arg_number_def width_part_def
        precision_part_def print_verb_def rune_len_def tolarge_def Let_def)
  then show ?thesis using assms(1,5) by (simp add: sprintf0_percent sprintf0_plain)
qed

end
