(* ===== verification/Forward.thy ===== *)
theory Forward
  imports Ctx_Ops Dialers Go_Fmt
begin

text \<open>
  The forwarding steps of \<open>ctx.go\<close>: joining the client with a dialled destination
  (\<open>ForwardConnect\<close>, \<open>ForwardRequest\<close>), sending the context's response to the client
  (\<open>ForwardResponse\<close>, \<open>forwardMITMResponse\<close>), and the done handlers that end a response.
\<close>

section \<open>Done handlers\<close>

text \<open>
  The loop of \<open>DispatchDoneHandlers\<close>; the \<open>break\<close> of \<open>case FORWARD\<close> leaves the switch, not the
  loop. That the handlers were dispatched is written down as an event.
\<close>

fun done_loop :: "handler list \<Rightarrow> (pst, unit) go" where
  "done_loop [] = ret ()"
| "done_loop (h # hs) = bnd h (\<lambda>next. case next of
     DONE \<Rightarrow> ret ()
   | NEXT \<Rightarrow> done_loop hs
   | FORWARD \<Rightarrow> done_loop hs
   | MITM \<Rightarrow> gopanic ''MITM doesn't make sense when we are done''
   | REJECT \<Rightarrow> gopanic ''REJECT a response ? then do what, send a 500 back ?''
   | SIGNATURE \<Rightarrow> ret ()
   | _ \<Rightarrow> ret ())"

definition dispatch_done_handlers :: "handler list \<Rightarrow> (pst, unit) go" where
  "dispatch_done_handlers hs =
     thn (modify (\<lambda>s. s\<lparr>ps_net := log_event EvDone (ps_net s)\<rparr>)) (done_loop hs)"

section \<open>Joining connections\<close>

text \<open>The context a dial gets: whitelisted requests use the upstream DNS, private ones the private network.\<close>

definition dns_bypass :: "ctx \<Rightarrow> dial_ctx" where
  "dns_bypass c =
     (if cx_whitelisted c then background\<lparr>dc_upstream := True\<rparr>
      else if cx_private c then background\<lparr>dc_private := True, dc_report_failure := True\<rparr>
      else background)"

text \<open>\<open>fitter.Fit\<close> and the two closes after it.\<close>

definition fit_and_close :: "env \<Rightarrow> conn_ref \<Rightarrow> (pst, unit) go" where
  "fit_and_close env t = bnd (get_ctx cx_conn) (\<lambda>c.
     thn (on_conn c (\<lambda>r n. ((), ev_fit env r t (log_event (EvFit r t) n))))
     (thn client_close
     (thn (on_net (conn_close t)) (ret ()))))"

definition forward_connect :: "env \<Rightarrow> (pst, goerr option) go" where
  "forward_connect env = bnd (get_ctx id) (\<lambda>c.
     bnd (\<lambda>s. on_net (connect_dial_context env (ps_proxy s) (dns_bypass c) ''tcp'' (cx_host c)) s) (\<lambda>res.
       case res of
         Inl e \<Rightarrow> thn http_error (ret (Some e))
       | Inr t \<Rightarrow>
           thn (if cx_method c = ''CONNECT'' \<and> \<not> cx_is_secure c
                then thn (client_write connect_ok) (ret ()) else ret ())
           (thn (fit_and_close env t) (ret None))))"

definition forward_request :: "env \<Rightarrow> string \<Rightarrow> (pst, goerr option) go" where
  "forward_request env host = bnd (get_ctx id) (\<lambda>c.
     bnd (\<lambda>s. if \<not> cx_is_secure c
             then on_net (connect_dial_context env (ps_proxy s) (dns_bypass c) ''tcp'' (cx_host c)) s
             else on_net (\<lambda>n. ev_tls_dial env (has_prefix (cx_host c) ''127.0.0.'') ''tcp'' (cx_host c)
                                (log_event (EvDial (cx_host c)) n)) s) (\<lambda>res.
       case res of
         Inl e \<Rightarrow> thn http_error (ret (Some e))
       | Inr t \<Rightarrow>
           (if cx_conn c = None
            then ret (Some (ErrText ''[ERROR] ForwardNonHTTPRequest() - ctx.Conn was nil! Cannot continue.''))
            else bnd (on_net (conn_write t (sprintf0 (cx_non_http_request c)))) (\<lambda>(_, err).
              case err of
                Some e \<Rightarrow> ret (Some e)
              | None \<Rightarrow> thn (fit_and_close env t) (ret None)))))"

section \<open>Sending the response\<close>

text \<open>What \<open>io.Copy\<close> reads at a time.\<close>

function pieces :: "string \<Rightarrow> string list" where
  "pieces s = (if s = [] then [] else take 32768 s # pieces (drop 32768 s))"
  by pat_completeness auto
termination by (relation "measure length") auto

declare pieces.simps [simp del]

lemma concat_pieces [simp]: "concat (pieces s) = s"
  by (induction s rule: pieces.induct) (simp add: pieces.simps)

lemma pieces_nonempty: "d \<in> set (pieces s) \<Longrightarrow> d \<noteq> []"
proof (induction s rule: pieces.induct)
  case (1 s)
  then show ?case using pieces.simps [of s] by (auto split: if_splits)
qed

text \<open>\<open>io.Copy\<close> to the HTTP response writer: it ends at the first error or short write.\<close>

fun nsd_copy :: "(nat \<times> net) nsd_writer \<Rightarrow> string list \<Rightarrow> (nat \<times> net) nsd_writer" where
  "nsd_copy w [] = w"
| "nsd_copy w (d # ds) = (case nsd_write net_write w d of
     ((k, e), w1) \<Rightarrow> if e \<noteq> None \<or> k \<noteq> length d then w1 else nsd_copy w1 ds)"

text \<open>Close the body with the given identity, if the response still has it.\<close>

definition close_body :: "nat \<Rightarrow> ctx \<Rightarrow> ctx" where
  "close_body i c = (case cx_resp c of
     None \<Rightarrow> c
   | Some r \<Rightarrow> if bd_id (rs_body r) = i then c\<lparr>cx_resp := Some (r\<lparr>rs_body := body_close (rs_body r)\<rparr>)\<rparr> else c)"

definition add_status :: "string list \<Rightarrow> header \<Rightarrow> header" where
  "add_status msgs h = fold (\<lambda>m h. hadd h ''Winston-Status'' m) msgs h"

text \<open>\<open>forwardMITMResponse\<close>: the writes that may end it early, with the body closed at the end.\<close>

definition client_send :: "string \<Rightarrow> (pst, goerr option) go \<Rightarrow> (pst, goerr option) go" where
  "client_send d k = bnd (client_write d) (\<lambda>(_, err). case err of Some e \<Rightarrow> ret (Some e) | None \<Rightarrow> k)"

definition mitm_status :: "http_response \<Rightarrow> string" where
  "mitm_status r =
     (let code = itoa (rs_code r) @ '' '';
          text = (if has_prefix (rs_status r) code then drop (length code) (rs_status r) else rs_status r)
      in ''HTTP/1.1 '' @ code @ text @ crlf)"

definition mitm_header :: "ctx \<Rightarrow> header \<Rightarrow> header" where
  "mitm_header c h0 =
     (let h1 = hset h0 ''Connection'' ''close'';
          h2 = (if cx_new_body_length c = 0
                then hset (hdel h1 ''Content-Length'') ''Transfer-Encoding'' ''chunked''
                else hset h1 ''Content-Length'' (itoa (cx_new_body_length c)))
      in hset (add_status (cx_status c) h2) ''Server'' ''Winston'')"

definition set_body :: "body \<Rightarrow> ctx \<Rightarrow> ctx" where
  "set_body b c = (case cx_resp c of
     None \<Rightarrow> c
   | Some r \<Rightarrow> c\<lparr>cx_resp := Some (r\<lparr>rs_body := b\<rparr>)\<rparr>)"

definition mitm_body :: "body \<Rightarrow> (pst, goerr option) go" where
  "mitm_body b = thn (upd_ctx (set_body (snd (read_all b))))
    (bnd (get_ctx id) (\<lambda>c. case fst (read_all b) of (d, err) \<Rightarrow>
     if cx_new_body_length c = 0 then
       bnd (on_conn (cx_conn c) (\<lambda>r n. case chunked_copy ref_write (r, n) (pieces d) of
              (Some e, (_, n1)) \<Rightarrow> (Some e, n1)
            | (None, (_, n1)) \<Rightarrow>
                (case err of
                   Some e \<Rightarrow> (Some e, n1)
                 | None \<Rightarrow> (case chunked_close ref_write (r, n1) of (e, (_, n2)) \<Rightarrow> (e, n2)))))
         (\<lambda>e. ret e)
     else (case err of
         Some e \<Rightarrow> ret (Some e)
       | None \<Rightarrow> bnd (client_write d) (\<lambda>(_, e). ret e))))"

definition forward_mitm_response :: "handler list \<Rightarrow> (pst, goerr option) go" where
  "forward_mitm_response done_handlers = bnd (get_ctx id) (\<lambda>c. case cx_resp c of
     None \<Rightarrow> gopanic nil_deref
   | Some r \<Rightarrow> (\<lambda>s. case
       client_send (mitm_status r)
        (thn (upd_ctx (\<lambda>c. c\<lparr>cx_resp := Some (r\<lparr>rs_header := mitm_header c (rs_header r)\<rparr>)\<rparr>))
         (client_send (header_write (mitm_header c (rs_header r)))
           (client_send crlf
             (bnd (mitm_body (rs_body r)) (\<lambda>err. case err of
                Some e \<Rightarrow> ret (Some e)
              | None \<Rightarrow> client_send crlf
                  (thn (dispatch_done_handlers done_handlers) (ret None))))))) s of
       (res, s') \<Rightarrow> (res, s'\<lparr>ps_ctx := close_body (bd_id (rs_body r)) (ps_ctx s')\<rparr>)))"

text \<open>\<open>ForwardResponse\<close>: the header it sets, and the whole.\<close>

definition response_header :: "ctx \<Rightarrow> http_response \<Rightarrow> header" where
  "response_header c r =
     (let h0 = rs_header r;
          h1 = (if cx_original_body c \<noteq> Some (bd_id (rs_body r)) then
                  (if cx_new_body_length c = 0 then hdel h0 ''Content-Length''
                   else hset h0 ''Content-Length'' (itoa (cx_new_body_length c)))
                else h0)
      in add_status (cx_status c) (hset h1 ''Server'' ''Winston''))"

definition forward_http_response :: "handler list \<Rightarrow> (pst, goerr option) go" where
  "forward_http_response done_handlers = bnd (get_ctx id) (\<lambda>c. case cx_resp c of
       None \<Rightarrow> gopanic nil_deref
     | Some r \<Rightarrow>
        (let h = response_header c r; d = fst (fst (read_all (rs_body r))) in
         thn (upd_ctx (\<lambda>c. c\<lparr>cx_resp := Some (r\<lparr>rs_header := h\<rparr>)\<rparr>))
         (case cx_writer c of
            WDumb _ \<Rightarrow> gopanic ''Header() should not be called on this ResponseWriter''
          | WNsd \<Rightarrow>
             thn (upd_ctx (\<lambda>c. c\<lparr>cx_req := (cx_req c)\<lparr>rq_header := copy_headers (rq_header (cx_req c)) h\<rparr>\<rparr>))
             (thn (on_nsd (nsd_write_header net_write (rs_code r)))
             (thn (on_nsd (\<lambda>w. nsd_copy w (pieces d)))
             (thn (upd_ctx (\<lambda>c. c\<lparr>cx_resp := Some (r\<lparr>rs_header := h,
                     rs_body := body_close (snd (read_all (rs_body r)))\<rparr>)\<rparr>))
             (thn (on_nsd (nsd_flush net_write))
             (thn (dispatch_done_handlers done_handlers) (ret None)))))))))"

definition forward_response :: "handler list \<Rightarrow> (pst, goerr option) go" where
  "forward_response done_handlers = bnd (get_ctx id) (\<lambda>c.
     if cx_through_mitm c \<and> cx_is_secure c then forward_mitm_response done_handlers
     else forward_http_response done_handlers)"

section \<open>Facts\<close>

lemma fit_and_close_effect:
  assumes "cx_conn (ps_ctx s) = Some r"
  shows "fit_and_close env t s = (Val (), s\<lparr>ps_net :=
    snd (conn_close t (snd (conn_close r (ev_fit env r t (log_event (EvFit r t) (ps_net s))))))\<rparr>)"
  using assms
  by (simp add: fit_and_close_def bnd_apply thn_def get_ctx_def gets_def on_conn_def on_net_def
      client_close_some ret_def case_prod_unfold)

lemma both_closed:
  "tc_closed (conn_of r (snd (conn_close t (snd (conn_close r n))))) \<and>
   tc_closed (conn_of t (snd (conn_close t (snd (conn_close r n)))))"
  by (simp add: conn_of_def conn_close_keeps)

text \<open>\<open>ForwardConnect\<close> as a function of what the dial returned.\<close>

definition greeting :: "ctx \<Rightarrow> string option" where
  "greeting c = (if cx_method c = ''CONNECT'' \<and> \<not> cx_is_secure c then Some connect_ok else None)"

lemma forward_connect_dialled:
  assumes "cx_conn (ps_ctx s) = Some r"
    and "connect_dial_context env (ps_proxy s) (dns_bypass (ps_ctx s)) ''tcp'' (cx_host (ps_ctx s)) (ps_net s)
         = (Inr t, n1)"
  shows "forward_connect env s = (Val None, s\<lparr>ps_net :=
    snd (conn_close t (snd (conn_close r (ev_fit env r t (log_event (EvFit r t)
      (case greeting (ps_ctx s) of None \<Rightarrow> n1 | Some g \<Rightarrow> snd (conn_write r g n1)))))))\<rparr>)"
  using assms
  by (simp add: forward_connect_def bnd_apply thn_def get_ctx_def gets_def on_net_def ret_def
      client_write_some fit_and_close_effect greeting_def)

lemma forward_connect_failed:
  assumes "connect_dial_context env (ps_proxy s) (dns_bypass (ps_ctx s)) ''tcp'' (cx_host (ps_ctx s)) (ps_net s)
         = (Inl e, n1)"
    and "http_error (s\<lparr>ps_net := n1\<rparr>) = (Val (), s')"
  shows "forward_connect env s = (Val (Some e), s')"
  using assms
  by (simp add: forward_connect_def bnd_apply thn_def get_ctx_def gets_def on_net_def ret_def)

text \<open>\<open>ForwardRequest\<close> of an HTTP request, once the destination is dialled.\<close>

lemma forward_request_dialled:
  assumes "cx_conn (ps_ctx s) = Some r" "\<not> cx_is_secure (ps_ctx s)"
    and "connect_dial_context env (ps_proxy s) (dns_bypass (ps_ctx s)) ''tcp'' (cx_host (ps_ctx s)) (ps_net s)
         = (Inr t, n1)"
    and "conn_write t (sprintf0 (cx_non_http_request (ps_ctx s))) n1 = ((k, None), n2)"
  shows "forward_request env host s = (Val None, s\<lparr>ps_net :=
    snd (conn_close t (snd (conn_close r (ev_fit env r t (log_event (EvFit r t) n2)))))\<rparr>)"
  using assms
  by (simp add: forward_request_def bnd_apply thn_def get_ctx_def gets_def on_net_def ret_def
      fit_and_close_effect)

lemma conn_write_open:
  "plain_ref t \<Longrightarrow> conn_open (conn_of t n) \<Longrightarrow>
     \<exists>n'. conn_write t d n = ((length d, None), n') \<and> tc_sent (conn_of t n') = tc_sent (conn_of t n) @ d"
  by (simp add: conn_write_plain conn_of_def)

text \<open>The HTTP response writer in the state of a handler.\<close>

lemma nsd_load_store:
  "nw_header w = Some h \<Longrightarrow> nsd_load (nsd_store w s) = w"
  by (cases w) (simp add: nsd_load_def nsd_store_def header_of_def)

lemma nsd_load_resp [simp]:
  "nsd_load (s\<lparr>ps_ctx := (ps_ctx s)\<lparr>cx_resp := x\<rparr>\<rparr>) = nsd_load s"
  by (simp add: nsd_load_def)

lemma nsd_store_net: "ps_net (nsd_store w s) = snd (nw_conn w)"
  by (simp add: nsd_store_def)

lemma nsd_put_fst [simp]: "fst (nw_conn (nsd_put net_write d w)) = fst (nw_conn w)"
  by (simp add: nsd_put_def)

lemma nsd_header_conn [simp]: "nw_conn (snd (nsd_header w)) = nw_conn w"
  by (simp add: nsd_header_def split: option.split)

lemma nsd_write_header_fst [simp]: "fst (nw_conn (nsd_write_header net_write c w)) = fst (nw_conn w)"
  by (simp add: nsd_write_header_def nsd_header_def Let_def split: option.split)

lemma nsd_write_fst [simp]: "fst (nw_conn (snd (nsd_write net_write w d))) = fst (nw_conn w)"
proof -
  have "fst c = fst x" if "net_write x y = (r, c)" for x y r c
    using net_write_fst [of x y] that by simp
  then show ?thesis by (auto simp: nsd_write_def Let_def split: prod.splits)
qed

lemma nsd_writes_fst [simp]: "fst (nw_conn (nsd_writes net_write w ds)) = fst (nw_conn w)"
  by (induction ds arbitrary: w) auto

lemma nsd_flush_fst [simp]: "fst (nw_conn (nsd_flush net_write w)) = fst (nw_conn w)"
  by (simp add: nsd_flush_def Let_def)

lemma nsd_copy_good:
  assumes "net_good (nw_conn w)" "nw_wrote w" "\<not> nw_hijacked w"
  shows "nsd_copy w ds = nsd_writes net_write w ds"
  using assms
proof (induction ds arbitrary: w)
  case (Cons d ds)
  obtain w1 where w1: "nsd_write net_write w d = ((length d, None), w1)" "net_good (nw_conn w1)"
    "nw_wrote w1" "\<not> nw_hijacked w1"
    using netw.nsd_write_good [OF Cons.prems, of d] by (cases "nsd_write net_write w d") (auto simp: Let_def)
  then show ?case using Cons.IH by simp
qed simp

text \<open>What a client is sent in a response leaves the rest of the network alone.\<close>

lemma nsd_copy_frame: "net_frame c n (nw_conn w) \<Longrightarrow> net_frame c n (nw_conn (nsd_copy w ds))"
proof (induction ds arbitrary: w)
  case (Cons d ds)
  then show ?case using framed.nsd_write_keeps [OF Cons.prems, of d] by (simp add: case_prod_unfold)
qed simp

lemma hvalues_add_status:
  "header_wf h \<Longrightarrow> hvalues (add_status ms h) j =
     (if same_key ''Winston-Status'' j then hvalues h j @ ms else hvalues h j)"
  by (simp add: add_status_def hdr.vals_append_all)

lemma header_wf_add_status: "header_wf h \<Longrightarrow> header_wf (add_status ms h)"
  by (simp add: add_status_def hdr.wf_append_all)

lemma header_wf_response_header: "header_wf (rs_header r) \<Longrightarrow> header_wf (response_header c r)"
  by (simp add: response_header_def Let_def header_wf_add_status header_wf_hset header_wf_hdel)

lemma content_length_keys:
  "same_key ''Content-Length'' ''content-length''" "\<not> same_key ''Winston-Status'' ''content-length''"
  "\<not> same_key ''Server'' ''content-length''"
  by code_simp+

lemma response_header_no_length:
  assumes "header_wf (rs_header r)" "cx_original_body c \<noteq> Some (bd_id (rs_body r))"
    "cx_new_body_length c = 0"
  shows "hvalues (response_header c r) ''content-length'' = []"
  using assms content_length_keys
  by (simp add: response_header_def Let_def hvalues_add_status header_wf_hset header_wf_hdel hvalues_ops)

lemma own_keys:
  "same_key ''Server'' ''Server''" "\<not> same_key ''Winston-Status'' ''Server''" "\<not> same_key ''Content-Length'' ''Server''"
  "same_key ''Winston-Status'' ''Winston-Status''" "\<not> same_key ''Server'' ''Winston-Status''"
  "\<not> same_key ''Content-Length'' ''Winston-Status''"
  by code_simp+

text \<open>The header of a response that is sent, by the values of each key.\<close>

lemma response_header_values:
  assumes "header_wf (rs_header r)"
  shows "hvalues (response_header c r) ''content-length'' =
      (if cx_original_body c = Some (bd_id (rs_body r)) then hvalues (rs_header r) ''content-length''
       else if cx_new_body_length c = 0 then [] else [itoa (cx_new_body_length c)])"
    and "hvalues (response_header c r) ''Server'' = [''Winston'']"
    and "hvalues (response_header c r) ''Winston-Status'' = hvalues (rs_header r) ''Winston-Status'' @ cx_status c"
    and "\<forall>k. same_key ''Content-Length'' k \<or> same_key ''Server'' k \<or> same_key ''Winston-Status'' k \<or>
       hvalues (response_header c r) k = hvalues (rs_header r) k"
  using assms content_length_keys own_keys
  by (auto simp: response_header_def Let_def hvalues_add_status header_wf_hset header_wf_hdel hvalues_ops)

text \<open>The response a handler made, sent through the HTTP writer: the state before the done handlers.\<close>

definition fresh_nsd :: "nsd_state \<Rightarrow> bool" where
  "fresh_nsd n \<longleftrightarrow> \<not> ns_wrote n \<and> \<not> ns_chunking n \<and> \<not> ns_hijacked n"

lemma forward_response_sends:
  assumes "\<not> (cx_through_mitm (ps_ctx s) \<and> cx_is_secure (ps_ctx s))" "cx_writer (ps_ctx s) = WNsd"
    and "cx_resp (ps_ctx s) = Some r" "fresh_nsd (ps_nsd s)"
    and "conn_open (nt_conns (ps_net s) (ns_conn (ps_nsd s)))"
    and h: "h = copy_headers (rq_header (cx_req (ps_ctx s))) (response_header (ps_ctx s) r)"
    and d: "d = fst (fst (read_all (rs_body r)))"
  shows "\<exists>s1. forward_response hs s = thn (dispatch_done_handlers hs) (ret None) s1 \<and>
    tc_sent (nt_conns (ps_net s1) (ns_conn (ps_nsd s))) =
      tc_sent (nt_conns (ps_net s) (ns_conn (ps_nsd s))) @ response_head (rs_code r) h @
      (if hget h ''content-length'' = [] then concat (map nsd_chunk (pieces d)) @ last_chunk @ crlf
       else d @ crlf) \<and>
    net_frame (ns_conn (ps_nsd s)) (ps_net s) (ns_conn (ps_nsd s), ps_net s1) \<and>
    ps_proxy s1 = ps_proxy s \<and> cx_trace (ps_ctx s1) = cx_trace (ps_ctx s)"
proof -
  let ?r1 = "r\<lparr>rs_header := response_header (ps_ctx s) r\<rparr>"
  let ?s0 = "s\<lparr>ps_ctx := (ps_ctx s)\<lparr>cx_resp := Some ?r1, cx_req := (cx_req (ps_ctx s))\<lparr>rq_header := h\<rparr>\<rparr>\<rparr>"
  let ?w0 = "nsd_load ?s0"
  let ?w1 = "nsd_write_header net_write (rs_code r) ?w0"
  let ?w2 = "nsd_writes net_write ?w1 (pieces d)"
  let ?w3 = "nsd_flush net_write ?w2"
  have w0: "net_good (nw_conn ?w0)" "\<not> nw_wrote ?w0" "\<not> nw_hijacked ?w0" "\<not> nw_chunking ?w0" "header_of ?w0 = h"
    using assms(4,5) by (simp_all add: nsd_load_def net_good_def fresh_nsd_def header_of_def)
  have w1: "net_good (nw_conn ?w1)" "nw_wrote ?w1" "\<not> nw_hijacked ?w1"
    "nw_header ?w1 = Some (sent_header h)"
    using netw.nsd_write_header_good [OF w0(1-3), of "rs_code r"] w0(5) by (simp_all add: Let_def)
  have w2: "nw_header ?w2 = Some (sent_header h)"
    using netw.nsd_writes_good [OF w1(1-3), of "pieces d"] w1(4) by (simp add: Let_def)
  have l1: "nsd_load (nsd_store ?w1 ?s0) = ?w1" by (rule nsd_load_store [OF w1(4)])
  have l2: "nsd_load (nsd_store ?w2 t) = ?w2" for t by (rule nsd_load_store [OF w2])
  have copy: "nsd_copy ?w1 (pieces d) = ?w2" by (rule nsd_copy_good [OF w1(1-3)])
  let ?s2 = "nsd_store ?w2 (nsd_store ?w1 ?s0)"
  let ?r2 = "r\<lparr>rs_header := response_header (ps_ctx s) r, rs_body := body_close (snd (read_all (rs_body r)))\<rparr>"
  let ?s3 = "nsd_store ?w3 (?s2\<lparr>ps_ctx := (ps_ctx ?s2)\<lparr>cx_resp := Some ?r2\<rparr>\<rparr>)"
  have "forward_response hs s = forward_http_response hs s"
    using assms(1) by (auto simp: forward_response_def bnd_apply get_ctx_def gets_def)
  also have "\<dots> = thn (dispatch_done_handlers hs) (ret None) ?s3"
    using assms(2,3) l1 l2 copy
    by (simp add: forward_http_response_def Let_def bnd_apply thn_def get_ctx_def gets_def upd_ctx_def
        modify_def on_nsd_def ret_def h [symmetric] d [symmetric])
  finally have "forward_response hs s = thn (dispatch_done_handlers hs) (ret None) ?s3" .
  moreover have "net_sent (nw_conn ?w3) = net_sent (nw_conn ?w0) @ response_head (rs_code r) h @
      (if hget h ''content-length'' = [] then concat (map nsd_chunk (pieces d)) @ last_chunk @ crlf
       else concat (pieces d) @ crlf)"
    using netw.nsd_response_good [OF w0(1-4), of "rs_code r" "pieces d"] w0(5) by simp
  moreover have "fst (nw_conn ?w3) = ns_conn (ps_nsd s)"
    by (simp add: nsd_load_def)
  moreover have "net_frame (ns_conn (ps_nsd s)) (ps_net s) (nw_conn ?w3)"
    by (intro framed.flush_keeps framed.writes_keep framed.write_header_keeps)
      (simp add: nsd_load_def net_frame_def)
  moreover have "ps_proxy ?s3 = ps_proxy s" "cx_trace (ps_ctx ?s3) = cx_trace (ps_ctx s)"
    by (simp_all add: nsd_store_def)
  ultimately show ?thesis
    by (intro exI [of _ ?s3]) (simp add: nsd_store_net net_sent_def nsd_load_def net_frame_def)
qed

lemma dechunk_pieces: "dechunk (concat (map nsd_chunk (pieces d)) @ last_chunk @ crlf) = Some (d, crlf)"
proof -
  have t: "takeWhile (\<lambda>d. d \<noteq> []) (pieces d) = pieces d" by (simp add: takeWhile_eq_all_conv pieces_nonempty)
  obtain q where "dechunk (concat (map nsd_chunk (pieces d)) @ last_chunk @ crlf) =
      Some (concat (takeWhile (\<lambda>d. d \<noteq> []) (pieces d)), q)" "(\<forall>x \<in> set (pieces d). x \<noteq> []) \<longrightarrow> q = crlf"
    using dechunk_nsd_chunks [of "pieces d"] by blast
  then show ?thesis unfolding t using pieces_nonempty by (metis concat_pieces)
qed

text \<open>What the client of such a response gets, and what else there is afterwards.\<close>

lemma response_delivered:
  assumes "\<not> (cx_through_mitm (ps_ctx s) \<and> cx_is_secure (ps_ctx s))" "cx_writer (ps_ctx s) = WNsd"
    and "cx_resp (ps_ctx s) = Some r" "fresh_nsd (ps_nsd s)"
    and "conn_open (nt_conns (ps_net s) (ns_conn (ps_nsd s)))"
    and "header_wf (rs_header r)" "header_wf (rq_header (cx_req (ps_ctx s)))"
    and "cx_original_body (ps_ctx s) \<noteq> Some (bd_id (rs_body r))" "cx_new_body_length (ps_ctx s) = 0"
    and "\<not> bd_closed (rs_body r)"
  shows "\<exists>s1 h w. forward_response hs s = thn (dispatch_done_handlers hs) (ret None) s1 \<and>
    tc_sent (nt_conns (ps_net s1) (ns_conn (ps_nsd s))) =
      tc_sent (nt_conns (ps_net s) (ns_conn (ps_nsd s))) @ response_head (rs_code r) h @ w \<and>
    dechunk w = Some (bd_data (rs_body r), crlf) \<and>
    (\<forall>k. hvalues h k = hvalues (response_header (ps_ctx s) r) k) \<and>
    net_frame (ns_conn (ps_nsd s)) (ps_net s) (ns_conn (ps_nsd s), ps_net s1) \<and>
    ps_proxy s1 = ps_proxy s \<and> cx_trace (ps_ctx s1) = cx_trace (ps_ctx s)"
proof -
  let ?h = "copy_headers (rq_header (cx_req (ps_ctx s))) (response_header (ps_ctx s) r)"
  let ?w = "concat (map nsd_chunk (pieces (bd_data (rs_body r)))) @ last_chunk @ crlf"
  have v: "hvalues ?h k = hvalues (response_header (ps_ctx s) r) k" for k
    by (rule copy_headers_values) (use assms(6,7) header_wf_response_header in auto)
  have "hget ?h ''content-length'' = []"
    using v [of "''content-length''"] response_header_no_length [OF assms(6,8,9)] by (simp add: hget_def)
  moreover have "fst (fst (read_all (rs_body r))) = bd_data (rs_body r)"
    using assms(10) by (simp add: read_all_open)
  ultimately obtain s1 where "forward_response hs s = thn (dispatch_done_handlers hs) (ret None) s1"
    "tc_sent (nt_conns (ps_net s1) (ns_conn (ps_nsd s))) =
      tc_sent (nt_conns (ps_net s) (ns_conn (ps_nsd s))) @ response_head (rs_code r) ?h @ ?w"
    "net_frame (ns_conn (ps_nsd s)) (ps_net s) (ns_conn (ps_nsd s), ps_net s1)"
    "ps_proxy s1 = ps_proxy s" "cx_trace (ps_ctx s1) = cx_trace (ps_ctx s)"
    using forward_response_sends [OF assms(1-5) refl refl, of hs] by auto
  moreover have "dechunk ?w = Some (bd_data (rs_body r), crlf)" by (rule dechunk_pieces)
  ultimately show ?thesis using v by blast
qed

section \<open>Properties\<close>

text \<open>
  \<open>ForwardConnect\<close> to a destination that answers joins exactly the client and that
  destination, after at most one greeting to the client, and leaves both closed, whatever the
  fitter and the two connections do.
\<close>

theorem forward_connect_joins:
  assumes "cx_conn (ps_ctx s) = Some r"
    and "connect_dial_context env (ps_proxy s) (dns_bypass (ps_ctx s)) ''tcp'' (cx_host (ps_ctx s)) (ps_net s)
         = (Inr t, n1)"
  shows "\<exists>s' n2. forward_connect env s = (Val None, s') \<and> ps_ctx s' = ps_ctx s \<and>
    ps_net s' = snd (conn_close t (snd (conn_close r (ev_fit env r t (log_event (EvFit r t) n2))))) \<and>
    n2 = (case greeting (ps_ctx s) of None \<Rightarrow> n1 | Some g \<Rightarrow> snd (conn_write r g n1)) \<and>
    tc_closed (conn_of r (ps_net s')) \<and> tc_closed (conn_of t (ps_net s'))"
  using forward_connect_dialled [OF assms] both_closed by simp

theorem forward_connect_joins_witness:
  "\<exists>s'. forward_connect example_env example_pst = (Val None, s') \<and>
     tc_closed (conn_of (TcpRef 0) (ps_net s')) \<and> tc_closed (conn_of (TcpRef 7) (ps_net s'))"
proof -
  have d: "connect_dial_context example_env (ps_proxy example_pst) (dns_bypass (ps_ctx example_pst)) ''tcp''
      (cx_host (ps_ctx example_pst)) (ps_net example_pst) =
      (Inr (TcpRef 7), log_event (EvDial ''a.com:443'') (ps_net example_pst))"
    by (simp add: connect_dial_context_def dial_context_def Let_def example_pst_def example_ctx_def
        example_proxy_def example_env_def)
  have "cx_conn (ps_ctx example_pst) = Some (TcpRef 0)" by (simp add: example_pst_def example_ctx_def)
  from forward_connect_joins [OF this d] show ?thesis by blast
qed

text \<open>
  C9. A client that speaks TLS gets no clear text from \<open>ForwardConnect\<close>: where the dial fails,
  its connection is closed with nothing written to it; where it succeeds, the proxy hands the
  connection to the fitter exactly as the dial left it.
\<close>

theorem tls_client_no_cleartext:
  assumes "cx_conn (ps_ctx s) = Some r" "cx_is_secure (ps_ctx s)" "cx_sniffed_tls (ps_ctx s)"
  shows "case connect_dial_context env (ps_proxy s) (dns_bypass (ps_ctx s)) ''tcp'' (cx_host (ps_ctx s)) (ps_net s)
    of (Inl e, n1) \<Rightarrow> forward_connect env s = (Val (Some e), s\<lparr>ps_net := snd (conn_close r n1)\<rparr>)
     | (Inr t, n1) \<Rightarrow> forward_connect env s = (Val None, s\<lparr>ps_net := snd (conn_close t (snd (conn_close r
         (ev_fit env r t (log_event (EvFit r t) n1)))))\<rparr>)"
proof -
  let ?d = "connect_dial_context env (ps_proxy s) (dns_bypass (ps_ctx s)) ''tcp'' (cx_host (ps_ctx s)) (ps_net s)"
  obtain x n1 where d: "?d = (x, n1)" by (metis prod.collapse)
  show ?thesis
  proof (cases x)
    case (Inl e)
    have "http_error (s\<lparr>ps_net := n1\<rparr>) = (Val (), s\<lparr>ps_net := snd (conn_close r n1)\<rparr>)"
      using assms by (simp add: http_error_def bnd_apply thn_def get_ctx_def gets_def ret_def client_close_some)
    then show ?thesis using d Inl forward_connect_failed [of env s e n1] by simp
  next
    case (Inr t)
    then show ?thesis using d forward_connect_dialled [OF assms(1), of env t n1] assms(2)
      by (simp add: greeting_def)
  qed
qed

definition example_tls :: pst where
  "example_tls = example_pst\<lparr>ps_ctx := example_ctx\<lparr>cx_is_secure := True, cx_sniffed_tls := True\<rparr>\<rparr>"

theorem tls_client_no_cleartext_witness:
  "\<exists>s'. forward_connect example_env example_tls = (Val None, s') \<and> tc_sent (nt_conns (ps_net s') 0) = []"
proof -
  have f: "cx_conn (ps_ctx example_tls) = Some (TcpRef 0)" "cx_is_secure (ps_ctx example_tls)"
    "cx_sniffed_tls (ps_ctx example_tls)" by (simp_all add: example_tls_def example_ctx_def)
  have d: "connect_dial_context example_env (ps_proxy example_tls) (dns_bypass (ps_ctx example_tls)) ''tcp''
      (cx_host (ps_ctx example_tls)) (ps_net example_tls) =
      (Inr (TcpRef 7), log_event (EvDial ''a.com:443'') (ps_net example_tls))"
    by (simp add: connect_dial_context_def dial_context_def Let_def example_tls_def example_pst_def
        example_ctx_def example_proxy_def example_env_def)
  obtain s' where "forward_connect example_env example_tls = (Val None, s')"
    "ps_net s' = snd (conn_close (TcpRef 7) (snd (conn_close (TcpRef 0) (ev_fit example_env (TcpRef 0) (TcpRef 7)
       (log_event (EvFit (TcpRef 0) (TcpRef 7)) (log_event (EvDial ''a.com:443'') (ps_net example_tls)))))))"
    using tls_client_no_cleartext [OF f, of example_env] unfolding d by simp
  then show ?thesis
    by (simp del: conn_close.simps) (simp add: example_tls_def example_pst_def)
qed

text \<open>
  \<open>ForwardRequest\<close> replays the client's bytes to the destination unchanged, and then joins
  the connections, provided the request holds no percent sign.
\<close>

theorem forward_request_replays:
  assumes "cx_conn (ps_ctx s) = Some r" "\<not> cx_is_secure (ps_ctx s)"
    and "connect_dial_context env (ps_proxy s) (dns_bypass (ps_ctx s)) ''tcp'' (cx_host (ps_ctx s)) (ps_net s)
         = (Inr t, n1)"
    and "plain_ref t" "conn_open (conn_of t n1)" "percent \<notin> set (cx_non_http_request (ps_ctx s))"
  shows "\<exists>n2. tc_sent (conn_of t n2) = tc_sent (conn_of t n1) @ cx_non_http_request (ps_ctx s) \<and>
    forward_request env host s = (Val None, s\<lparr>ps_net := snd (conn_close t (snd (conn_close r
      (ev_fit env r t (log_event (EvFit r t) n2)))))\<rparr>)"
proof -
  obtain n2 where n2: "conn_write t (cx_non_http_request (ps_ctx s)) n1 =
      ((length (cx_non_http_request (ps_ctx s)), None), n2)"
    "tc_sent (conn_of t n2) = tc_sent (conn_of t n1) @ cx_non_http_request (ps_ctx s)"
    using conn_write_open [OF assms(4,5)] by blast
  then have "conn_write t (sprintf0 (cx_non_http_request (ps_ctx s))) n1 =
      ((length (cx_non_http_request (ps_ctx s)), None), n2)"
    using assms(6) by (simp add: sprintf0_plain)
  from forward_request_dialled [OF assms(1-3) this] n2(2) show ?thesis by blast
qed

lemma example_dial:
  "connect_dial_context example_env (ps_proxy example_pst) (dns_bypass (ps_ctx example_pst)) ''tcp''
      (cx_host (ps_ctx example_pst)) (ps_net example_pst) =
      (Inr (TcpRef 7), log_event (EvDial ''a.com:443'') (ps_net example_pst))"
  by (simp add: connect_dial_context_def dial_context_def Let_def example_pst_def example_ctx_def
      example_proxy_def example_env_def)

lemma example_fields:
  "cx_conn (ps_ctx example_pst) = Some (TcpRef 0)" "\<not> cx_is_secure (ps_ctx example_pst)"
  "cx_non_http_request (ps_ctx example_pst) = ''GET / HTTP/1.1'' @ crlf @ crlf"
  by (simp_all add: example_pst_def example_ctx_def)

theorem forward_request_replays_witness:
  "\<exists>s'. forward_request example_env [] example_pst = (Val None, s') \<and>
     tc_sent (nt_conns (ps_net s') 7) = ''GET / HTTP/1.1'' @ crlf @ crlf"
proof -
  have c: "conn_of (TcpRef 7) (log_event (EvDial ''a.com:443'') (ps_net example_pst)) = fresh_conn"
    by (simp add: conn_of_def example_pst_def)
  have p: "percent \<notin> set (cx_non_http_request (ps_ctx example_pst))"
    by (simp add: example_fields percent_def crlf_def)
  have o: "conn_open (conn_of (TcpRef 7) (log_event (EvDial ''a.com:443'') (ps_net example_pst)))"
    by (simp add: c)
  obtain n2 where "tc_sent (conn_of (TcpRef 7) n2) = ''GET / HTTP/1.1'' @ crlf @ crlf"
    "forward_request example_env [] example_pst = (Val None, example_pst\<lparr>ps_net :=
       snd (conn_close (TcpRef 7) (snd (conn_close (TcpRef 0)
      (ev_fit example_env (TcpRef 0) (TcpRef 7) (log_event (EvFit (TcpRef 0) (TcpRef 7)) n2)))))\<rparr>)"
    using forward_request_replays [OF example_fields(1,2) example_dial _ o p, of "[]"] c
    by (auto simp: example_fields)
  then show ?thesis by (simp add: conn_of_def del: conn_close.simps)
qed

text \<open>
  A request with a percent escape reaches the destination corrupted: the bytes are the
  format of \<open>fmt.Fprintf\<close>, so \<open>%2F\<close> in a URL arrives as \<open>%!F(MISSING)\<close>.
\<close>

theorem forward_request_corrupts:
  assumes "cx_conn (ps_ctx s) = Some r" "\<not> cx_is_secure (ps_ctx s)"
    and "connect_dial_context env (ps_proxy s) (dns_bypass (ps_ctx s)) ''tcp'' (cx_host (ps_ctx s)) (ps_net s)
         = (Inr t, n1)"
    and "plain_ref t" "conn_open (conn_of t n1)"
    and "cx_non_http_request (ps_ctx s) = u @ percent # d # c # v" "percent \<notin> set u" "percent \<notin> set v"
    and "is_digit d" "d \<noteq> CHR ''0''" "is_upper c"
  shows "\<exists>n2. tc_sent (conn_of t n2) = tc_sent (conn_of t n1) @ u @ ''%!'' @ c # ''(MISSING)'' @ v \<and>
    forward_request env host s = (Val None, s\<lparr>ps_net := snd (conn_close t (snd (conn_close r
      (ev_fit env r t (log_event (EvFit r t) n2)))))\<rparr>)"
proof -
  have f: "sprintf0 (cx_non_http_request (ps_ctx s)) = u @ ''%!'' @ c # ''(MISSING)'' @ v"
    using sprintf0_escape [of u d c v] assms(6-) by simp
  obtain n2 where n2: "conn_write t (sprintf0 (cx_non_http_request (ps_ctx s))) n1 =
      ((length (sprintf0 (cx_non_http_request (ps_ctx s))), None), n2)"
    "tc_sent (conn_of t n2) = tc_sent (conn_of t n1) @ sprintf0 (cx_non_http_request (ps_ctx s))"
    using conn_write_open [OF assms(4,5)] by blast
  from forward_request_dialled [OF assms(1-3) n2(1)] n2(2) f show ?thesis by auto
qed

definition example_escape :: pst where
  "example_escape = example_pst\<lparr>ps_ctx := example_ctx\<lparr>cx_non_http_request := ''GET /a%2Fb HTTP/1.1''\<rparr>\<rparr>"

theorem forward_request_corrupts_witness:
  "\<exists>s'. forward_request example_env [] example_escape = (Val None, s') \<and>
     tc_sent (nt_conns (ps_net s') 7) = ''GET /a%!F(MISSING)b HTTP/1.1''"
proof -
  have "\<exists>n2. tc_sent (conn_of (TcpRef 7) n2) =
      tc_sent (conn_of (TcpRef 7) (log_event (EvDial ''a.com:443'') (ps_net example_pst))) @
      ''GET /a'' @ ''%!'' @ CHR ''F'' # ''(MISSING)'' @ ''b HTTP/1.1'' \<and>
    forward_request example_env [] example_escape = (Val None, example_escape\<lparr>ps_net :=
      snd (conn_close (TcpRef 7) (snd (conn_close (TcpRef 0)
      (ev_fit example_env (TcpRef 0) (TcpRef 7) (log_event (EvFit (TcpRef 0) (TcpRef 7)) n2)))))\<rparr>)"
    by (rule forward_request_corrupts [where d = "CHR ''2''"])
      (use example_dial in \<open>simp_all add: example_escape_def example_pst_def example_ctx_def conn_of_def
         percent_def is_digit_def is_upper_def dns_bypass_def\<close>)
  then obtain n2 where n2: "tc_sent (nt_conns n2 7) = ''GET /a%!F(MISSING)b HTTP/1.1''"
    "forward_request example_env [] example_escape = (Val None, example_escape\<lparr>ps_net :=
      snd (conn_close (TcpRef 7) (snd (conn_close (TcpRef 0) (log_event (EvFit (TcpRef 0) (TcpRef 7)) n2))))\<rparr>)"
    by (auto simp: conn_of_def example_pst_def simp del: conn_close.simps)
  then show ?thesis by (simp del: conn_close.simps)
qed


definition example_blocked :: pst where
  "example_blocked = example_pst\<lparr>ps_ctx := new_empty_script example_ctx\<rparr>"


end
