(* ===== verification/Round_Trip.thy ===== *)
theory Round_Trip
  imports Ctx_Ops
begin

text \<open>
  \<open>roundtripper.go\<close>, the request copies of \<open>harlog.go\<close>, and \<open>ForwardHTTPRequest\<close> (\<open>ctx.go\<close>): how a
  request that is not tunnelled is sent, over which transport, and what the context remembers of it.
  A transport answers through \<open>ev_transport\<close>; what it is told through the request's
  \<open>context.Context\<close> is the \<open>dial_ctx\<close>, and the flag of \<open>ShadowNetworkFailure\<close> comes back with the
  answer.
\<close>

section \<open>Copies for the HAR log\<close>

text \<open>
  \<open>copyReadCloser\<close>: the body is read to its end into two buffers. An error of the read is dropped,
  and so is the body, which is not closed. The two new bodies get the identities given.
\<close>

definition copy_read_closer :: "nat \<Rightarrow> body \<Rightarrow> body \<times> body" where
  "copy_read_closer i b =
     (let d = fst (fst (read_all b))
      in ((nop_body d)\<lparr>bd_id := i\<rparr>, (nop_body d)\<lparr>bd_id := i + 1\<rparr>))"

text \<open>Two fresh identities for bodies.\<close>

definition fresh_bodies :: "(pst, nat) go" where
  "fresh_bodies = bnd (gets ps_next_body) (\<lambda>i. thn (modify (\<lambda>s. s\<lparr>ps_next_body := i + 2\<rparr>)) (ret i))"

definition copy_req :: "http_request \<Rightarrow> (pst, http_request \<times> http_request) go" where
  "copy_req rq = (case rq_body rq of
     None \<Rightarrow> gopanic nil_deref
   | Some b \<Rightarrow> bnd fresh_bodies (\<lambda>i. case copy_read_closer i b of (b1, b2) \<Rightarrow>
       thn (upd_ctx (\<lambda>c. c\<lparr>cx_req := rq\<lparr>rq_body := Some b1\<rparr>\<rparr>))
       (ret (rq\<lparr>rq_body := Some b1\<rparr>, rq\<lparr>rq_body := Some b2\<rparr>))))"

definition copy_resp :: "http_response \<Rightarrow> (pst, http_response \<times> http_response) go" where
  "copy_resp r = bnd fresh_bodies (\<lambda>i. case copy_read_closer i (rs_body r) of (b1, b2) \<Rightarrow>
     ret (r\<lparr>rs_body := b1\<rparr>, r\<lparr>rs_body := b2\<rparr>))"

text \<open>\<open>LogToHARFile\<close>: the aggregator is started once.\<close>

definition log_to_har_file :: "bool \<Rightarrow> handler" where
  "log_to_har_file capture =
     thn (modify (\<lambda>s. s\<lparr>ps_proxy := (ps_proxy s)\<lparr>px_har_running := True\<rparr>\<rparr>))
     (thn (upd_ctx (\<lambda>c. c\<lparr>cx_log_enabled := True, cx_log_content := capture\<rparr>)) (ret NEXT))"

section \<open>Round trippers\<close>

type_synonym trip = "http_response option \<times> goerr option \<times> bool"

definition tracing :: "ctx \<Rightarrow> bool" where
  "tracing c \<longleftrightarrow> tr_modified (cx_trace c) \<or> tr_unmodified (cx_trace c)"

text \<open>
  The closure of \<open>wrapTransport\<close>. While tracing, the status code is read from the response before
  the error is looked at.
\<close>

definition wrapped_trip :: "env \<Rightarrow> transport_choice \<Rightarrow> dial_ctx \<Rightarrow> http_request \<Rightarrow> (pst, trip) go" where
  "wrapped_trip env tr dc rq = bnd (on_net (ev_transport env tr dc rq)) (\<lambda>(resp, err, failed).
     bnd (get_ctx id) (\<lambda>c.
       thn (if tracing c then
              (case (resp, cx_trace_info c) of
                 (Some r, Some i) \<Rightarrow> upd_ctx (\<lambda>c. c\<lparr>cx_trace_info := Some (i\<lparr>ti_status := rs_code r\<rparr>)\<rparr>)
               | _ \<Rightarrow> gopanic nil_deref)
            else ret ())
       (if cx_private c \<and> cx_shadow c \<noteq> None \<and> err \<noteq> None \<and> resp \<noteq> None
        then thn (upd_ctx (\<lambda>c. c\<lparr>cx_private := False\<rparr>)) (ret (resp, None, failed))
        else ret (resp, err, failed))))"

text \<open>The closure of \<open>TunnelHTTP\<close>: the request goes through the connection that was dialled.\<close>

definition tunnel_trip :: "env \<Rightarrow> http_request \<Rightarrow> (pst, trip) go" where
  "tunnel_trip env rq = bnd (get_ctx cx_target_conn) (\<lambda>t.
     bnd (on_conn t (\<lambda>r. conn_write r (ev_request_text env rq))) (\<lambda>(_, werr).
       case werr of
         Some e \<Rightarrow> thn http_error (ret (None, Some e, False))
       | None \<Rightarrow> bnd (on_conn t (\<lambda>r. ev_read_response env r rq)) (\<lambda>res.
           case res of
             Inl e \<Rightarrow> thn http_error (ret (None, Some e, False))
           | Inr resp \<Rightarrow> ret (Some resp, None, False))))"

definition run_tripper :: "env \<Rightarrow> dial_ctx \<Rightarrow> http_request \<Rightarrow> (pst, trip) go" where
  "run_tripper env dc rq = bnd (get_ctx cx_round_tripper) (\<lambda>rt. case rt of
     None \<Rightarrow> gopanic nil_deref
   | Some (WrappedTransport tr) \<Rightarrow> wrapped_trip env tr dc rq
   | Some TunnelTripper \<Rightarrow> tunnel_trip env rq
   | Some (CustomTripper k) \<Rightarrow> on_net (ev_custom_trip env k dc rq))"

text \<open>
  \<open>_roundTripWithLog\<close>: with logging, the request that is sent is \<open>ctx.Req\<close>, whose context is the
  background, not the request that was passed.
\<close>

definition round_trip_with_log :: "env \<Rightarrow> dial_ctx \<Rightarrow> http_request \<Rightarrow> (pst, trip) go" where
  "round_trip_with_log env dc rq = bnd (get_ctx id) (\<lambda>c.
     if cx_log_enabled c then
       bnd (gets ps_now) (\<lambda>start.
       bnd (if cx_log_content c \<and> rq_clen (cx_req c) > 0 then copy_req (cx_req c)
            else ret (cx_req c, cx_req c)) (\<lambda>(req, logged_req).
       bnd (run_tripper env background req) (\<lambda>(resp, err, failed).
       bnd (case resp of
              Some r \<Rightarrow> (if cx_log_content c \<and> rs_clen r \<noteq> 0
                        then bnd (copy_resp r) (\<lambda>(r1, r2). ret (Some r1, Some r2))
                        else ret (Some r, Some r))
            | None \<Rightarrow> ret (None, None)) (\<lambda>(resp1, logged_resp).
       bnd (gets ps_now) (\<lambda>stop.
       thn (modify (\<lambda>s. s\<lparr>ps_proxy := (ps_proxy s)\<lparr>px_har_queue := px_har_queue (ps_proxy s) @
              [\<lparr>hp_req = logged_req, hp_start = start, hp_resp = logged_resp, hp_end = stop,
                hp_content = cx_log_content c\<rparr>]\<rparr>\<rparr>))
       (ret (resp1, err, failed)))))))
     else run_tripper env dc rq)"

text \<open>The choice of a transport in \<open>RoundTrip\<close>, which also changes the request and the context.\<close>

definition choose_transport ::
  "env \<Rightarrow> dial_ctx \<Rightarrow> http_request \<Rightarrow> (pst, transport_choice \<times> dial_ctx \<times> http_request) go" where
  "choose_transport env dc rq = bnd (get_ctx id) (\<lambda>c. bnd (gets ps_proxy) (\<lambda>px.
     if cx_fake_dns c \<noteq> [] then
       (case rq_url rq of
          None \<Rightarrow> gopanic nil_deref
        | Some u \<Rightarrow> ret (FakeDnsTransport (hd (split_byte (cx_host c) (CHR '':''))), dc,
                         rq\<lparr>rq_url := Some (u\<lparr>u_host := cx_fake_dns c\<rparr>)\<rparr>))
     else if cx_private c \<and> px_private_network px then
       (case rq_url rq of
          None \<Rightarrow> gopanic nil_deref
        | Some u \<Rightarrow>
           (let sh = ev_shadow_transport env (u_host u) in
            thn (upd_ctx (\<lambda>c. c\<lparr>cx_shadow := sh\<rparr>))
            (case sh of
               None \<Rightarrow> thn (upd_ctx (\<lambda>c. c\<lparr>cx_private := False\<rparr>)) (ret (ProxyTransport, dc, rq))
             | Some k \<Rightarrow> ret (ShadowTransport k, dc\<lparr>dc_shadow := Some k\<rparr>, rq))))
     else thn (upd_ctx (\<lambda>c. c\<lparr>cx_private := False\<rparr>)) (ret (ProxyTransport, dc, rq))))"

definition flush_idle :: "(pst, unit) go" where
  "flush_idle = modify (\<lambda>s. let px = ps_proxy s in
     if px_flush_idle px
     then s\<lparr>ps_proxy := px\<lparr>px_idle_flushes := px_idle_flushes px + 1, px_flush_idle := False\<rparr>\<rparr>
     else s)"

definition round_trip :: "env \<Rightarrow> dial_ctx \<Rightarrow> http_request \<Rightarrow> (pst, trip) go" where
  "round_trip env dc rq = bnd (get_ctx cx_round_tripper) (\<lambda>rt.
     bnd (if rt = None then
            bnd (choose_transport env dc rq) (\<lambda>(tr, dc1, rq1).
              thn flush_idle
              (thn (upd_ctx (\<lambda>c. c\<lparr>cx_round_tripper := Some (WrappedTransport tr)\<rparr>))
              (ret (dc1, rq1))))
          else ret (dc, rq)) (\<lambda>(dc1, rq1).
       round_trip_with_log env dc1 rq1))"

section \<open>ForwardHTTPRequest\<close>

definition http_bypass :: "ctx \<Rightarrow> dial_ctx" where
  "http_bypass c =
     (if cx_whitelisted c then background\<lparr>dc_upstream := True, dc_report_failure := True\<rparr>
      else if cx_private c then background\<lparr>dc_private := True, dc_report_failure := True\<rparr>
      else background\<lparr>dc_report_failure := True\<rparr>)"

definition forward_http_request :: "env \<Rightarrow> string \<Rightarrow> (pst, goerr option) go" where
  "forward_http_request env host = bnd (get_ctx http_bypass) (\<lambda>dc.
     thn (upd_ctx remove_proxy_headers)
     (bnd (get_ctx cx_req) (\<lambda>rq.
      bnd (round_trip env dc rq) (\<lambda>(resp, err, failed).
      bnd (get_ctx id) (\<lambda>c.
      thn (case err of
             Some e \<Rightarrow> (if tracing c then
                 (case cx_trace_info c of
                    None \<Rightarrow> gopanic nil_deref
                  | Some i \<Rightarrow> upd_ctx (\<lambda>c. c\<lparr>cx_trace_info := Some (i\<lparr>ti_round_trip_error := error_text e\<rparr>)\<rparr>))
               else ret ())
           | None \<Rightarrow> ret ())
      (thn (upd_ctx (\<lambda>c. c\<lparr>cx_private := (if failed then False else cx_private c), cx_resp := resp\<rparr>))
      (case err of
         Some e \<Rightarrow> thn (upd_ctx (\<lambda>c. c\<lparr>cx_resp_error := Some e\<rparr>)) (ret (Some e))
       | None \<Rightarrow> (case resp of
           None \<Rightarrow> gopanic nil_deref
         | Some r \<Rightarrow> thn (upd_ctx (\<lambda>c. c\<lparr>cx_original_body := Some (bd_id (rs_body r)), cx_resp_error := None\<rparr>))
                        (ret None)))))))))"

section \<open>Facts\<close>

text \<open>An effect that keeps a property of the context on every value it returns.\<close>

definition keeps :: "(ctx \<Rightarrow> bool) \<Rightarrow> (pst, 'a) go \<Rightarrow> bool" where
  "keeps P m \<longleftrightarrow> (\<forall>s x s'. P (ps_ctx s) \<longrightarrow> m s = (Val x, s') \<longrightarrow> P (ps_ctx s'))"

named_theorems keeps_intros "rules for effects that keep a property of the context"

lemma keeps_ret [keeps_intros]: "keeps P (ret x)"
  by (simp add: keeps_def go_defs)

lemma keeps_gopanic [keeps_intros]: "keeps P (gopanic m)"
  by (simp add: keeps_def go_defs)

lemma keeps_gets [keeps_intros]: "keeps P (gets f)" "keeps P (get_ctx g)"
  by (simp_all add: keeps_def go_defs)

lemma keeps_bnd [keeps_intros]: "keeps P m \<Longrightarrow> (\<And>x. keeps P (f x)) \<Longrightarrow> keeps P (bnd m f)"
  unfolding keeps_def
proof (intro allI impI)
  fix s x s'
  assume m: "\<forall>s x s'. P (ps_ctx s) \<longrightarrow> m s = (Val x, s') \<longrightarrow> P (ps_ctx s')"
    and f: "\<And>x. \<forall>s y s'. P (ps_ctx s) \<longrightarrow> f x s = (Val y, s') \<longrightarrow> P (ps_ctx s')"
    and "P (ps_ctx s)" "bnd m f s = (Val x, s')"
  moreover from this(4) obtain y s1 where "m s = (Val y, s1)" "f y s1 = (Val x, s')"
    by (auto simp: bnd_apply split: prod.splits gores.splits)
  ultimately show "P (ps_ctx s')" by blast
qed

lemma keeps_thn [keeps_intros]: "keeps P m \<Longrightarrow> keeps P k \<Longrightarrow> keeps P (thn m k)"
  by (simp add: thn_def keeps_bnd)

lemma keeps_on_net [keeps_intros]: "keeps P (on_net f)"
  by (auto simp: keeps_def go_defs split: prod.splits)

lemma keeps_on_conn [keeps_intros]: "keeps P (on_conn c f)"
  by (auto simp: on_conn_def intro!: keeps_intros split: option.split)

lemma keeps_if [keeps_intros]: "keeps P m \<Longrightarrow> keeps P k \<Longrightarrow> keeps P (if b then m else k)"
  by simp

lemma keeps_option [keeps_intros]:
  "keeps P m \<Longrightarrow> (\<And>x. keeps P (f x)) \<Longrightarrow> keeps P (case v of None \<Rightarrow> m | Some x \<Rightarrow> f x)"
  by (cases v) auto

lemma keeps_prod [keeps_intros]: "(\<And>x y. keeps P (f x y)) \<Longrightarrow> keeps P (case v of (x, y) \<Rightarrow> f x y)"
  by (cases v) auto

lemma keeps_sum [keeps_intros]:
  "(\<And>x. keeps P (f x)) \<Longrightarrow> (\<And>x. keeps P (g x)) \<Longrightarrow> keeps P (case v of Inl x \<Rightarrow> f x | Inr x \<Rightarrow> g x)"
  by (cases v) auto

lemma keeps_upd_ctx: "(\<And>c. P c \<Longrightarrow> P (f c)) \<Longrightarrow> keeps P (upd_ctx f)"
  by (auto simp: keeps_def go_defs)

lemma keeps_modify: "(\<And>s. ps_ctx (f s) = ps_ctx s) \<Longrightarrow> keeps P (modify f)"
  by (auto simp: keeps_def go_defs)

lemma keepsD: "keeps P m \<Longrightarrow> m s = (Val x, s') \<Longrightarrow> P (ps_ctx s) \<Longrightarrow> P (ps_ctx s')"
  unfolding keeps_def by blast

text \<open>The cloaking report: which round tripper there is, and on what condition the context may be private.\<close>

definition cloaked_by :: "round_tripper option \<Rightarrow> bool \<Rightarrow> ctx \<Rightarrow> bool" where
  "cloaked_by rt b c \<longleftrightarrow> cx_round_tripper c = rt \<and> (cx_private c \<longrightarrow> b)"

lemma keeps_http_error [keeps_intros]: "keeps P http_error"
  unfolding http_error_def client_write_def client_close_def by (intro keeps_intros)

lemma keeps_wrapped_trip: "keeps (cloaked_by rt b) (wrapped_trip env tr dc rq)"
  unfolding wrapped_trip_def
  by (auto intro!: keeps_intros keeps_upd_ctx simp: cloaked_by_def split: option.split)

lemma keeps_run_tripper: "keeps (cloaked_by rt b) (run_tripper env dc rq)"
  unfolding run_tripper_def tunnel_trip_def
  by (auto intro!: keeps_intros keeps_wrapped_trip split: option.split round_tripper.split)

lemma keeps_fresh_bodies [keeps_intros]: "keeps P fresh_bodies"
  unfolding fresh_bodies_def by (intro keeps_intros keeps_modify) simp

lemma keeps_copies: "keeps (cloaked_by rt b) (copy_req rq)" "keeps P (copy_resp r)"
  unfolding copy_req_def copy_resp_def
  by (auto intro!: keeps_intros keeps_upd_ctx simp: cloaked_by_def)

lemma keeps_round_trip_with_log: "keeps (cloaked_by rt b) (round_trip_with_log env dc rq)"
  unfolding round_trip_with_log_def
  by (intro keeps_intros keeps_run_tripper keeps_copies keeps_modify) simp

section \<open>Properties\<close>

text \<open>
  C33. What a context reports as private: after a round trip that returns, whatever the transports answered, it is private
  only if it was before, and then it was sent by the round tripper that was there already (a tunnel or the
  application's own), over the transport for the fake destination where one is set, and otherwise, in every case, over
  a transport of the private network. The case of a fake destination is no private transport
  (\<open>fake_destination_reported_private\<close>).
\<close>

theorem round_trip_cloak_honest:
  assumes "round_trip env dc rq s = (Val (resp, err, failed), s')"
  shows "cx_private (ps_ctx s') \<longrightarrow> cx_private (ps_ctx s) \<and>
    (if cx_round_tripper (ps_ctx s) \<noteq> None then cx_round_tripper (ps_ctx s') = cx_round_tripper (ps_ctx s)
     else if cx_fake_dns (ps_ctx s) \<noteq> []
     then \<exists>name. cx_round_tripper (ps_ctx s') = Some (WrappedTransport (FakeDnsTransport name))
     else px_private_network (ps_proxy s) \<and>
       (\<exists>k. cx_round_tripper (ps_ctx s') = Some (WrappedTransport (ShadowTransport k))))"
proof (cases "cx_round_tripper (ps_ctx s)")
  case (Some rt)
  have "round_trip_with_log env dc rq s = (Val (resp, err, failed), s')"
    using assms Some by (simp add: round_trip_def bnd_apply get_ctx_def gets_def ret_def)
  from keepsD [OF keeps_round_trip_with_log this, of "Some rt" "cx_private (ps_ctx s)"] Some
  show ?thesis by (simp add: cloaked_by_def)
next
  case None
  let ?pre = "bnd (choose_transport env dc rq) (\<lambda>(tr, dc1, rq1). thn flush_idle
    (thn (upd_ctx (\<lambda>c. c\<lparr>cx_round_tripper := Some (WrappedTransport tr)\<rparr>)) (ret (dc1, rq1))))"
  obtain p s1 where pre: "?pre s = (Val p, s1)"
    and post: "round_trip_with_log env (fst p) (snd p) s1 = (Val (resp, err, failed), s')"
    using assms None
    by (auto simp: round_trip_def bnd_apply get_ctx_def gets_def split: prod.splits gores.splits)
  have chosen: "cx_private (ps_ctx s1) \<longrightarrow> cx_private (ps_ctx s) \<and>
    (if cx_fake_dns (ps_ctx s) \<noteq> []
     then \<exists>name. cx_round_tripper (ps_ctx s1) = Some (WrappedTransport (FakeDnsTransport name))
     else px_private_network (ps_proxy s) \<and>
       (\<exists>k. cx_round_tripper (ps_ctx s1) = Some (WrappedTransport (ShadowTransport k))))"
    using pre
    by (auto simp: choose_transport_def flush_idle_def go_defs Let_def split: if_splits option.splits)
  have "cloaked_by (cx_round_tripper (ps_ctx s1)) (cx_private (ps_ctx s1)) (ps_ctx s')"
    by (rule keepsD [OF keeps_round_trip_with_log post]) (simp add: cloaked_by_def)
  then show ?thesis using chosen None by (simp add: cloaked_by_def)
qed

definition example_private :: pst where
  "example_private = example_pst\<lparr>ps_ctx := example_ctx\<lparr>cx_private := True\<rparr>,
     ps_proxy := example_proxy\<lparr>px_private_network := True\<rparr>\<rparr>"

definition example_shadow_env :: env where
  "example_shadow_env = example_env\<lparr>ev_shadow_transport := \<lambda>a. Some 3\<rparr>"

theorem round_trip_cloak_honest_witness:
  "\<exists>t s'. round_trip example_shadow_env background (cx_req example_ctx) example_private = (Val t, s') \<and>
     cx_private (ps_ctx s') \<and>
     (\<exists>k. cx_round_tripper (ps_ctx s') = Some (WrappedTransport (ShadowTransport k)))"
proof -
  have "case round_trip example_shadow_env background (cx_req example_ctx) example_private of
      (Val t, s') \<Rightarrow> cx_private (ps_ctx s') | (Panic e, s') \<Rightarrow> False"
    by (simp add: round_trip_def choose_transport_def flush_idle_def round_trip_with_log_def run_tripper_def
        wrapped_trip_def tracing_def no_trace_def example_private_def example_shadow_env_def example_env_def
        example_pst_def example_ctx_def example_proxy_def go_defs Let_def)
  then obtain resp err failed s' where t: "round_trip example_shadow_env background (cx_req example_ctx)
      example_private = (Val (resp, err, failed), s')" and p: "cx_private (ps_ctx s')"
    by (auto split: prod.splits gores.splits)
  have "cx_round_tripper (ps_ctx example_private) = None" "cx_fake_dns (ps_ctx example_private) = []"
    by (simp_all add: example_private_def example_ctx_def)
  with round_trip_cloak_honest [OF t] t p show ?thesis by auto
qed

text \<open>
  With a fake destination the report is wrong: the request goes over a plain transport to that address, and the
  context stays private.
\<close>

theorem fake_destination_reported_private:
  assumes "cx_round_tripper (ps_ctx s) = None" "cx_fake_dns (ps_ctx s) = addr" "addr \<noteq> []" "rq_url rq = Some u"
    and "\<not> cx_log_enabled (ps_ctx s)" "\<not> tracing (ps_ctx s)" "cx_private (ps_ctx s)" "cx_shadow (ps_ctx s) = None"
    and "ev_transport env (FakeDnsTransport (hd (split_byte (cx_host (ps_ctx s)) (CHR '':'')))) dc
      (rq\<lparr>rq_url := Some (u\<lparr>u_host := addr\<rparr>)\<rparr>) (ps_net s) = (t, n)"
  shows "\<exists>s'. round_trip env dc rq s = (Val t, s') \<and> cx_private (ps_ctx s') \<and> cx_shadow (ps_ctx s') = None"
  using assms
  by (cases t) (simp add: round_trip_def choose_transport_def flush_idle_def round_trip_with_log_def run_tripper_def
      wrapped_trip_def tracing_def go_defs Let_def)

theorem fake_destination_reported_private_witness:
  "\<exists>t s'. round_trip example_env background (cx_req example_ctx)
       (example_pst\<lparr>ps_ctx := example_ctx\<lparr>cx_private := True, cx_fake_dns := ''10.0.0.1:443''\<rparr>\<rparr>) = (Val t, s') \<and>
     cx_private (ps_ctx s')"
  using fake_destination_reported_private [of "example_pst\<lparr>ps_ctx := example_ctx\<lparr>cx_private := True,
      cx_fake_dns := ''10.0.0.1:443''\<rparr>\<rparr>" "''10.0.0.1:443''" "cx_req example_ctx" "the (rq_url (cx_req example_ctx))" example_env background]
  by (auto simp: example_ctx_def tracing_def no_trace_def example_env_def)

text \<open>
  HAR logging drops what the request's context carries: with logging on, the transport is
  called with the request of the context and an empty \<open>context.Context\<close>, so a whitelisted request
  no longer bypasses the local DNS, and a fake destination is not used.
\<close>

theorem har_drops_context:
  assumes "cx_log_enabled (ps_ctx s)" "\<not> cx_log_content (ps_ctx s)"
    and "cx_round_tripper (ps_ctx s) = Some (CustomTripper k)"
    and "ev_custom_trip env k background (cx_req (ps_ctx s)) (ps_net s) = (t, n)"
  shows "fst (round_trip_with_log env dc rq s) = Val t"
  using assms
  by (cases t) (simp add: round_trip_with_log_def run_tripper_def go_defs split: option.split)

definition example_logged :: pst where
  "example_logged = example_pst\<lparr>ps_ctx := example_ctx\<lparr>cx_log_enabled := True, cx_round_tripper := Some (CustomTripper 3)\<rparr>\<rparr>"

definition dns_env :: env where
  "dns_env = example_env\<lparr>ev_custom_trip := \<lambda>k c rq n.
     ((None, Some (ErrText (if dc_upstream c then ''upstream'' else ''local'')), False), n)\<rparr>"

theorem har_drops_context_witness:
  "fst (round_trip_with_log dns_env (background\<lparr>dc_upstream := True\<rparr>) empty_request example_logged) =
     Val (None, Some (ErrText ''local''), False)"
  by (rule har_drops_context [where k = 3 and n = "ps_net example_logged"])
    (simp_all add: example_logged_def example_ctx_def dns_env_def background_def)

text \<open>
  Copying a body for the log loses nothing: the body the client gets and the body that is
  logged both hold what the original held.
\<close>

theorem copy_resp_same:
  assumes "\<not> bd_closed (rs_body r)"
  shows "\<exists>r1 r2 s'. copy_resp r s = (Val (r1, r2), s') \<and> bd_data (rs_body r1) = bd_data (rs_body r) \<and>
    bd_data (rs_body r2) = bd_data (rs_body r) \<and> r1\<lparr>rs_body := rs_body r\<rparr> = r \<and>
    bd_id (rs_body r1) \<noteq> bd_id (rs_body r2)"
  using assms
  by (simp add: copy_resp_def fresh_bodies_def copy_read_closer_def read_all_open nop_body_def go_defs Let_def)

end
