(* ===== verification/Dispatch.thy ===== *)
theory Dispatch
  imports Forward Round_Trip Blocked_Page
begin

text \<open>
  The dispatchers (\<open>dispatcher.go\<close>, \<open>DispatchResponseHandlers\<close> and the CONNECT modes of \<open>ctx.go\<close>):
  each runs the registered handlers in order and acts on what they return. A \<open>break\<close> in a case of
  the source leaves the \<open>switch\<close>, so the loop goes on with the next handler.
\<close>

record server =
  sv_connect :: "handler list"
  sv_request :: "handler list"
  sv_response :: "handler list"
  sv_done :: "handler list"

definition empty_server :: server where
  "empty_server = \<lparr>sv_connect = [], sv_request = [], sv_response = [], sv_done = []\<rparr>"

definition handle_connect :: "handler \<Rightarrow> server \<Rightarrow> server" where
  "handle_connect h sv = sv\<lparr>sv_connect := sv_connect sv @ [h]\<rparr>"

definition handle_request :: "handler \<Rightarrow> server \<Rightarrow> server" where
  "handle_request h sv = sv\<lparr>sv_request := sv_request sv @ [h]\<rparr>"

definition handle_response :: "handler \<Rightarrow> server \<Rightarrow> server" where
  "handle_response h sv = sv\<lparr>sv_response := sv_response sv @ [h]\<rparr>"

definition handle_done :: "handler \<Rightarrow> server \<Rightarrow> server" where
  "handle_done h sv = sv\<lparr>sv_done := sv_done sv @ [h]\<rparr>"

definition invalid_next :: "(pst, 'a) go" where
  "invalid_next = gopanic ''Invalid value for Next''"

section \<open>CONNECT requests\<close>

definition hijack :: "(pst, unit) go" where
  "hijack = bnd (get_ctx cx_writer) (\<lambda>w. case w of
     WNsd \<Rightarrow> thn (on_nsd nsd_hijack)
       (modify (\<lambda>s. s\<lparr>ps_ctx := (ps_ctx s)\<lparr>cx_conn := Some (NsdRef (TcpRef (ns_conn (ps_nsd s))))\<rparr>\<rparr>))
   | WDumb r \<Rightarrow> upd_ctx (\<lambda>c. c\<lparr>cx_conn := Some (DumbRef r)\<rparr>))"

fun connect_loop :: "env \<Rightarrow> handler list \<Rightarrow> (pst, unit) go" where
  "connect_loop env [] = thn (forward_connect env) (ret ())"
| "connect_loop env (h # hs) = bnd h (\<lambda>next. case next of
     NEXT \<Rightarrow> connect_loop env hs
   | FORWARD \<Rightarrow> connect_loop env hs
   | MITM \<Rightarrow> connect_loop env hs
   | REJECT \<Rightarrow> reject_connect
   | SIGNATURE \<Rightarrow> ret ()
   | DONE \<Rightarrow> ret ()
   | _ \<Rightarrow> invalid_next)"

definition dispatch_connect_handlers :: "env \<Rightarrow> server \<Rightarrow> (pst, unit) go" where
  "dispatch_connect_handlers env sv = thn hijack (connect_loop env (sv_connect sv))"

section \<open>Responses\<close>

text \<open>The loop over the response handlers: \<open>None\<close> when it returned, else whether one rejected.\<close>

fun response_loop :: "handler list \<Rightarrow> handler list \<Rightarrow> bool \<Rightarrow> (pst, bool option) go" where
  "response_loop dones [] rejected = ret (Some rejected)"
| "response_loop dones (h # hs) rejected = bnd h (\<lambda>next. case next of
     DONE \<Rightarrow> bnd (get_ctx tracing) (\<lambda>t.
       thn (if t then write_response_headers else ret ())
       (thn (dispatch_done_handlers dones) (ret None)))
   | NEXT \<Rightarrow> response_loop dones hs rejected
   | FORWARD \<Rightarrow> response_loop dones hs rejected
   | MITM \<Rightarrow> gopanic ''MITM doesn't make sense when we are already parsing the request''
   | REJECT \<Rightarrow> response_loop dones hs True
   | SIGNATURE \<Rightarrow> response_loop dones hs rejected
   | _ \<Rightarrow> invalid_next)"

text \<open>The answer to a blocked request, by the extension of its path; a nil URL is dereferenced.\<close>

definition blocked_answer :: "int \<Rightarrow> string \<Rightarrow> (pst, unit) go" where
  "blocked_answer status errorcode = bnd (get_ctx id) (\<lambda>c. case rq_url (cx_req c) of
     None \<Rightarrow> gopanic nil_deref
   | Some u \<Rightarrow>
      (let ext = path_ext (u_path u) in
       if ext = ''.js'' then upd_ctx new_empty_script
       else if ext = ''.png'' \<or> ext = ''.gif'' then upd_ctx (new_empty_image ext)
       else upd_ctx (ctx_new_response status ''text/html; charset=utf-8''
              (blocked_page errorcode ''Tracker Blocked'' tracker_text proceed_link))))"

definition no_response_page :: "ctx \<Rightarrow> string" where
  "no_response_page c = (case cx_resp_error c of
     None \<Rightarrow> blocked_page ''504 Blocked by Winston'' ''Tracker Blocked'' tracker_text proceed_link
   | Some e \<Rightarrow>
      (if error_text e = ''x509: certificate signed by unknown authority''
       then blocked_page ''Certificate signed by unknown authority'' ''Website blocked''
         ''The certificate issued by this website was issued by an unknown authority. For your protection, access to this page has been blocked.'' []
       else blocked_page (error_text e) ''Network error''
         ''This error may be temporary. It may resolve itself by refreshing the page.'' []))"

definition dispatch_response_handlers :: "server \<Rightarrow> (pst, goerr option) go" where
  "dispatch_response_handlers sv =
     bnd (response_loop (sv_done sv) (sv_response sv) False) (\<lambda>r. case r of
       None \<Rightarrow> ret None
     | Some rejected \<Rightarrow> bnd (get_ctx id) (\<lambda>c.
         if rejected then thn (blocked_answer 502 ''502.2 Blocked by Winston'') (forward_response (sv_done sv))
         else if cx_resp c = None then
           (case rq_url (cx_req c) of
              None \<Rightarrow> gopanic nil_deref
            | Some u \<Rightarrow> thn (upd_ctx (ctx_new_response 504 ''text/html; charset=utf-8'' (no_response_page c)))
                           (forward_response (sv_done sv)))
         else thn (if tracing c then write_response_headers else ret ()) (forward_response (sv_done sv))))"

section \<open>Requests\<close>

text \<open>The copy of the headers a trace keeps: the last value of each.\<close>

definition original_headers :: "header \<Rightarrow> (string \<times> string) list" where
  "original_headers h = fold (\<lambda>(k, vs) m. fold (\<lambda>v m. AList.update k v m) vs m) h []"

definition copy_original_headers :: "(pst, unit) go" where
  "copy_original_headers = bnd (get_ctx id) (\<lambda>c.
     if tracing c then (case cx_trace_info c of
         None \<Rightarrow> gopanic nil_deref
       | Some i \<Rightarrow> upd_ctx (\<lambda>c. c\<lparr>cx_trace_info :=
           Some (i\<lparr>ti_original_headers := original_headers (rq_header (cx_req c))\<rparr>)\<rparr>))
     else ret ())"

definition send_request :: "env \<Rightarrow> server \<Rightarrow> (pst, unit) go" where
  "send_request env sv = bnd (get_ctx id) (\<lambda>c.
     if cx_tunnel_request c then thn (forward_request env (cx_host c)) (ret ())
     else
       thn copy_original_headers
       (thn (forward_http_request env (cx_host c))
       (thn (dispatch_response_handlers sv) (ret ()))))"

fun request_loop :: "env \<Rightarrow> server \<Rightarrow> handler list \<Rightarrow> (pst, unit) go" where
  "request_loop env sv [] = send_request env sv"
| "request_loop env sv (h # hs) = bnd h (\<lambda>next. case next of
     DONE \<Rightarrow> dispatch_done_handlers (sv_done sv)
   | MOCK \<Rightarrow> thn (dispatch_response_handlers sv) (ret ())
   | NEXT \<Rightarrow> request_loop env sv hs
   | FORWARD \<Rightarrow> bnd (get_ctx cx_resp) (\<lambda>r.
       if r \<noteq> None then thn (forward_response (sv_done sv)) (ret ())
       else request_loop env sv hs)
   | MITM \<Rightarrow> gopanic ''MITM doesn't make sense when we are already parsing the request''
   | REJECT \<Rightarrow> thn (blocked_answer 504 ''504 Blocked by Winston'')
                  (thn (forward_response (sv_done sv)) (ret ()))
   | _ \<Rightarrow> invalid_next)"

definition dispatch_request_handlers :: "env \<Rightarrow> server \<Rightarrow> (pst, unit) go" where
  "dispatch_request_handlers env sv = request_loop env sv (sv_request sv)"

section \<open>What a CONNECT may be turned into\<close>

text \<open>\<open>TunnelHTTP\<close>, \<open>ManInTheMiddleHTTPS\<close> (only its panic is left) and \<open>ManInTheMiddle\<close>.\<close>

definition tunnel_http :: "env \<Rightarrow> server \<Rightarrow> (pst, goerr option) go" where
  "tunnel_http env sv = bnd (get_ctx id) (\<lambda>c.
     thn (if cx_is_secure c \<and> \<not> cx_sniffed_tls c then thn (client_write faux_ok) (ret ()) else ret ())
     (bnd (\<lambda>s. on_net (connect_dial_plain env (ps_proxy s) ''tcp'' (cx_host c)) s) (\<lambda>res.
        case res of
          Inl e \<Rightarrow> ret (Some e)
        | Inr t \<Rightarrow>
            thn (upd_ctx (\<lambda>c. c\<lparr>cx_original_request := Some (cx_req c), cx_target_conn := Some t,
                   cx_round_tripper := Some TunnelTripper, cx_through_tunnel := True\<rparr>))
            (thn (dispatch_request_handlers env sv) (ret None)))))"

definition man_in_the_middle_https :: "(pst, goerr option) go" where
  "man_in_the_middle_https = gopanic ''Stopping for analysis.''"

definition man_in_the_middle :: "env \<Rightarrow> server \<Rightarrow> (pst, goerr option) go" where
  "man_in_the_middle env sv = bnd (get_ctx id) (\<lambda>c. case get_connect_scheme c of
     Panic m \<Rightarrow> gopanic m
   | Val scheme \<Rightarrow>
      (if scheme = ''http'' then thn (dispatch_request_handlers env sv) (ret None)
       else man_in_the_middle_https))"

section \<open>The abstract loop\<close>

text \<open>
  What the three loops promise: the handlers run in order until one gives a verdict that stops the
  loop; then that verdict is acted on, or the default action is taken.
\<close>

fun verdict :: "(next_action \<Rightarrow> bool) \<Rightarrow> handler list \<Rightarrow> (pst, next_action option) go" where
  "verdict stop [] = ret None"
| "verdict stop (h # hs) = bnd h (\<lambda>n. if stop n then ret (Some n) else verdict stop hs)"

lemma bnd_cong_fun: "(\<And>x. f x = g x) \<Longrightarrow> bnd m f = bnd m g"
  by (rule arg_cong [where f = "bnd m"]) auto

text \<open>A handler that answers NEXT where it answered FORWARD or MITM.\<close>

definition demote :: "handler \<Rightarrow> handler" where
  "demote h = bnd h (\<lambda>n. ret (if n = FORWARD \<or> n = MITM then NEXT else n))"

lemma bnd_demote: "bnd (demote h) f = bnd h (\<lambda>n. f (if n = FORWARD \<or> n = MITM then NEXT else n))"
  by (simp add: demote_def bnd_assoc)

lemma connect_loop_demote: "connect_loop env (map demote hs) = connect_loop env hs"
  by (induction hs) (auto simp: bnd_demote intro!: bnd_cong_fun split: next_action.split)

lemma connect_loop_verdict:
  "connect_loop env hs =
     bnd (verdict (\<lambda>n. n \<notin> {NEXT, FORWARD, MITM}) hs) (\<lambda>v. case v of
       None \<Rightarrow> thn (forward_connect env) (ret ())
     | Some REJECT \<Rightarrow> reject_connect
     | Some SIGNATURE \<Rightarrow> ret ()
     | Some DONE \<Rightarrow> ret ()
     | Some _ \<Rightarrow> invalid_next)"
  by (induction hs) (auto simp: bnd_assoc intro!: bnd_cong_fun split: next_action.split)

lemma done_loop_verdict:
  "done_loop hs =
     bnd (verdict (\<lambda>n. n \<notin> {NEXT, FORWARD}) hs) (\<lambda>v. case v of
       None \<Rightarrow> ret ()
     | Some MITM \<Rightarrow> gopanic ''MITM doesn't make sense when we are done''
     | Some REJECT \<Rightarrow> gopanic ''REJECT a response ? then do what, send a 500 back ?''
     | Some _ \<Rightarrow> ret ())"
  by (induction hs) (auto simp: bnd_assoc intro!: bnd_cong_fun split: next_action.split)

section \<open>How often the done handlers are dispatched\<close>

definition done_count :: "pst \<Rightarrow> nat" where
  "done_count s = count_list (nt_events (ps_net s)) EvDone"

text \<open>The context answers over HTTP, not inside a TLS tunnel it has opened.\<close>

definition over_http :: "ctx \<Rightarrow> bool" where
  "over_http c \<longleftrightarrow> \<not> (cx_through_mitm c \<and> cx_is_secure c)"

text \<open>A call that returns has dispatched the done handlers \<open>k\<close> times, and still answers over HTTP.\<close>

definition adds :: "nat \<Rightarrow> (pst, 'a) go \<Rightarrow> bool" where
  "adds k m \<longleftrightarrow> (\<forall>s x s'. over_http (ps_ctx s) \<longrightarrow> m s = (Val x, s') \<longrightarrow>
     over_http (ps_ctx s') \<and> done_count s' = done_count s + k)"

named_theorems adds_intros "rules for the number of dispatches of the done handlers"

lemma addsD:
  "adds k m \<Longrightarrow> m s = (Val x, s') \<Longrightarrow> over_http (ps_ctx s) \<Longrightarrow>
     over_http (ps_ctx s') \<and> done_count s' = done_count s + k"
  unfolding adds_def by blast

lemma adds_ret [adds_intros]: "adds 0 (ret x)"
  by (simp add: adds_def go_defs)

lemma adds_gopanic [adds_intros]: "adds k (gopanic m)"
  by (simp add: adds_def go_defs)

lemma adds_gets [adds_intros]: "adds 0 (gets f)" "adds 0 (get_ctx g)"
  by (simp_all add: adds_def go_defs)

lemma adds_bnd:
  assumes "adds j m" "\<And>x. adds k (f x)"
  shows "adds (j + k) (bnd m f)"
  unfolding adds_def
proof (intro allI impI)
  fix s x s'
  assume s: "over_http (ps_ctx s)" and "bnd m f s = (Val x, s')"
  then obtain y s1 where 1: "m s = (Val y, s1)" and 2: "f y s1 = (Val x, s')"
    by (auto simp: bnd_apply split: prod.splits gores.splits)
  show "over_http (ps_ctx s') \<and> done_count s' = done_count s + (j + k)"
    using addsD [OF assms(1) 1 s] addsD [OF assms(2) 2] by simp
qed

lemma adds_bnd0 [adds_intros]: "adds 0 m \<Longrightarrow> (\<And>x. adds k (f x)) \<Longrightarrow> adds k (bnd m f)"
  using adds_bnd [of 0 m k f] by simp

lemma adds_thn0 [adds_intros]: "adds 0 m \<Longrightarrow> adds k n \<Longrightarrow> adds k (thn m n)"
  unfolding thn_def by (rule adds_bnd0)

lemma adds_thn_ret: "adds k m \<Longrightarrow> adds k (thn m (ret x))"
  unfolding thn_def using adds_bnd [of k m 0] adds_ret by fastforce

lemma adds_if [adds_intros]: "(b \<Longrightarrow> adds k m) \<Longrightarrow> (\<not> b \<Longrightarrow> adds k n) \<Longrightarrow> adds k (if b then m else n)"
  by simp

lemma adds_option [adds_intros]:
  "adds k m \<Longrightarrow> (\<And>x. adds k (f x)) \<Longrightarrow> adds k (case v of None \<Rightarrow> m | Some x \<Rightarrow> f x)"
  by (cases v) auto

lemma adds_upd_ctx: "(\<And>c. over_http (f c) = over_http c) \<Longrightarrow> adds 0 (upd_ctx f)"
  by (auto simp: adds_def go_defs done_count_def)

lemma frame_events: "net_frame (fst w) (snd w) v \<Longrightarrow> nt_events (snd v) = nt_events (snd w)"
  by (simp add: net_frame_def)

lemma nsd_write_header_events [simp]:
  "nt_events (snd (nw_conn (nsd_write_header net_write c w))) = nt_events (snd (nw_conn w))"
  by (rule frame_events [OF framed.write_header_keeps]) simp

lemma nsd_copy_events [simp]:
  "nt_events (snd (nw_conn (nsd_copy w ds))) = nt_events (snd (nw_conn w))"
  by (rule frame_events [OF nsd_copy_frame]) simp

lemma nsd_flush_events [simp]:
  "nt_events (snd (nw_conn (nsd_flush net_write w))) = nt_events (snd (nw_conn w))"
  by (rule frame_events [OF framed.flush_keeps]) simp

lemma adds_on_nsd:
  "(\<And>w. nt_events (snd (nw_conn (f w))) = nt_events (snd (nw_conn w))) \<Longrightarrow> adds 0 (on_nsd f)"
  by (simp add: adds_def on_nsd_def go_defs nsd_store_def nsd_load_def done_count_def over_http_def)

text \<open>What the done loop is assumed to run: handlers that do not dispatch done handlers themselves.\<close>

definition quiet_handlers :: "handler list \<Rightarrow> bool" where
  "quiet_handlers hs \<longleftrightarrow> (\<forall>h \<in> set hs. adds 0 h)"

lemma adds_done_loop: "quiet_handlers hs \<Longrightarrow> adds 0 (done_loop hs)"
  by (induction hs)
    (auto simp: quiet_handlers_def intro!: adds_intros split: next_action.split)

lemma adds_dispatch_done: "quiet_handlers hs \<Longrightarrow> adds 1 (dispatch_done_handlers hs)"
proof -
  assume q: "quiet_handlers hs"
  have "adds 1 (modify (\<lambda>s. s\<lparr>ps_net := log_event EvDone (ps_net s)\<rparr>))"
    by (simp add: adds_def go_defs done_count_def)
  from adds_bnd [OF this adds_done_loop [OF q]] show ?thesis
    by (simp add: dispatch_done_handlers_def thn_def)
qed

lemma adds_forward_http: "quiet_handlers hs \<Longrightarrow> adds 1 (forward_http_response hs)"
  unfolding forward_http_response_def
  by (auto intro!: adds_intros adds_upd_ctx adds_on_nsd adds_thn_ret adds_dispatch_done
      simp: Let_def over_http_def simp del: One_nat_def split: writer_ref.split)

lemma forward_response_over_http:
  "over_http (ps_ctx s) \<Longrightarrow> forward_response hs s = forward_http_response hs s"
  by (auto simp: forward_response_def bnd_apply get_ctx_def gets_def over_http_def)

lemma adds_forward_response: "quiet_handlers hs \<Longrightarrow> adds 1 (forward_response hs)"
  using adds_forward_http [of hs] forward_response_over_http [of _ hs] unfolding adds_def by metis

lemma over_http_answers [simp]:
  "over_http (new_empty_script c) = over_http c" "over_http (new_empty_image e c) = over_http c"
  "over_http (ctx_new_response st ct b c) = over_http c"
  by (simp_all add: over_http_def new_empty_script_def new_empty_image_def new_empty_gif_def
      new_empty_png_def ctx_new_response_def)

lemma adds_blocked_answer [adds_intros]: "adds 0 (blocked_answer st e)"
  unfolding blocked_answer_def
  by (auto intro!: adds_intros adds_upd_ctx simp: Let_def)

lemma adds_write_response_headers [adds_intros]: "adds 0 write_response_headers"
  unfolding write_response_headers_def
  by (auto intro!: adds_intros adds_upd_ctx simp: over_http_def)

lemma response_loop_count:
  assumes "quiet_handlers hs" "quiet_handlers dones"
  shows "response_loop dones hs rej s = (Val v, s') \<Longrightarrow> over_http (ps_ctx s) \<Longrightarrow>
    over_http (ps_ctx s') \<and> done_count s' = done_count s + (if v = None then 1 else 0)"
  using assms(1)
proof (induction hs arbitrary: rej s)
  case Nil
  then show ?case by (auto simp: go_defs)
next
  case (Cons h hs)
  have q: "quiet_handlers hs" and h: "adds 0 h" using Cons.prems(3) by (auto simp: quiet_handlers_def)
  obtain n s1 where 1: "h s = (Val n, s1)" and 2: "(case n of
     DONE \<Rightarrow> bnd (get_ctx tracing) (\<lambda>t. thn (if t then write_response_headers else ret ())
       (thn (dispatch_done_handlers dones) (ret None)))
   | NEXT \<Rightarrow> response_loop dones hs rej
   | FORWARD \<Rightarrow> response_loop dones hs rej
   | MITM \<Rightarrow> gopanic ''MITM doesn't make sense when we are already parsing the request''
   | REJECT \<Rightarrow> response_loop dones hs True
   | SIGNATURE \<Rightarrow> response_loop dones hs rej
   | _ \<Rightarrow> invalid_next) s1 = (Val v, s')"
    using Cons.prems(1) by (auto simp: bnd_apply split: prod.splits gores.splits)
  have s1: "over_http (ps_ctx s1)" "done_count s1 = done_count s"
    using addsD [OF h 1 Cons.prems(2)] by auto
  note IH = Cons.IH [OF _ s1(1) q]
  show ?case
  proof (cases "n = DONE")
    case True
    have "adds 1 (bnd (get_ctx tracing) (\<lambda>t. thn (if t then write_response_headers else ret ())
       (thn (dispatch_done_handlers dones) (ret None))))"
      by (intro adds_intros adds_thn_ret adds_dispatch_done assms(2))
    from addsD [OF this _ s1(1), of v s'] 2 True s1(2) have "over_http (ps_ctx s') \<and>
      done_count s' = done_count s + 1" by simp
    moreover have "v = None" using 2 True
      by (auto simp: bnd_apply thn_def ret_def split: prod.splits gores.splits)
    ultimately show ?thesis by simp
  next
    case False
    then show ?thesis using 2 IH s1(2)
      by (cases n) (auto simp: invalid_next_def gopanic_def)
  qed
qed

section \<open>Properties\<close>

text \<open>
  Dispatching a CONNECT as one loop followed by what was decided: the client's connection is taken over first, then
  the handlers run in order until one answers something other than NEXT, FORWARD or MITM. A rejection is answered by
  \<open>RejectConnect\<close>; DONE and SIGNATURE end the dispatch with the connection taken over and neither joined nor closed;
  the connection is forwarded, once, only when every handler went on.
\<close>

theorem connect_dispatch_refines:
  "dispatch_connect_handlers env sv =
     thn hijack (bnd (verdict (\<lambda>n. n \<notin> {NEXT, FORWARD, MITM}) (sv_connect sv)) (\<lambda>v. case v of
       None \<Rightarrow> thn (forward_connect env) (ret ())
     | Some REJECT \<Rightarrow> reject_connect
     | Some SIGNATURE \<Rightarrow> ret ()
     | Some DONE \<Rightarrow> ret ()
     | Some _ \<Rightarrow> invalid_next))"
  unfolding dispatch_connect_handlers_def connect_loop_verdict ..

text \<open>
  FORWARD and MITM do not stop the connect handlers, although the documentation says that
  the connection is forwarded (or intercepted) then: any of them may as well be NEXT, and a later
  handler that rejects still rejects.
\<close>

theorem connect_forward_is_next:
  "dispatch_connect_handlers env (sv\<lparr>sv_connect := map demote hs\<rparr>) =
     dispatch_connect_handlers env (sv\<lparr>sv_connect := hs\<rparr>) \<and>
   dispatch_connect_handlers env (sv\<lparr>sv_connect := [ret FORWARD, ret REJECT]\<rparr>) =
     thn hijack reject_connect"
  by (simp add: dispatch_connect_handlers_def connect_loop_demote)

text \<open>
  DONE, which the documentation calls invalid for a connect handler, is no error: the later handlers are not asked,
  nothing is sent or dialled, and the connection that was taken over stays as it is.
\<close>

theorem connect_done_abandons:
  "dispatch_connect_handlers env (sv\<lparr>sv_connect := ret DONE # hs\<rparr>) = thn hijack (ret ())"
  by (simp add: dispatch_connect_handlers_def)

text \<open>
  C10. The done handlers run exactly once for every response: whatever the response handlers
  decide, and whether or not there is a response to send, a call of \<open>DispatchResponseHandlers\<close> that
  returns (and answers over HTTP) has dispatched them once.
\<close>

theorem done_handlers_once:
  assumes "quiet_handlers (sv_response sv)" "quiet_handlers (sv_done sv)" "over_http (ps_ctx s)"
    and "dispatch_response_handlers sv s = (Val e, s')"
  shows "done_count s' = done_count s + 1"
proof -
  obtain v s1 where 1: "response_loop (sv_done sv) (sv_response sv) False s = (Val v, s1)"
    and 2: "(case v of None \<Rightarrow> ret None
     | Some rejected \<Rightarrow> bnd (get_ctx id) (\<lambda>c.
         if rejected then thn (blocked_answer 502 ''502.2 Blocked by Winston'') (forward_response (sv_done sv))
         else if cx_resp c = None then
           (case rq_url (cx_req c) of
              None \<Rightarrow> gopanic nil_deref
            | Some u \<Rightarrow> thn (upd_ctx (ctx_new_response 504 ''text/html; charset=utf-8'' (no_response_page c)))
                           (forward_response (sv_done sv)))
         else thn (if tracing c then write_response_headers else ret ()) (forward_response (sv_done sv)))) s1
      = (Val e, s')"
    using assms(4) by (auto simp: dispatch_response_handlers_def bnd_apply split: prod.splits gores.splits)
  note loop = response_loop_count [OF assms(1,2) 1 assms(3)]
  show ?thesis
  proof (cases v)
    case None
    then show ?thesis using 2 loop by (simp add: ret_def)
  next
    case (Some rejected)
    have "adds 1 (bnd (get_ctx id) (\<lambda>c.
         if rejected then thn (blocked_answer 502 ''502.2 Blocked by Winston'') (forward_response (sv_done sv))
         else if cx_resp c = None then
           (case rq_url (cx_req c) of
              None \<Rightarrow> gopanic nil_deref
            | Some u \<Rightarrow> thn (upd_ctx (ctx_new_response 504 ''text/html; charset=utf-8'' (no_response_page c)))
                           (forward_response (sv_done sv)))
         else thn (if tracing c then write_response_headers else ret ()) (forward_response (sv_done sv))))"
      by (intro adds_intros adds_upd_ctx adds_forward_response assms(2)) simp_all
    from addsD [OF this _ conjunct1 [OF loop], of e s'] 2 Some loop show ?thesis by simp
  qed
qed

theorem done_handlers_once_witness:
  "\<exists>e s'. dispatch_response_handlers (empty_server\<lparr>sv_response := [ret FORWARD, ret NEXT]\<rparr>) example_blocked =
     (Val e, s') \<and> done_count s' = 1"
proof -
  let ?sv = "empty_server\<lparr>sv_response := [ret FORWARD, ret NEXT]\<rparr>"
  have q: "quiet_handlers (sv_response ?sv)" "quiet_handlers (sv_done ?sv)"
    by (auto simp: quiet_handlers_def empty_server_def intro: adds_ret)
  have o: "over_http (ps_ctx example_blocked)"
    by (simp add: example_blocked_def over_http_def new_empty_script_def example_ctx_def)
  have c: "done_count example_blocked = 0"
    by (simp add: done_count_def example_blocked_def example_pst_def)
  have "\<exists>e s'. dispatch_response_handlers ?sv example_blocked = (Val e, s')"
    by (simp add: dispatch_response_handlers_def empty_server_def bnd_apply get_ctx_def gets_def ret_def
        example_blocked_def new_empty_script_def tracing_def example_ctx_def no_trace_def thn_def
        forward_response_def forward_http_response_def Let_def upd_ctx_def modify_def on_nsd_def
        dispatch_done_handlers_def)
  then obtain e s' where "dispatch_response_handlers ?sv example_blocked = (Val e, s')" by blast
  with done_handlers_once [OF q o this] c show ?thesis by auto
qed

lemma request_loop_tunnel:
  assumes "\<And>h s n s'. h \<in> set hs \<Longrightarrow> h s = (Val n, s') \<Longrightarrow> cx_tunnel_request (ps_ctx s) \<Longrightarrow>
      n = NEXT \<and> cx_tunnel_request (ps_ctx s')"
  shows "cx_tunnel_request (ps_ctx s) \<Longrightarrow> request_loop env sv hs s = request_loop env sv' hs s"
  using assms
proof (induction hs arbitrary: s)
  case Nil
  then show ?case by (simp add: send_request_def bnd_apply get_ctx_def gets_def)
next
  case (Cons h hs)
  have IH: "cx_tunnel_request (ps_ctx t) \<Longrightarrow> request_loop env sv hs t = request_loop env sv' hs t" for t
    by (rule Cons.IH) (use Cons.prems(2) in auto)
  show ?case
  proof (cases "h s")
    case (Pair r s1)
    show ?thesis
    proof (cases r)
      case (Val n)
      then have "n = NEXT" "cx_tunnel_request (ps_ctx s1)"
        using Cons.prems(2) [of h s n s1] Cons.prems(1) Pair by auto
      then show ?thesis using IH [of s1] Pair Val by (simp add: bnd_apply)
    next
      case (Panic e)
      then show ?thesis using Pair by (simp add: bnd_apply)
    qed
  qed
qed

text \<open>
  A tunnelled request never meets a response or a done handler: when every request handler
  passes it on, the outcome does not depend on which ones are registered. (Every request that
  \<open>HandleHTTPConnection\<close> dispatches is tunnelled, so \<open>HandleDone\<close> is not called at the end of every
  request as its comment says.)
\<close>

theorem tunnel_skips_handlers:
  assumes "cx_tunnel_request (ps_ctx s)"
    and "\<And>h s n s'. h \<in> set (sv_request sv) \<Longrightarrow> h s = (Val n, s') \<Longrightarrow> cx_tunnel_request (ps_ctx s) \<Longrightarrow>
      n = NEXT \<and> cx_tunnel_request (ps_ctx s')"
  shows "dispatch_request_handlers env sv s =
    dispatch_request_handlers env (sv\<lparr>sv_response := rs, sv_done := ds\<rparr>) s"
  using request_loop_tunnel [of "sv_request sv" s env sv "sv\<lparr>sv_response := rs, sv_done := ds\<rparr>"] assms
  by (simp add: dispatch_request_handlers_def)

theorem tunnel_skips_handlers_witness:
  "dispatch_request_handlers example_env (empty_server\<lparr>sv_request := [ret NEXT]\<rparr>) example_pst =
   dispatch_request_handlers example_env
     (empty_server\<lparr>sv_request := [ret NEXT], sv_response := [], sv_done := [gopanic ''cleanup'']\<rparr>) example_pst"
proof -
  have "cx_tunnel_request (ps_ctx example_pst)" by (simp add: example_pst_def example_ctx_def)
  from tunnel_skips_handlers [OF this, of "empty_server\<lparr>sv_request := [ret NEXT]\<rparr>" example_env,
    where rs = "[]" and ds = "[gopanic ''cleanup'']"]
  show ?thesis by (simp add: ret_def)
qed

text \<open>
  A request handler that rejects crashes the connection when the request could not be
  parsed: such a request has no URL, and the dispatcher looks at its path.
\<close>

theorem reject_unparsed_panics:
  assumes "rq_url (cx_req (ps_ctx s)) = None"
  shows "fst (dispatch_request_handlers env (sv\<lparr>sv_request := [ret REJECT]\<rparr>) s) = Panic nil_deref"
  using assms
  by (simp add: dispatch_request_handlers_def blocked_answer_def bnd_apply thn_def get_ctx_def gets_def
      gopanic_def)

theorem reject_unparsed_panics_witness:
  "fst (dispatch_request_handlers example_env (empty_server\<lparr>sv_request := [ret REJECT]\<rparr>)
     (example_pst\<lparr>ps_ctx := example_ctx\<lparr>cx_req := empty_request\<rparr>\<rparr>)) = Panic nil_deref"
  by (rule reject_unparsed_panics) (simp add: empty_request_def)

end
