(* ===== verification/Filters.thy ===== *)
theory Filters
  imports Dispatch
begin

text \<open>
  \<open>filters.go\<close> and the stock handlers of \<open>handlers.go\<close>: middleware that runs a handler only for some
  requests. A regular expression of the application is the predicate of its matches. Every filter
  that looks at the URL dereferences it.
\<close>

definition guard :: "(ctx \<Rightarrow> bool gores) \<Rightarrow> handler \<Rightarrow> handler" where
  "guard cond h = (\<lambda>s. case cond (ps_ctx s) of
     Panic m \<Rightarrow> gopanic m s
   | Val b \<Rightarrow> if b then h s else ret NEXT s)"

definition on_url :: "(url \<Rightarrow> bool) \<Rightarrow> ctx \<Rightarrow> bool gores" where
  "on_url f c = (case rq_url (cx_req c) of None \<Rightarrow> Panic nil_deref | Some u \<Rightarrow> Val (f u))"

definition resp_content_type_is :: "string list \<Rightarrow> handler \<Rightarrow> handler" where
  "resp_content_type_is types = guard (\<lambda>c. case cx_resp c of
     None \<Rightarrow> Val False
   | Some r \<Rightarrow> (let ct = hget (rs_header r) ''Content-Type''
               in Val (list_ex (\<lambda>t. ct = t \<or> has_prefix ct (t @ '';'')) types)))"

definition url_has_prefix :: "string \<Rightarrow> handler \<Rightarrow> handler" where
  "url_has_prefix prefix = guard (on_url (\<lambda>u. has_prefix (u_path u) prefix \<or>
     has_prefix (u_host u @ ''/'' @ u_path u) prefix \<or>
     has_prefix (u_scheme u @ u_host u @ u_path u) prefix))"

definition url_is_in :: "string list \<Rightarrow> handler \<Rightarrow> handler" where
  "url_is_in urls = guard (on_url (\<lambda>u. List.member urls (u_path u) \<or> List.member urls (u_host u @ u_path u)))"

definition req_host_matches :: "(string \<Rightarrow> bool) list \<Rightarrow> handler \<Rightarrow> handler" where
  "req_host_matches res = guard (\<lambda>c. Val (list_ex (\<lambda>re. re (rq_host (cx_req c))) res))"

definition request_host_contains :: "string list \<Rightarrow> handler \<Rightarrow> handler" where
  "request_host_contains hosts = guard (\<lambda>c. if hosts = [] then Val False
     else on_url (\<lambda>u. list_ex (\<lambda>b. contains (u_host u) b) hosts) c)"

definition match_request_host_map :: "string list \<Rightarrow> url \<Rightarrow> bool" where
  "match_request_host_map hosts u = List.member hosts (u_host u)"

definition request_host_is_in :: "string list \<Rightarrow> handler \<Rightarrow> handler" where
  "request_host_is_in hosts = guard (on_url (match_request_host_map hosts))"

definition request_host_is_not_in :: "string list \<Rightarrow> handler \<Rightarrow> handler" where
  "request_host_is_not_in hosts = guard (on_url (\<lambda>u. \<not> match_request_host_map hosts u))"

text \<open>\<open>127\.0\.0\.\d+\<close>, not anchored.\<close>

fun local_ipv4 :: "string \<Rightarrow> bool" where
  "local_ipv4 [] = False"
| "local_ipv4 (x # xs) =
     (has_prefix (x # xs) ''127.0.0.'' \<and> (case drop 8 (x # xs) of d # _ \<Rightarrow> is_digit d | [] \<Rightarrow> False) \<or>
      local_ipv4 xs)"

definition match_is_localhost :: "url \<Rightarrow> bool" where
  "match_is_localhost u \<longleftrightarrow> u_host u = ''::1'' \<or> u_host u = ''0:0:0:0:0:0:0:1'' \<or>
     local_ipv4 (u_host u) \<or> u_host u = ''localhost''"

definition is_localhost :: "handler \<Rightarrow> handler" where
  "is_localhost = guard (on_url match_is_localhost)"

definition is_not_localhost :: "handler \<Rightarrow> handler" where
  "is_not_localhost = guard (on_url match_is_localhost)"

definition url_matches :: "(string \<Rightarrow> bool) \<Rightarrow> handler \<Rightarrow> handler" where
  "url_matches re = guard (on_url (\<lambda>u. re (u_path u) \<or> re (u_host u @ u_path u)))"

definition cond_remote_addr_is :: "ctx \<Rightarrow> string \<Rightarrow> bool" where
  "cond_remote_addr_is c ip = has_prefix (rq_remote (cx_req c)) (ip @ '':'')"

definition remote_addr_is :: "string \<Rightarrow> handler \<Rightarrow> handler" where
  "remote_addr_is ip = guard (\<lambda>c. Val (cond_remote_addr_is c ip))"

definition remote_addr_is_not :: "string \<Rightarrow> handler \<Rightarrow> handler" where
  "remote_addr_is_not ip = guard (\<lambda>c. Val (\<not> cond_remote_addr_is c ip))"

definition always_mitm :: "env \<Rightarrow> handler" where
  "always_mitm env = thn (sni_host env) (ret MITM)"

definition always_reject :: handler where
  "always_reject = ret REJECT"

definition always_forward :: handler where
  "always_forward = ret FORWARD"

section \<open>Chains of filters\<close>

text \<open>
  What a user of a chained handler relies on: the filter decides by the context alone, and
  either runs the handler in the state it was given or answers NEXT and leaves the state alone.
\<close>

locale chained_handler =
  fixes flt :: "handler \<Rightarrow> handler" and holds :: "ctx \<Rightarrow> bool" and defined :: "ctx \<Rightarrow> bool"
  assumes runs: "defined (ps_ctx s) \<Longrightarrow> holds (ps_ctx s) \<Longrightarrow> flt h s = h s"
    and skips: "defined (ps_ctx s) \<Longrightarrow> \<not> holds (ps_ctx s) \<Longrightarrow> flt h s = (Val NEXT, s)"
begin

lemma twice: "defined (ps_ctx s) \<Longrightarrow> flt (flt h) s = flt h s"
  by (cases "holds (ps_ctx s)") (simp_all add: runs skips)

lemma connect_skips:
  "defined (ps_ctx s) \<Longrightarrow> \<not> holds (ps_ctx s) \<Longrightarrow> connect_loop env (flt h # hs) s = connect_loop env hs s"
  by (simp add: bnd_apply skips)

lemma connect_runs:
  "defined (ps_ctx s) \<Longrightarrow> holds (ps_ctx s) \<Longrightarrow> connect_loop env (flt h # hs) s = connect_loop env (h # hs) s"
  by (simp add: bnd_apply runs)

lemma request_skips:
  "defined (ps_ctx s) \<Longrightarrow> \<not> holds (ps_ctx s) \<Longrightarrow> request_loop env sv (flt h # hs) s = request_loop env sv hs s"
  by (simp add: bnd_apply skips)

end

definition url_known :: "ctx \<Rightarrow> bool" where
  "url_known c \<longleftrightarrow> rq_url (cx_req c) \<noteq> None"

definition url_of :: "ctx \<Rightarrow> url" where
  "url_of c = the (rq_url (cx_req c))"

lemmas filter_defs = guard_def on_url_def url_known_def url_of_def ret_def gopanic_def

interpretation localhost: chained_handler is_localhost "\<lambda>c. match_is_localhost (url_of c)" url_known
  by unfold_locales (auto simp: is_localhost_def filter_defs)

interpretation not_localhost: chained_handler is_not_localhost "\<lambda>c. match_is_localhost (url_of c)" url_known
  by unfold_locales (auto simp: is_not_localhost_def filter_defs)

interpretation host_in: chained_handler "request_host_is_in hosts"
  "\<lambda>c. match_request_host_map hosts (url_of c)" url_known for hosts
  by unfold_locales (auto simp: request_host_is_in_def filter_defs)

interpretation host_not_in: chained_handler "request_host_is_not_in hosts"
  "\<lambda>c. \<not> match_request_host_map hosts (url_of c)" url_known for hosts
  by unfold_locales (auto simp: request_host_is_not_in_def filter_defs)

interpretation remote: chained_handler "remote_addr_is ip" "\<lambda>c. cond_remote_addr_is c ip" "\<lambda>c. True" for ip
  by unfold_locales (auto simp: remote_addr_is_def filter_defs)

interpretation content_type: chained_handler "resp_content_type_is types"
  "\<lambda>c. case cx_resp c of None \<Rightarrow> False | Some r \<Rightarrow>
     list_ex (\<lambda>t. hget (rs_header r) ''Content-Type'' = t \<or> has_prefix (hget (rs_header r) ''Content-Type'') (t @ '';'')) types"
  "\<lambda>c. True" for types
  by unfold_locales (auto simp: resp_content_type_is_def filter_defs Let_def split: option.splits)

lemma connect_loop_decided:
  assumes "\<And>n s'. h s = (Val n, s') \<Longrightarrow> n = DONE"
  shows "connect_loop env (h # hs) s = thn h (ret ()) s"
proof (cases "h s")
  case (Pair r s')
  then show ?thesis using assms by (cases r) (auto simp: bnd_apply thn_def ret_def)
qed

section \<open>Properties\<close>

text \<open>
  \<open>RequestHostIsIn\<close> and \<open>RequestHostIsNotIn\<close> of the same hosts split the CONNECT requests
  whose URL is known: of the two handlers, exactly the one for the request's host runs, whatever
  they are, and the other leaves no trace.
\<close>

theorem host_filters_partition:
  assumes "url_known (ps_ctx s)"
    and "\<And>n s'. h1 s = (Val n, s') \<Longrightarrow> n = DONE" "\<And>n s'. h2 s = (Val n, s') \<Longrightarrow> n = DONE"
  shows "connect_loop env [request_host_is_in hosts h1, request_host_is_not_in hosts h2] s =
    (if match_request_host_map hosts (url_of (ps_ctx s)) then thn h1 (ret ()) s else thn h2 (ret ()) s)"
proof (cases "match_request_host_map hosts (url_of (ps_ctx s))")
  case True
  have "connect_loop env (request_host_is_in hosts h1 # hs) s = thn h1 (ret ()) s" for hs
    unfolding host_in.connect_runs [OF assms(1) True] by (rule connect_loop_decided) (rule assms(2))
  with True show ?thesis by (simp only: if_True)
next
  case False
  have "connect_loop env [request_host_is_not_in hosts h2] s = thn h2 (ret ()) s"
    unfolding host_not_in.connect_runs [OF assms(1) False] by (rule connect_loop_decided) (rule assms(3))
  with False show ?thesis by (simp only: host_in.connect_skips [OF assms(1) False] if_False)
qed

theorem host_filters_partition_witness:
  "connect_loop example_env [request_host_is_in [''a.com:443''] (ret DONE),
     request_host_is_not_in [''a.com:443''] (gopanic ''other'')] example_pst = (Val (), example_pst)"
proof -
  have u: "url_known (ps_ctx example_pst)" "match_request_host_map [''a.com:443''] (url_of (ps_ctx example_pst))"
    by (simp_all add: url_known_def url_of_def match_request_host_map_def example_pst_def example_ctx_def)
  show ?thesis
    by (subst host_filters_partition) (use u in \<open>auto simp: ret_def gopanic_def thn_def bnd_apply\<close>)
qed

text \<open>
  \<open>IsNotLocalhost\<close> is \<open>IsLocalhost\<close>: the two filters run their handler for the same requests,
  so a handler meant for every host but this one runs only for this one.
\<close>

theorem is_not_localhost_inverted: "is_not_localhost = is_localhost"
  by (simp add: is_not_localhost_def is_localhost_def)

text \<open>
  \<open>UrlHasPrefix(host/x)\<close> does not match \<open>http://host/x\<close>, which its comment gives as an
  example: the path begins with a slash of its own, so the texts compared are \<open>/x\<close>, \<open>host//x\<close> and
  \<open>httphost/x\<close>.
\<close>

theorem url_has_prefix_misses:
  "url_has_prefix ''host/x'' h
     (example_pst\<lparr>ps_ctx := example_ctx\<lparr>cx_req := empty_request\<lparr>rq_url :=
        Some (empty_url\<lparr>u_scheme := ''http'', u_host := ''host'', u_path := ''/x''\<rparr>)\<rparr>\<rparr>\<rparr>) =
   (Val NEXT, example_pst\<lparr>ps_ctx := example_ctx\<lparr>cx_req := empty_request\<lparr>rq_url :=
        Some (empty_url\<lparr>u_scheme := ''http'', u_host := ''host'', u_path := ''/x''\<rparr>)\<rparr>\<rparr>\<rparr>)"
  by (simp add: url_has_prefix_def guard_def on_url_def empty_url_def has_prefix_def ret_def)

text \<open>
  \<open>RemoteAddrIs\<close> never runs its handler for a request the proxy read from a connection
  itself: \<open>http.ReadRequest\<close> leaves the remote address empty, and so does the proxy.
\<close>

theorem remote_addr_never:
  "rq_remote (cx_req (ps_ctx s)) = [] \<Longrightarrow> remote_addr_is ip h s = (Val NEXT, s)"
  by (rule remote.skips) (auto simp: cond_remote_addr_is_def has_prefix_def)

theorem remote_addr_never_witness:
  "remote_addr_is ''10.0.0.1'' always_reject example_pst = (Val NEXT, example_pst)"
  by (rule remote_addr_never) (simp add: example_pst_def example_ctx_def empty_request_def)

end
