(* ===== verification/Proxy_Server.thy ===== *)
theory Proxy_Server
  imports Dispatch
begin

text \<open>
  \<open>proxy.go\<close>: what the two listeners do with one accepted connection, up to the dispatchers; the
  resolution of a destination from the connection table; and the signatures of clients. Each
  connection is served by one call of \<open>serve_http\<close> or \<open>serve_tls\<close>; the loops that accept are in \<open>Listener\<close>.
  The user-agent parser, MD5, the connection table and the SNI muxer are parameters.
\<close>

section \<open>Signatures\<close>

definition replace_char :: "char \<Rightarrow> char \<Rightarrow> string \<Rightarrow> string" where
  "replace_char a b s = map (\<lambda>c. if c = a then b else c) s"

text \<open>
  \<open>ConvertUserAgentToSignature\<close>; \<open>parse\<close> gives the five parts that \<open>uasurfer\<close> finds: platform, device,
  browser, system, and the system's major version in decimal.
\<close>

definition convert_user_agent :: "(string \<Rightarrow> string list) \<Rightarrow> string \<Rightarrow> string" where
  "convert_user_agent parse s =
     (if trim_space s = [] then ''unknown''
      else
        let filtered = filter (\<lambda>v. \<not> (v = ''Unknown'' \<or> v = ''0'')) (parse s);
            candidate = to_lower (join_with ''-'' filtered);
            candidate1 = (if candidate = [] then
               replace_char (CHR ''_'') (CHR ''-'') (replace_char (CHR ''/'') (CHR ''-'')
                 (replace_char (CHR '' '') (CHR ''-'') s))
              else candidate)
        in to_lower candidate1)"

text \<open>The parts of a CLIENTHELLO the signature is made of.\<close>

record client_hello =
  ch_vers :: "16 word"
  ch_cipher_suites :: "16 word list"
  ch_curves :: "16 word list"
  ch_points :: "8 word list"
  ch_compression :: "8 word list"
  ch_ocsp :: bool
  ch_ticket :: bool
  ch_next_proto :: bool

text \<open>The values of RFC 8701 (GREASE), as the source lists them.\<close>

definition grease :: "16 word list" where
  "grease = [2570, 6682, 10794, 14906, 19018, 23130, 27242, 31354, 35466, 39578, 43690, 47802, 51914,
     56026, 60138, 64250]"

definition suites_text :: "16 word list \<Rightarrow> string" where
  "suites_text ws = concat (map (\<lambda>w. if w \<in> set grease then [] else itoa (uint w)) ws)"

definition bytes_text :: "8 word list \<Rightarrow> string" where
  "bytes_text ws = concat (map (\<lambda>w. itoa (uint w)) ws)"

definition generate_signature :: "(string \<Rightarrow> string) \<Rightarrow> client_hello \<Rightarrow> string" where
  "generate_signature md5_hex h =
     (let b = suites_text (ch_cipher_suites h) @ ''-'' @ suites_text (ch_curves h) @ ''-'' @
              bytes_text (ch_points h) @ ''-'' @ bytes_text (ch_compression h) @ ''-'';
          ocsp = (if ch_ocsp h then ''S1'' else ''S0'');
          tickets = (if ch_ticket h then ''T1'' else ''T0'');
          nextproto = (if ch_next_proto h then ''N1'' else ''N0'')
      in md5_hex (itoa (uint (ch_vers h)) @ ''-'' @ b @ ''-'' @ ocsp @ ''-'' @ tickets @ ''-'' @ nextproto))"

section \<open>The original destination\<close>

text \<open>\<open>strconv.Atoi\<close> with its error dropped: 0 for anything that is no number.\<close>

definition atoi_or_0 :: "string \<Rightarrow> int" where
  "atoi_or_0 s =
     (let d = (case s of c # t \<Rightarrow> if c = CHR ''-'' \<or> c = CHR ''+'' then t else s | [] \<Rightarrow> []) in
      if d = [] \<or> \<not> list_all is_digit d then 0
      else if hd s = CHR ''-'' then - int (parse_radix 10 d) else int (parse_radix 10 d))"

text \<open>
  \<open>resolveconntrackdestination\<close>. A flow is its source port and the text of its destination; \<open>String\<close> of
  the nil \<open>net.IP\<close> is \<open><nil>\<close>.
\<close>

definition resolve_conntrack :: "goerr + (int \<times> string) list \<Rightarrow> string \<Rightarrow> string" where
  "resolve_conntrack flows remote =
     (case flows of
        Inl e \<Rightarrow> []
      | Inr fs \<Rightarrow>
          (let i = index_byte remote (CHR '':'') in
           if i = -1 then []
           else
             let port = atoi_or_0 (drop (nat (i + 1)) remote) in
             if port = 0 then []
             else (case fold (\<lambda>(p, d) acc. if p = port then Some d else acc) fs None of
                     None \<Rightarrow> ''<nil>''
                   | Some d \<Rightarrow> d)))"

section \<open>One HTTP connection\<close>

text \<open>
  What the application plugs in: the direct handler, the tracer's callback, the resolver of
  destinations, and the parameters above.
\<close>

record app =
  ap_handle_http :: "((pst, bool) go) option"
  ap_trace :: "((pst, trace_request) go) option"
  ap_resolver :: "nat \<Rightarrow> net \<Rightarrow> string"
  ap_parse_agent :: "string \<Rightarrow> string list"
  ap_md5_hex :: "string \<Rightarrow> string"

definition new_ctx :: "proxy_data \<Rightarrow> gotime \<Rightarrow> http_request \<Rightarrow> writer_ref \<Rightarrow> conn_ref option \<Rightarrow> ctx" where
  "new_ctx px now r w c = \<lparr>cx_method = rq_method r, cx_source_ip = rq_remote r, cx_is_secure = False,
     cx_through_mitm = False, cx_through_tunnel = False, cx_tunnel_request = False,
     cx_non_http_request = [], cx_host = [], cx_sni_host = [],
     cx_sniffed_tls = False, cx_mitm_config = px_mitm_config px, cx_connect_scheme = [],
     cx_original_request = None, cx_req = r, cx_writer = w, cx_conn = c, cx_target_conn = None,
     cx_resp = None, cx_resp_error = None, cx_original_body = None, cx_round_tripper = None,
     cx_fake_dns = [], cx_log_enabled = False, cx_log_content = False, cx_session = px_sess px + 1,
     cx_cipher_signature = [], cx_new_body_length = 0, cx_verbosity = px_verbosity px,
     cx_device_type = -1, cx_whitelisted = False, cx_status = [], cx_private = False,
     cx_shadow = None, cx_trace = no_trace, cx_trace_info = None, cx_request_time = now\<rparr>"

text \<open>The URL of a request that is no CONNECT is made absolute.\<close>

definition absolute_url :: "string \<Rightarrow> http_request \<Rightarrow> http_request" where
  "absolute_url host r = (case rq_url r of
     None \<Rightarrow> r
   | Some u \<Rightarrow>
      (if rq_method r \<noteq> ''CONNECT'' \<and> \<not> url_is_abs u
       then r\<lparr>rq_url := Some (u\<lparr>u_scheme := ''http'', u_host := join_host_port host ''80''\<rparr>)\<rparr>
       else r))"

text \<open>A trace of the modified request reads the body, which may be nil, and puts a copy in its place.\<close>

definition start_trace :: "app \<Rightarrow> (pst, unit) go" where
  "start_trace ap = (case ap_trace ap of
     None \<Rightarrow> ret ()
   | Some t \<Rightarrow> bnd t (\<lambda>tr. thn (upd_ctx (\<lambda>c. c\<lparr>cx_trace := tr\<rparr>))
       (if tr_modified tr then
          bnd (gets ps_now) (\<lambda>now. bnd (get_ctx cx_req) (\<lambda>rq. case rq_body rq of
             None \<Rightarrow> gopanic nil_deref
           | Some b \<Rightarrow>
              (let d = fst (fst (read_all b)) in
               upd_ctx (\<lambda>c. c\<lparr>cx_trace_info := Some ((setup_trace now ''Modified request'')\<lparr>ti_body := Some d\<rparr>),
                              cx_req := rq\<lparr>rq_body := Some (nop_body d)\<rparr>\<rparr>))))
        else ret ())))"

text \<open>A host without a port gets one by the scheme of the URL.\<close>

definition guess_port :: "ctx \<Rightarrow> ctx" where
  "guess_port c =
     (if index_byte (cx_host c) (CHR '':'') = -1 then
        (let scheme = (case rq_url (cx_req c) of None \<Rightarrow> ''http'' | Some u \<Rightarrow> u_scheme u) in
         if scheme = ''http'' \<or> scheme = ''ws'' then c\<lparr>cx_host := cx_host c @ '':80''\<rparr>
         else if scheme = ''https'' \<or> scheme = ''wss'' then c\<lparr>cx_host := cx_host c @ '':443''\<rparr>
         else c)
      else c)"

definition finish_trace :: "(pst, unit) go" where
  "finish_trace = bnd (get_ctx id) (\<lambda>c.
     if tr_modified (cx_trace c) then
       (case cx_trace_info c of
          None \<Rightarrow> gopanic nil_deref
        | Some i \<Rightarrow> bnd (gets ps_now) (\<lambda>now. upd_ctx (\<lambda>c. c\<lparr>cx_trace_info :=
            Some (write_trace_info now (cx_req c) (cx_trace c) (cx_private c) (cx_through_mitm c) i)\<rparr>)))
     else ret ())"

text \<open>\<open>HandleHTTPConnection\<close>: the context it builds, and the steps up to and after the dispatch.\<close>

definition http_ctx :: "app \<Rightarrow> proxy_data \<Rightarrow> gotime \<Rightarrow> nat \<Rightarrow> http_request \<Rightarrow> string option \<Rightarrow> ctx gores" where
  "http_ctx ap px now c r original =
     (let c0 = (new_ctx px now r WNsd (Some (TcpRef c)))\<lparr>cx_tunnel_request := True,
                 cx_non_http_request := (case original of None \<Rightarrow> [] | Some b \<Rightarrow> b)\<rparr>;
          host = (if rq_host r = [] then (case rq_url r of None \<Rightarrow> None | Some u \<Rightarrow> Some (u_host u))
                  else Some (rq_host r))
      in case host of
           None \<Rightarrow> Panic nil_deref
         | Some h \<Rightarrow> Val (c0\<lparr>cx_host := h,
             cx_cipher_signature := convert_user_agent (ap_parse_agent ap) (hget (rq_header r) ''User-Agent''),
             cx_req := absolute_url h r\<rparr>))"

definition prepare_http :: "app \<Rightarrow> (pst, unit) go" where
  "prepare_http ap =
     thn (start_trace ap)
     (thn (upd_ctx guess_port)
     (upd_ctx (\<lambda>c. if hget (rq_header (cx_req c)) ''Upgrade'' \<noteq> [] then c\<lparr>cx_tunnel_request := True\<rparr> else c)))"

definition handle_http_connection :: "env \<Rightarrow> app \<Rightarrow> server \<Rightarrow> (pst, unit) go" where
  "handle_http_connection env ap sv =
     thn (prepare_http ap)
     (bnd (get_ctx id) (\<lambda>c.
        if rq_method (cx_req c) = ''CONNECT'' then thn (dispatch_connect_handlers env sv) finish_trace
        else
          bnd (case ap_handle_http ap of None \<Rightarrow> ret False | Some h \<Rightarrow> h) (\<lambda>handled.
            if handled then ret () else thn (dispatch_request_handlers env sv) finish_trace)))"

text \<open>The request that stands for one that could not be parsed.\<close>

definition unparsed_request :: http_request where
  "unparsed_request = empty_request\<lparr>rq_proto := ''http''\<rparr>"

text \<open>The outcome of serving a connection: how it ended, and the proxy and network it leaves.\<close>

type_synonym served = "unit gores \<times> proxy_data \<times> net"

definition run_connection :: "(pst, unit) go \<Rightarrow> pst \<Rightarrow> served" where
  "run_connection m s = (case m s of (r, s') \<Rightarrow> (r, ps_proxy s', ps_net s'))"

definition add_open :: "int \<Rightarrow> proxy_data \<Rightarrow> proxy_data" where
  "add_open k px = px\<lparr>px_open_handlers := px_open_handlers px + k\<rparr>"

text \<open>
  The goroutine of \<open>ListenAndServe\<close>: \<open>parsed\<close> is what \<open>http.ReadRequest\<close> returned, \<open>buf\<close> every byte
  that was read for it.
\<close>

definition serve_http ::
  "env \<Rightarrow> app \<Rightarrow> server \<Rightarrow> gotime \<Rightarrow> nat \<Rightarrow> goerr + http_request \<Rightarrow> string \<Rightarrow> proxy_data \<Rightarrow> net \<Rightarrow> served" where
  "serve_http env ap sv now c parsed buf px0 n =
     (let px = add_open 1 px0;
          r0 = (case parsed of Inl e \<Rightarrow> unparsed_request | Inr r \<Rightarrow> r);
          r = (if \<not> check_domain (rq_host r0) then r0\<lparr>rq_host := ap_resolver ap c n\<rparr> else r0);
          drop_it = (Val (), px, snd (conn_close (TcpRef c) n));
          served = (if \<not> check_domain (rq_host r) then drop_it
            else if length buf = 0 then drop_it
            else (case http_ctx ap px now c r (Some buf) of
                    Panic e \<Rightarrow> (Panic e, px, n)
                  | Val cx \<Rightarrow> run_connection (handle_http_connection env ap sv)
                      \<lparr>ps_ctx = cx, ps_proxy = px\<lparr>px_sess := px_sess px + 1\<rparr>, ps_net = n,
                       ps_nsd = \<lparr>ns_conn = c, ns_wrote = False, ns_chunking = False, ns_hijacked = False\<rparr>,
                       ps_now = now, ps_next_body = 1\<rparr>))
      in case served of (res, px1, n1) \<Rightarrow> (res, add_open (-1) px1, n1))"

section \<open>One TLS connection\<close>

definition connect_req :: "string \<Rightarrow> string \<Rightarrow> http_request" where
  "connect_req host hostport = empty_request\<lparr>rq_method := ''CONNECT'',
     rq_url := Some (empty_url\<lparr>u_opaque := host, u_host := hostport\<rparr>), rq_host := host\<rparr>"

text \<open>
  The goroutine of \<open>ListenAndServeTLS\<close>: \<open>tls\<close> is the connection the muxer wrapped, \<open>name\<close> the server
  name it found, \<open>bad\<close> whether it failed, and \<open>hello\<close> the CLIENTHELLO where it read one.
\<close>

definition start_trace_tls :: "app \<Rightarrow> (pst, unit) go" where
  "start_trace_tls ap = (case ap_trace ap of
     None \<Rightarrow> ret ()
   | Some t \<Rightarrow> bnd t (\<lambda>tr. thn (upd_ctx (\<lambda>c. c\<lparr>cx_trace := tr\<rparr>))
       (if tr_modified tr then bnd (gets ps_now) (\<lambda>now.
          upd_ctx (\<lambda>c. c\<lparr>cx_trace_info := Some (setup_trace now ''Modified Request'')\<rparr>)) else ret ())))"

definition tls_ctx ::
  "app \<Rightarrow> proxy_data \<Rightarrow> gotime \<Rightarrow> conn_ref \<Rightarrow> string \<Rightarrow> bool \<Rightarrow> client_hello option \<Rightarrow> ctx" where
  "tls_ctx ap px now tls host bad hello =
     (let hostport = (if index_byte host (CHR '':'') = -1 then host @ '':443'' else host)
      in (new_ctx px now (connect_req host hostport) (WDumb tls) None)
           \<lparr>cx_tunnel_request := bad, cx_is_secure := True, cx_host := hostport,
            cx_sniffed_tls := True, cx_sni_host := host,
            cx_cipher_signature := (case hello of
               None \<Rightarrow> []
             | Some h \<Rightarrow> if 0 < length (ch_cipher_suites h) then generate_signature (ap_md5_hex ap) h else [])\<rparr>)"

definition serve_tls ::
  "env \<Rightarrow> app \<Rightarrow> server \<Rightarrow> gotime \<Rightarrow> nat \<Rightarrow> conn_ref \<Rightarrow> string \<Rightarrow> bool \<Rightarrow> client_hello option \<Rightarrow>
     proxy_data \<Rightarrow> net \<Rightarrow> served" where
  "serve_tls env ap sv now c tls name bad hello px0 n =
     (let px = add_open 1 px0;
          host = (if \<not> check_domain name then ap_resolver ap c n else name);
          drop_it = (Val (), px, snd (conn_close tls n));
          served = (if \<not> check_domain host then drop_it
            else if has_prefix host ''192.168.102.'' then drop_it
            else run_connection (thn (start_trace_tls ap) (dispatch_connect_handlers env sv))
                   \<lparr>ps_ctx = tls_ctx ap px now tls host bad hello, ps_proxy = px\<lparr>px_sess := px_sess px + 1\<rparr>,
                    ps_net = n,
                    ps_nsd = \<lparr>ns_conn = c, ns_wrote = False, ns_chunking = False, ns_hijacked = False\<rparr>,
                    ps_now = now, ps_next_body = 1\<rparr>)
      in case served of (res, px1, n1) \<Rightarrow> (res, add_open (-1) px1, n1))"

section \<open>Printing a request\<close>

text \<open>
  \<open>formatRequest\<close>: \<open>url\<close> prints the URL, \<open>form\<close> is the encoded form of a POST. A blank line of the
  list is a newline of its own.
\<close>

definition format_request :: "(http_request \<Rightarrow> string) \<Rightarrow> http_request \<Rightarrow> string" where
  "format_request form r =
     join_with nl
       ([rq_method r @ '' '' @ (case rq_url r of None \<Rightarrow> ''<nil>'' | Some u \<Rightarrow> url_string u) @ '' '' @ rq_proto r,
         ''Host: '' @ rq_host r] @
        header_lines (rq_header r) @
        (if rq_method r = ''POST'' then [nl, form r] else []))"

section \<open>Facts\<close>

lemma suites_text_filter: "suites_text (filter (\<lambda>w. w \<notin> set grease) ws) = suites_text ws"
  by (induction ws) (auto simp: suites_text_def)

lemma guess_port_port:
  assumes "rq_url (cx_req c) = Some u" "u_scheme u \<in> {''http'', ''ws'', ''https'', ''wss''}"
  shows "CHR '':'' \<in> set (cx_host (guess_port c))"
  using assms by (auto simp: guess_port_def)

lemma guess_port_prefix: "\<exists>t. cx_host (guess_port c) = cx_host c @ t"
  by (auto simp: guess_port_def Let_def)

lemma conntrack_none:
  "port \<notin> fst ` set fs \<Longrightarrow> fold (\<lambda>(p, d) acc. if p = port then Some d else acc) fs acc = acc"
  by (induction fs arbitrary: acc) auto

lemma conntrack_last:
  "port \<notin> fst ` set gs \<Longrightarrow>
     fold (\<lambda>(p, d) acc. if p = port then Some d else acc) (fs @ (port, d) # gs) acc = Some d"
  by (simp add: conntrack_none)

lemma check_domain_bad: "\<not> check_domain []" "\<not> check_domain ''<nil>''"
  by (simp_all add: check_domain_def is_lower_def is_digit_def is_upper_def Let_def)

lemma conn_dropped:
  "tc_closed (conn_of t (snd (conn_close t n))) \<and> nt_events (snd (conn_close t n)) = nt_events n \<and>
   (\<forall>i. tc_sent (nt_conns (snd (conn_close t n)) i) = tc_sent (nt_conns n i)) \<and>
   (\<forall>i. i \<noteq> conn_id t \<longrightarrow> nt_conns (snd (conn_close t n)) i = nt_conns n i)"
  by (simp add: conn_of_def conn_close_others)

text \<open>A connection of which the connection table says nothing: no table, no port, or no flow from that port.\<close>

definition unknown_flow :: "goerr + (int \<times> string) list \<Rightarrow> string \<Rightarrow> bool" where
  "unknown_flow flows remote = (case flows of
     Inl e \<Rightarrow> True
   | Inr fs \<Rightarrow>
      (let i = index_byte remote (CHR '':''); port = atoi_or_0 (drop (nat (i + 1)) remote)
       in i = -1 \<or> port = 0 \<or> port \<notin> fst ` set fs))"

lemma unknown_flow_unusable: "unknown_flow flows remote \<Longrightarrow> \<not> check_domain (resolve_conntrack flows remote)"
proof (cases flows)
  case (Inr fs)
  let ?port = "atoi_or_0 (drop (nat (index_byte remote (CHR '':'') + 1)) remote)"
  assume u: "unknown_flow flows remote"
  have "fold (\<lambda>(p, d) acc. if p = ?port then Some d else acc) fs None = None" if "?port \<notin> fst ` set fs"
    by (rule conntrack_none [OF that])
  then show ?thesis using u Inr check_domain_bad
    by (auto simp only: unknown_flow_def resolve_conntrack_def Let_def sum.case option.case if_True if_False simp_thms True_implies_equals split: if_splits)
qed (simp add: resolve_conntrack_def check_domain_bad)

text \<open>The request that is served: what was read, with the destination of its flow where its own is unusable.\<close>

definition served_request :: "app \<Rightarrow> nat \<Rightarrow> net \<Rightarrow> goerr + http_request \<Rightarrow> http_request" where
  "served_request ap c n parsed =
     (let r = (case parsed of Inl e \<Rightarrow> unparsed_request | Inr r \<Rightarrow> r)
      in if check_domain (rq_host r) then r else r\<lparr>rq_host := ap_resolver ap c n\<rparr>)"

lemma served_as_parsed: "check_domain (rq_host r) \<Longrightarrow> served_request ap c n (Inr r) = r"
  by (simp add: served_request_def)

lemma serve_http_runs:
  assumes "check_domain (rq_host (served_request ap c n parsed))" "buf \<noteq> []"
    and "http_ctx ap (add_open 1 px) now c (served_request ap c n parsed) (Some buf) = Val cx"
    and "handle_http_connection env ap sv
      \<lparr>ps_ctx = cx, ps_proxy = (add_open 1 px)\<lparr>px_sess := px_sess (add_open 1 px) + 1\<rparr>, ps_net = n,
       ps_nsd = \<lparr>ns_conn = c, ns_wrote = False, ns_chunking = False, ns_hijacked = False\<rparr>,
       ps_now = now, ps_next_body = 1\<rparr> = (res, s')"
  shows "serve_http env ap sv now c parsed buf px n = (res, add_open (-1) (ps_proxy s'), ps_net s')"
  using assms
  by (auto simp: serve_http_def served_request_def run_connection_def Let_def split: if_splits sum.splits)

text \<open>The host and port that a request is sent to: the port is that of the URL's scheme where the host names none.\<close>

definition with_port :: "string \<Rightarrow> string \<Rightarrow> string" where
  "with_port port host = (if CHR '':'' \<in> set host then host else host @ port)"

definition scheme_port :: "string \<Rightarrow> string" where
  "scheme_port scheme =
     (if scheme = ''http'' \<or> scheme = ''ws'' then '':80''
      else if scheme = ''https'' \<or> scheme = ''wss'' then '':443'' else [])"

definition default_port :: "http_request \<Rightarrow> string" where
  "default_port r = (case rq_url r of
     None \<Rightarrow> '':80''
   | Some u \<Rightarrow> if rq_method r \<noteq> ''CONNECT'' \<and> u_scheme u = [] then '':80'' else scheme_port (u_scheme u))"

definition named_host :: "http_request \<Rightarrow> string" where
  "named_host r = (if rq_host r \<noteq> [] then rq_host r else case rq_url r of None \<Rightarrow> [] | Some u \<Rightarrow> u_host u)"

lemma http_ctx_parts:
  assumes "http_ctx ap px now c r original = Val cx"
  shows "cx_req cx = absolute_url (named_host r) r" "cx_host cx = named_host r" "cx_tunnel_request cx"
  using assms by (auto simp: http_ctx_def new_ctx_def named_host_def Let_def split: option.splits if_splits)

lemma scheme_of_absolute:
  "(case rq_url (absolute_url h r) of None \<Rightarrow> ''http'' | Some u \<Rightarrow> u_scheme u) =
     (case rq_url r of None \<Rightarrow> ''http''
      | Some u \<Rightarrow> if rq_method r \<noteq> ''CONNECT'' \<and> u_scheme u = [] then ''http'' else u_scheme u)"
  by (auto simp: absolute_url_def url_is_abs_def split: option.splits)

lemma guess_port_default:
  assumes "cx_req cx = absolute_url h r"
  shows "guess_port cx = cx\<lparr>cx_host := with_port (default_port r) (cx_host cx)\<rparr>"
  unfolding guess_port_def Let_def assms scheme_of_absolute
  by (auto simp: with_port_def default_port_def scheme_port_def split: option.splits)

text \<open>Without a tracer, preparing a request gives its destination a port and changes nothing else.\<close>

lemma http_prepared:
  assumes "http_ctx ap px now c r original = Val cx" "ap_trace ap = None"
  shows "prepare_http ap (s\<lparr>ps_ctx := cx\<rparr>) =
    (Val (), s\<lparr>ps_ctx := cx\<lparr>cx_host := with_port (default_port r) (named_host r)\<rparr>\<rparr>)"
  using assms(2) http_ctx_parts [OF assms(1)] guess_port_default [OF http_ctx_parts(1) [OF assms(1)]]
  by (simp add: prepare_http_def start_trace_def go_defs)

section \<open>Properties\<close>

text \<open>
  A client's signature does not depend on GREASE: inserting or leaving out the reserved
  values, in its cipher suites and in its curves, gives the same signature.
\<close>

theorem signature_ignores_grease:
  "generate_signature md5 (h\<lparr>ch_cipher_suites := filter (\<lambda>w. w \<notin> set grease) (ch_cipher_suites h),
     ch_curves := filter (\<lambda>w. w \<notin> set grease) (ch_curves h)\<rparr>) = generate_signature md5 h"
  by (simp add: generate_signature_def suites_text_filter)

text \<open>
  Different clients share a signature whatever the hash: the suites are written one after the
  other in decimal with nothing between them, in the order the client sent them (the comment says
  they are sorted), so the suites 1, 23 and the suites 12, 3 are the same text.
\<close>

theorem signature_collides:
  "generate_signature md5 (h\<lparr>ch_cipher_suites := [1, 23]\<rparr>) =
   generate_signature md5 (h\<lparr>ch_cipher_suites := [12, 3]\<rparr>)"
  by (simp add: generate_signature_def suites_text_def grease_def itoa_def radix.simps digit_char_def)

text \<open>
  C13. A connection whose destination cannot be determined is closed by either server and nothing else happens: the
  name in it is unusable (for the HTTP server also when no request could be parsed), and so is the answer of the
  connection table, or the table has none: it could not be read, the client's address has no port, or no flow comes
  from it. Then there is no dial, no handler, no byte to anyone, no session number; no other connection is touched, and
  the count of running handlers is what it was.
\<close>

theorem undetermined_dropped:
  assumes "ap_resolver ap c n = resolve_conntrack flows remote"
    and "unknown_flow flows remote \<or> \<not> check_domain (resolve_conntrack flows remote)"
    and "\<not> check_domain (case parsed of Inl e \<Rightarrow> [] | Inr r \<Rightarrow> rq_host r)" "\<not> check_domain name"
  shows "serve_http env ap sv now c parsed buf px n = (Val (), px, snd (conn_close (TcpRef c) n)) \<and>
    serve_tls env ap sv now c tls name bad hello px n = (Val (), px, snd (conn_close tls n)) \<and>
    (\<forall>t. tc_closed (conn_of t (snd (conn_close t n))) \<and> nt_events (snd (conn_close t n)) = nt_events n \<and>
       (\<forall>i. tc_sent (nt_conns (snd (conn_close t n)) i) = tc_sent (nt_conns n i)) \<and>
       (\<forall>i. i \<noteq> conn_id t \<longrightarrow> nt_conns (snd (conn_close t n)) i = nt_conns n i))"
proof -
  have unusable: "\<not> check_domain (ap_resolver ap c n)"
    using assms(1,2) unknown_flow_unusable by metis
  have "serve_http env ap sv now c parsed buf px n = (Val (), px, snd (conn_close (TcpRef c) n))"
    using unusable assms(3) by (cases parsed) (auto simp: serve_http_def add_open_def unparsed_request_def empty_request_def Let_def)
  moreover have "serve_tls env ap sv now c tls name bad hello px n = (Val (), px, snd (conn_close tls n))"
    using unusable assms(4) by (simp add: serve_tls_def add_open_def Let_def)
  ultimately show ?thesis using conn_dropped by blast
qed

definition example_app :: app where
  "example_app = \<lparr>ap_handle_http = None, ap_trace = None,
     ap_resolver = \<lambda>c n. resolve_conntrack (Inr [(80, ''10.0.0.9'')]) ''10.0.0.2:5000'',
     ap_parse_agent = \<lambda>s. [], ap_md5_hex = id\<rparr>"

theorem undetermined_dropped_witness:
  "serve_http example_env example_app empty_server 0 0 (Inl ErrEOF) ''GET'' example_proxy
     (ps_net example_pst) = (Val (), example_proxy, snd (conn_close (TcpRef 0) (ps_net example_pst))) \<and>
   serve_tls example_env example_app empty_server 0 0 (TcpRef 0) [] True None example_proxy
     (ps_net example_pst) = (Val (), example_proxy, snd (conn_close (TcpRef 0) (ps_net example_pst)))"
proof -
  have a: "atoi_or_0 (drop (nat (index_byte ''10.0.0.2:5000'' (CHR '':'') + 1)) ''10.0.0.2:5000'') = 5000"
    by code_simp
  have u: "unknown_flow (Inr [(80, ''10.0.0.9'')]) ''10.0.0.2:5000''"
    unfolding unknown_flow_def Let_def sum.case a by simp
  have n: "ap_resolver example_app 0 (ps_net example_pst) = resolve_conntrack (Inr [(80, ''10.0.0.9'')]) ''10.0.0.2:5000''"
    by (simp add: example_app_def)
  have d: "\<not> check_domain (case Inl ErrEOF of Inl e \<Rightarrow> [] | Inr r \<Rightarrow> rq_host r)" by (simp add: check_domain_bad)
  show ?thesis
    using undetermined_dropped [OF n disjI1 [OF u] d check_domain_bad(1), of example_env empty_server 0 "''GET''" example_proxy
        "TcpRef 0" True None]
    by blast
qed



text \<open>
  A request whose Host names a port gets a wrong URL: \<open>JoinHostPort\<close> takes the host with its
  port for an IPv6 address, so \<open>GET /x\<close> to \<open>a.com:8080\<close> has the URL host \<open>[a.com:8080]:80\<close>.
\<close>

theorem host_with_port_mangled:
  "case http_ctx ap px now c (empty_request\<lparr>rq_method := ''GET'', rq_host := ''a.com:8080'',
      rq_url := Some (empty_url\<lparr>u_path := ''/x''\<rparr>)\<rparr>) original of
     Val cx \<Rightarrow> map_option u_host (rq_url (cx_req cx)) = Some ''[a.com:8080]:80''
   | Panic e \<Rightarrow> False"
  by (simp add: http_ctx_def absolute_url_def Let_def url_is_abs_def empty_url_def join_host_port_def)

end
