(* ===== verification/Transport_Pool.thy ===== *)
theory Transport_Pool
  imports Dialers "HOL-Library.AList"
begin

text \<open>
  \<open>transport/transport.go\<close> and \<open>transport/util.go\<close>: the library's own HTTP transport. Its persistent
  connections are shared by pointer between the pool of idle ones and the requests that use them, so
  they live in a store and are named by numbers. Dialling, the TLS handshake and the reading of a
  response are parameters. Methods that hold the lock are single steps.
\<close>

section \<open>Addresses\<close>

definition has_port :: "string \<Rightarrow> bool" where
  "has_port s \<longleftrightarrow> last_index_byte s (CHR '':'') > last_index_byte s (CHR '']'')"

definition port_map :: "string \<Rightarrow> string" where
  "port_map scheme = (if scheme = ''http'' then ''80'' else if scheme = ''https'' then ''443'' else [])"

definition canonical_addr :: "url \<Rightarrow> string" where
  "canonical_addr u = (if \<not> has_port (u_host u) then u_host u @ '':'' @ port_map (u_scheme u) else u_host u)"

definition cut_port :: "string \<Rightarrow> string" where
  "cut_port a = (if has_port a then take (nat (last_index_byte a (CHR '':''))) a else a)"

text \<open>
  \<open>useProxy\<close>; \<open>loopback\<close> says whether a host is the text of a loopback IP. \<open>p[0]\<close> of an empty pattern
  is out of range.
\<close>

fun no_proxy_loop :: "string \<Rightarrow> string list \<Rightarrow> bool gores" where
  "no_proxy_loop addr [] = Val True"
| "no_proxy_loop addr (p0 # ps) =
     (let p1 = to_lower (trim_space p0) in
      if length p1 = 0 then no_proxy_loop addr ps
      else
        let p = cut_port p1 in
        if addr = p then Val False
        else (case p of
          [] \<Rightarrow> Panic ''index out of range''
        | c # t \<Rightarrow> if c = CHR ''.'' \<and> (has_suffix addr p \<or> addr = t) then Val False
                  else no_proxy_loop addr ps))"

definition use_proxy :: "(string \<Rightarrow> bool) \<Rightarrow> string \<Rightarrow> string \<Rightarrow> bool gores" where
  "use_proxy loopback no_proxy addr =
     (if length addr = 0 then Val True
      else case split_host_port addr of
        Inl e \<Rightarrow> Val False
      | Inr (host, _) \<Rightarrow>
          (if host = ''localhost'' \<or> loopback host then Val False
           else if no_proxy = ''*'' then Val False
           else no_proxy_loop (cut_port (to_lower (trim_space addr))) (split_byte no_proxy (CHR '',''))))"

definition getenv_either_case :: "(string \<Rightarrow> string) \<Rightarrow> string \<Rightarrow> string" where
  "getenv_either_case getenv k =
     (let v = getenv (to_upper k) in if v \<noteq> [] then v else getenv (to_lower k))"

text \<open>\<open>ProxyFromEnvironment\<close>; \<open>parse\<close> is \<open>url.Parse\<close>.\<close>

definition proxy_from_environment ::
  "(string \<Rightarrow> string) \<Rightarrow> (string \<Rightarrow> url option) \<Rightarrow> (string \<Rightarrow> bool) \<Rightarrow> url \<Rightarrow> (goerr + url option) gores" where
  "proxy_from_environment getenv parse loopback u =
     (let proxy = getenv_either_case getenv ''HTTP_PROXY'' in
      if proxy = [] then Val (Inr None)
      else case use_proxy loopback (getenv_either_case getenv ''NO_PROXY'') (canonical_addr u) of
        Panic m \<Rightarrow> Panic m
      | Val use \<Rightarrow>
          (if \<not> use then Val (Inr None)
           else case parse proxy of
             Some p \<Rightarrow>
               (if u_scheme p = [] then
                  (case parse (''http://'' @ proxy) of Some q \<Rightarrow> Val (Inr (Some q)) | None \<Rightarrow> Val (Inr (Some p)))
                else Val (Inr (Some p)))
           | None \<Rightarrow> Val (Inl (ErrText ''invalid proxy address''))))"

section \<open>Connect methods\<close>

record connect_method =
  cm_proxy :: "url option"
  cm_scheme :: string
  cm_addr :: string

definition cm_string :: "connect_method \<Rightarrow> string" where
  "cm_string cm = join_with ''|''
     [case cm_proxy cm of None \<Rightarrow> [] | Some u \<Rightarrow> url_string u, cm_scheme cm, cm_addr cm]"

definition cm_first_hop :: "connect_method \<Rightarrow> string" where
  "cm_first_hop cm = (case cm_proxy cm of None \<Rightarrow> cm_addr cm | Some u \<Rightarrow> canonical_addr u)"

definition cm_tls_host :: "connect_method \<Rightarrow> string" where
  "cm_tls_host cm = cut_port (cm_addr cm)"

text \<open>\<open>base64.URLEncoding\<close>, with padding.\<close>

definition b64_char :: "nat \<Rightarrow> char" where
  "b64_char n = (if n < 26 then char_of (65 + n) else if n < 52 then char_of (71 + n)
     else if n < 62 then char_of (n - 4) else if n = 62 then CHR ''-'' else CHR ''_'')"

fun b64_encode :: "string \<Rightarrow> string" where
  "b64_encode [] = []"
| "b64_encode [a] = [b64_char (byte a div 4), b64_char (byte a mod 4 * 16), CHR ''='', CHR ''='']"
| "b64_encode [a, b] = [b64_char (byte a div 4), b64_char (byte a mod 4 * 16 + byte b div 16),
     b64_char (byte b mod 16 * 4), CHR ''='']"
| "b64_encode (a # b # c # r) = b64_char (byte a div 4) # b64_char (byte a mod 4 * 16 + byte b div 16) #
     b64_char (byte b mod 16 * 4 + byte c div 64) # b64_char (byte c mod 64) # b64_encode r"

definition cm_proxy_auth :: "connect_method \<Rightarrow> string" where
  "cm_proxy_auth cm = (case cm_proxy cm of
     None \<Rightarrow> []
   | Some u \<Rightarrow> (case u_user u of None \<Rightarrow> [] | Some i \<Rightarrow> ''Basic '' @ b64_encode i))"

text \<open>\<open>connectMethodForRequest\<close>; \<open>proxy\<close> is the transport's \<open>Proxy\<close> function, if any.\<close>

definition connect_method_for ::
  "(url \<Rightarrow> goerr + url option) option \<Rightarrow> url \<Rightarrow> goerr + connect_method" where
  "connect_method_for proxy u =
     (let cm = \<lparr>cm_proxy = None, cm_scheme = u_scheme u, cm_addr = canonical_addr u\<rparr> in
      case proxy of
        None \<Rightarrow> Inr cm
      | Some f \<Rightarrow> (case f u of Inl e \<Rightarrow> Inl e | Inr p \<Rightarrow> Inr (cm\<lparr>cm_proxy := p\<rparr>)))"

section \<open>The pool of idle connections\<close>

record persist_conn =
  pc_key :: string
  pc_conn :: conn_ref
  pc_host :: string
  pc_is_proxy :: bool
  pc_mutate :: "string option"
  pc_expected :: int
  pc_broken :: bool

type_synonym idle_map = "(string \<times> nat list) list"

record transport =
  tp_idle :: "idle_map option"
  tp_alt :: "string list"
  tp_disable_keep_alives :: bool
  tp_disable_compression :: bool
  tp_max_idle :: int
  tp_store :: "nat \<Rightarrow> persist_conn"
  tp_fresh :: nat
  tp_net :: net

text \<open>\<open>RegisterProtocol\<close>: the schemes in the order they were registered.\<close>

definition register_protocol :: "string \<Rightarrow> (transport, unit) go" where
  "register_protocol scheme = (\<lambda>t.
     if scheme = ''http'' \<or> scheme = ''https'' then gopanic (''protocol '' @ scheme @ '' already registered'') t
     else if scheme \<in> set (tp_alt t) then gopanic (''protocol '' @ scheme @ '' already registered'') t
     else ret () (t\<lparr>tp_alt := tp_alt t @ [scheme]\<rparr>))"

definition pc_close :: "nat \<Rightarrow> transport \<Rightarrow> transport" where
  "pc_close p t =
     (let c = tp_store t p
      in t\<lparr>tp_store := (tp_store t)(p := c\<lparr>pc_broken := True, pc_mutate := None\<rparr>),
           tp_net := snd (conn_close (pc_conn c) (tp_net t))\<rparr>)"

definition num_idle_connections :: "transport \<Rightarrow> nat" where
  "num_idle_connections t = (case tp_idle t of None \<Rightarrow> 0 | Some m \<Rightarrow> length m)"

definition close_idle_connections :: "transport \<Rightarrow> transport" where
  "close_idle_connections t = (case tp_idle t of
     None \<Rightarrow> t
   | Some m \<Rightarrow> (fold pc_close (concat (map snd m)) t)\<lparr>tp_idle := Some []\<rparr>)"

definition default_max_idle :: int where
  "default_max_idle = 2"

definition max_idle :: "transport \<Rightarrow> int" where
  "max_idle t = (if tp_max_idle t = 0 then default_max_idle else tp_max_idle t)"

definition idle_list :: "idle_map \<Rightarrow> string \<Rightarrow> nat list" where
  "idle_list m k = (case map_of m k of None \<Rightarrow> [] | Some ps \<Rightarrow> ps)"

text \<open>\<open>putIdleConn\<close>; a nil map reads as empty, and an assignment to it panics.\<close>

definition put_idle_conn :: "nat \<Rightarrow> (transport, bool) go" where
  "put_idle_conn p = (\<lambda>t.
     if tp_disable_keep_alives t \<or> tp_max_idle t < 0 then ret False (pc_close p t)
     else if pc_broken (tp_store t p) then ret False t
     else
       let key = pc_key (tp_store t p);
           ps = (case tp_idle t of None \<Rightarrow> [] | Some m \<Rightarrow> idle_list m key)
       in if int (length ps) \<ge> max_idle t then ret False (pc_close p t)
          else case tp_idle t of
            None \<Rightarrow> gopanic ''assignment to entry in nil map'' t
          | Some m \<Rightarrow> ret True (t\<lparr>tp_idle := Some (AList.update key (ps @ [p]) m)\<rparr>))"

text \<open>\<open>getIdleConn\<close>: the loop pops the last connection of the key until one is not broken.\<close>

function pop_idle :: "(nat \<Rightarrow> bool) \<Rightarrow> string \<Rightarrow> idle_map \<Rightarrow> (nat option gores) \<times> idle_map" where
  "pop_idle broken key m =
     (case map_of m key of
        None \<Rightarrow> (Val None, m)
      | Some ps \<Rightarrow>
          (if ps = [] then (Panic ''index out of range'', m)
           else
             let m1 = (if length ps = 1 then AList.delete key m else AList.update key (butlast ps) m)
             in if \<not> broken (last ps) then (Val (Some (last ps)), m1) else pop_idle broken key m1))"
  by pat_completeness auto
termination
  by (relation "measure (\<lambda>(b, k, m). case map_of m k of None \<Rightarrow> 0 | Some ps \<Rightarrow> Suc (length ps))")
    (auto simp: update_conv' delete_conv' split: if_splits)

declare pop_idle.simps [simp del]

definition get_idle_conn :: "connect_method \<Rightarrow> (transport, nat option) go" where
  "get_idle_conn cm = (\<lambda>t.
     let m = (case tp_idle t of None \<Rightarrow> [] | Some m \<Rightarrow> m)
     in case pop_idle (\<lambda>p. pc_broken (tp_store t p)) (cm_string cm) m of
          (r, m1) \<Rightarrow> (r, t\<lparr>tp_idle := Some m1\<rparr>))"

section \<open>New connections\<close>

text \<open>
  What a new connection needs of the outside: \<open>t.dial\<close> with its address resolution, the TLS client
  with handshake and verification, and \<open>http.ReadResponse\<close>; then, for an exchange, the text that
  \<open>Request.Write\<close> or (with \<open>True\<close>) \<open>WriteProxy\<close> sends, and \<open>gzip.NewReader\<close>.
\<close>

record dial_env =
  de_dial :: "string \<Rightarrow> net \<Rightarrow> (goerr + conn_ref) \<times> net"
  de_tls :: "conn_ref \<Rightarrow> string \<Rightarrow> net \<Rightarrow> (goerr + conn_ref) \<times> net"
  de_read_response :: "conn_ref \<Rightarrow> http_request \<Rightarrow> net \<Rightarrow> (goerr + http_response) \<times> net"
  de_request_text :: "bool \<Rightarrow> http_request \<Rightarrow> string"
  de_gunzip :: "body \<Rightarrow> goerr + body"

definition connect_auth_text :: "string \<Rightarrow> string \<Rightarrow> string" where
  "connect_auth_text addr auth = ''CONNECT '' @ addr @ '' HTTP/1.1'' @ crlf @ ''Host: '' @ addr @ crlf @
     ''User-Agent: Go-http-client/1.1'' @ crlf @
     (if auth = [] then [] else ''Proxy-Authorization: '' @ auth @ crlf) @ crlf"

text \<open>The error text after the status code: \<open>f[1]\<close> of the two pieces \<open>SplitN\<close> makes.\<close>

definition after_blank :: "string \<Rightarrow> string gores" where
  "after_blank s =
     (let i = index_byte s (CHR '' '') in
      if i = -1 then Panic ''index out of range'' else Val (drop (nat i + 1) s))"

definition connect_through ::
  "dial_env \<Rightarrow> connect_method \<Rightarrow> conn_ref \<Rightarrow> net \<Rightarrow> goerr option gores \<times> net" where
  "connect_through de cm c n =
     (let auth = cm_proxy_auth cm;
          n1 = snd (conn_write c (connect_auth_text (cm_addr cm) auth) n)
      in case de_read_response de c (connect_request (cm_addr cm)) n1 of
           (Inl e, n2) \<Rightarrow> (Val (Some e), snd (conn_close c n2))
         | (Inr resp, n2) \<Rightarrow>
             (if rs_code resp \<noteq> 200 then
                (case after_blank (rs_status resp) of
                   Panic m \<Rightarrow> (Panic m, snd (conn_close c n2))
                 | Val txt \<Rightarrow> (Val (Some (ErrText txt)), snd (conn_close c n2)))
              else (Val None, n2)))"

definition add_conn :: "persist_conn \<Rightarrow> (transport, nat) go" where
  "add_conn pc = (\<lambda>t. (Val (tp_fresh t),
     t\<lparr>tp_store := (tp_store t)(tp_fresh t := pc), tp_fresh := tp_fresh t + 1\<rparr>))"

text \<open>The rest of \<open>getConn\<close>, when the pool has no connection.\<close>

definition dial_conn :: "dial_env \<Rightarrow> connect_method \<Rightarrow> (transport, goerr + nat) go" where
  "dial_conn de cm = (\<lambda>t.
     case de_dial de (cm_first_hop cm) (tp_net t) of
       (Inl e, n) \<Rightarrow> ret (Inl (case cm_proxy cm of None \<Rightarrow> e
           | Some u \<Rightarrow> ErrText (''http: error connecting to proxy '' @ url_string u @ '': '' @ error_text e)))
         (t\<lparr>tp_net := n\<rparr>)
     | (Inr c, n) \<Rightarrow>
        (let pc0 = \<lparr>pc_key = cm_string cm, pc_conn = c, pc_host = cm_first_hop cm, pc_is_proxy = False,
                    pc_mutate = None, pc_expected = 0, pc_broken = False\<rparr>;
             pc1 = (if cm_proxy cm \<noteq> None \<and> cm_scheme cm = ''http''
                    then pc0\<lparr>pc_is_proxy := True,
                             pc_mutate := (if cm_proxy_auth cm \<noteq> [] then Some (cm_proxy_auth cm) else None)\<rparr>
                    else pc0)
         in case (if cm_proxy cm \<noteq> None \<and> cm_scheme cm = ''https''
                  then connect_through de cm c n else (Val None, n)) of
              (Panic m, n1) \<Rightarrow> gopanic m (t\<lparr>tp_net := n1\<rparr>)
            | (Val (Some e), n1) \<Rightarrow> ret (Inl e) (t\<lparr>tp_net := n1\<rparr>)
            | (Val None, n1) \<Rightarrow>
                (if cm_scheme cm = ''https'' then
                   (case de_tls de c (cm_tls_host cm) n1 of
                      (Inl e, n2) \<Rightarrow> ret (Inl e) (t\<lparr>tp_net := n2\<rparr>)
                    | (Inr tls, n2) \<Rightarrow>
                        bnd (add_conn (pc1\<lparr>pc_conn := tls\<rparr>)) (\<lambda>p. ret (Inr p)) (t\<lparr>tp_net := n2\<rparr>))
                 else bnd (add_conn pc1) (\<lambda>p. ret (Inr p)) (t\<lparr>tp_net := n1\<rparr>))))"

definition get_conn :: "dial_env \<Rightarrow> connect_method \<Rightarrow> (transport, goerr + nat) go" where
  "get_conn de cm = bnd (get_idle_conn cm) (\<lambda>idle. case idle of
     Some p \<Rightarrow> ret (Inr p)
   | None \<Rightarrow> dial_conn de cm)"

section \<open>What the pool promises\<close>

definition idle_conns :: "transport \<Rightarrow> nat list" where
  "idle_conns t = (case tp_idle t of None \<Rightarrow> [] | Some m \<Rightarrow> concat (map snd m))"

text \<open>
  The lists of the pool are never empty, hold no connection twice, keep to the limit, and hold only
  connections made for their key.
\<close>

definition list_ok :: "transport \<Rightarrow> string \<Rightarrow> nat list \<Rightarrow> bool" where
  "list_ok t k ps \<longleftrightarrow> ps \<noteq> [] \<and> distinct ps \<and> int (length ps) \<le> max_idle t \<and>
     (\<forall>p \<in> set ps. p < tp_fresh t \<and> pc_key (tp_store t p) = k)"

definition pool_ok :: "transport \<Rightarrow> bool" where
  "pool_ok t \<longleftrightarrow> (case tp_idle t of
     None \<Rightarrow> tp_fresh t = 0
   | Some m \<Rightarrow> distinct (map fst m) \<and> (\<forall>k ps. map_of m k = Some ps \<longrightarrow> list_ok t k ps))"

text \<open>
  The operations other goroutines may run: a connection is put back by the loop that reads it,
  while it is not in the pool.
\<close>

inductive pool_step :: "transport \<Rightarrow> transport \<Rightarrow> bool" where
  step_get: "get_conn de cm t = (r, t') \<Longrightarrow> pool_step t t'"
| step_put: "p < tp_fresh t \<Longrightarrow> p \<notin> set (idle_conns t) \<Longrightarrow> put_idle_conn p t = (r, t') \<Longrightarrow> pool_step t t'"
| step_close: "pool_step t (pc_close p t)"
| step_close_idle: "pool_step t (close_idle_connections t)"

inductive pool_reachable :: "transport \<Rightarrow> bool" where
  pool_init: "tp_idle t = None \<Longrightarrow> tp_fresh t = 0 \<Longrightarrow> pool_reachable t"
| pool_next: "pool_reachable t \<Longrightarrow> pool_step t t' \<Longrightarrow> pool_reachable t'"

inductive_cases pool_stepE: "pool_step t t'"

lemma pc_close_simps [simp]:
  "tp_idle (pc_close p t) = tp_idle t" "tp_fresh (pc_close p t) = tp_fresh t"
  "tp_max_idle (pc_close p t) = tp_max_idle t" "max_idle (pc_close p t) = max_idle t"
  "pc_key (tp_store (pc_close p t) q) = pc_key (tp_store t q)"
  by (simp_all add: pc_close_def Let_def max_idle_def)

lemma fold_pc_close_simps [simp]:
  "tp_idle (fold pc_close ps t) = tp_idle t" "tp_fresh (fold pc_close ps t) = tp_fresh t"
  by (induction ps arbitrary: t) simp_all

lemma list_ok_cong:
  "tp_max_idle t' = tp_max_idle t \<Longrightarrow> tp_fresh t \<le> tp_fresh t' \<Longrightarrow>
   (\<And>p. p < tp_fresh t \<Longrightarrow> pc_key (tp_store t' p) = pc_key (tp_store t p)) \<Longrightarrow>
   list_ok t k ps \<Longrightarrow> list_ok t' k ps"
  by (fastforce simp: list_ok_def max_idle_def)

lemma pool_ok_close: "pool_ok t \<Longrightarrow> pool_ok (pc_close p t)"
  by (auto simp: pool_ok_def list_ok_def split: option.splits)

lemma pool_ok_close_idle: "pool_ok t \<Longrightarrow> pool_ok (close_idle_connections t)"
  by (auto simp: pool_ok_def close_idle_connections_def split: option.splits)

lemma idle_conns_iff:
  "tp_idle t = Some m \<Longrightarrow> distinct (map fst m) \<Longrightarrow> p \<in> set (idle_conns t) \<longleftrightarrow> (\<exists>k ps. map_of m k = Some ps \<and> p \<in> set ps)"
  by (force simp: idle_conns_def map_of_eq_Some_iff)

lemma pool_ok_put:
  assumes ok: "pool_ok t" and p: "p < tp_fresh t" "p \<notin> set (idle_conns t)"
  shows "\<exists>b t'. put_idle_conn p t = (Val b, t') \<and> pool_ok t'"
proof (cases "tp_disable_keep_alives t \<or> tp_max_idle t < 0")
  case True
  then show ?thesis using pool_ok_close [OF ok, of p] by (auto simp: put_idle_conn_def ret_def)
next
  case False
  from ok p(1) obtain m where m: "tp_idle t = Some m" and d: "distinct (map fst m)"
    and l: "\<And>k ps. map_of m k = Some ps \<Longrightarrow> list_ok t k ps"
    by (auto simp: pool_ok_def split: option.splits)
  let ?k = "pc_key (tp_store t p)" let ?ps = "idle_list m ?k"
  let ?t = "t\<lparr>tp_idle := Some (AList.update ?k (?ps @ [p]) m)\<rparr>"
  show ?thesis
  proof (cases "pc_broken (tp_store t p) \<or> int (length ?ps) \<ge> max_idle t")
    case True
    then show ?thesis using False m ok pool_ok_close [OF ok] by (auto simp: put_idle_conn_def ret_def)
  next
    case room: False
    have "distinct (?ps @ [p]) \<and> (\<forall>q \<in> set ?ps. q < tp_fresh t \<and> pc_key (tp_store t q) = ?k)"
    proof (cases "map_of m ?k")
      case (Some qs)
      then show ?thesis using l [OF Some] p(2) idle_conns_iff [OF m d, of p] by (auto simp: idle_list_def list_ok_def)
    qed (simp add: idle_list_def)
    then have "list_ok ?t ?k (?ps @ [p])" using room p(1) by (auto simp: list_ok_def max_idle_def)
    moreover have "list_ok ?t k qs" if "map_of m k = Some qs" for k qs
      by (rule list_ok_cong [OF _ _ _ l [OF that]]) simp_all
    ultimately have "pool_ok ?t"
      using d by (auto simp: pool_ok_def distinct_update update_conv' split: if_splits)
    then show ?thesis using False room m by (auto simp: put_idle_conn_def ret_def Let_def)
  qed
qed

definition nonempty_lists :: "idle_map \<Rightarrow> bool" where
  "nonempty_lists m \<longleftrightarrow> (\<forall>k ps. map_of m k = Some ps \<longrightarrow> ps \<noteq> [])"

text \<open>What one pop does to the list of its key.\<close>

definition drop_last :: "string \<Rightarrow> nat list \<Rightarrow> idle_map \<Rightarrow> idle_map" where
  "drop_last key ps m = (if length ps = 1 then AList.delete key m else AList.update key (butlast ps) m)"

lemma drop_last_ok:
  assumes "distinct (map fst m)" "nonempty_lists m" "map_of m key = Some ps"
  shows "distinct (map fst (drop_last key ps m))" "nonempty_lists (drop_last key ps m)"
    "idle_list (drop_last key ps m) key = butlast ps"
    "j \<noteq> key \<Longrightarrow> map_of (drop_last key ps m) j = map_of m j"
proof -
  have n: "ps \<noteq> []" using assms by (auto simp: nonempty_lists_def)
  then have b: "length ps \<noteq> 1 \<Longrightarrow> butlast ps \<noteq> []" by (cases ps rule: rev_cases) auto
  show "distinct (map fst (drop_last key ps m))"
    using assms(1) by (simp add: drop_last_def distinct_update distinct_delete)
  show "nonempty_lists (drop_last key ps m)" using assms(2) b
    by (auto simp: drop_last_def nonempty_lists_def delete_conv' update_conv' split: if_splits)
  show "idle_list (drop_last key ps m) key = butlast ps"
    by (cases ps rule: rev_cases) (auto simp: drop_last_def idle_list_def delete_conv' update_conv')
  show "j \<noteq> key \<Longrightarrow> map_of (drop_last key ps m) j = map_of m j"
    by (simp add: drop_last_def delete_conv' update_conv')
qed

definition popped :: "(nat \<Rightarrow> bool) \<Rightarrow> string \<Rightarrow> idle_map \<Rightarrow> nat option \<Rightarrow> idle_map \<Rightarrow> bool" where
  "popped broken key m r m' \<longleftrightarrow>
     distinct (map fst m') \<and> nonempty_lists m' \<and> (\<forall>j. j \<noteq> key \<longrightarrow> map_of m' j = map_of m j) \<and>
     (case r of
        Some p \<Rightarrow> \<not> broken p \<and> (\<exists>qs. idle_list m key = idle_list m' key @ p # qs \<and> (\<forall>q \<in> set qs. broken q))
      | None \<Rightarrow> idle_list m' key = [] \<and> (\<forall>q \<in> set (idle_list m key). broken q))"

lemma pop_idle_popped:
  "distinct (map fst m) \<Longrightarrow> nonempty_lists m \<Longrightarrow>
     \<exists>r m'. pop_idle broken key m = (Val r, m') \<and> popped broken key m r m'"
proof (induction broken key m rule: pop_idle.induct)
  case (1 broken key m)
  show ?case
  proof (cases "map_of m key")
    case None
    then show ?thesis using 1(2,3) by (simp add: pop_idle.simps [of broken key m] popped_def idle_list_def)
  next
    case (Some ps)
    let ?m1 = "drop_last key ps m"
    note d = drop_last_ok [OF 1(2,3) Some]
    have n: "ps \<noteq> []" using 1(3) Some by (auto simp: nonempty_lists_def)
    have il: "idle_list m key = butlast ps @ [last ps]" using Some n by (simp add: idle_list_def)
    have u: "pop_idle broken key m = (if \<not> broken (last ps) then (Val (Some (last ps)), ?m1) else pop_idle broken key ?m1)"
      using Some n by (simp add: pop_idle.simps [of broken key m] drop_last_def Let_def)
    show ?thesis
    proof (cases "broken (last ps)")
      case False
      then show ?thesis using u d il by (simp add: popped_def)
    next
      case True
      have "\<exists>r m'. pop_idle broken key ?m1 = (Val r, m') \<and> popped broken key ?m1 r m'"
        by (rule 1(1) [OF Some n _ _ d(1,2)]) (use True in \<open>auto simp: drop_last_def\<close>)
      then obtain r m' where r: "pop_idle broken key ?m1 = (Val r, m')" "popped broken key ?m1 r m'" by blast
      then have "popped broken key m r m'"
        using d(3,4) il True by (auto simp: popped_def split: option.splits)
      then show ?thesis using u r(1) True by simp
    qed
  qed
qed

lemma get_idle_popped:
  assumes "pool_ok t"
  obtains r m' where "get_idle_conn cm t = (Val r, t\<lparr>tp_idle := Some m'\<rparr>)"
    "popped (\<lambda>p. pc_broken (tp_store t p)) (cm_string cm) (case tp_idle t of None \<Rightarrow> [] | Some m \<Rightarrow> m) r m'"
proof -
  let ?m = "case tp_idle t of None \<Rightarrow> [] | Some m \<Rightarrow> m"
  have "distinct (map fst ?m)" "nonempty_lists ?m"
    using assms by (auto simp: pool_ok_def nonempty_lists_def list_ok_def split: option.splits)
  from pop_idle_popped [OF this] obtain r m' where
    "pop_idle (\<lambda>p. pc_broken (tp_store t p)) (cm_string cm) ?m = (Val r, m')"
    "popped (\<lambda>p. pc_broken (tp_store t p)) (cm_string cm) ?m r m'" by blast
  then show thesis using that by (simp add: get_idle_conn_def Let_def)
qed

lemma pool_ok_popped:
  assumes ok: "pool_ok t" and m: "m = (case tp_idle t of None \<Rightarrow> [] | Some m \<Rightarrow> m)"
    and pop: "popped broken key m r m'"
  shows "pool_ok (t\<lparr>tp_idle := Some m'\<rparr>)"
proof -
  have l: "list_ok t k ps" if "map_of m k = Some ps" for k ps
    using ok m that by (auto simp: pool_ok_def split: option.splits)
  have "list_ok t key ps" if a: "map_of m' key = Some ps" for ps
  proof -
    have i: "idle_list m' key = ps" and n: "ps \<noteq> []"
      using a pop by (auto simp: idle_list_def popped_def nonempty_lists_def)
    then obtain qs where q: "idle_list m key = ps @ qs" using pop by (auto simp: popped_def split: option.splits)
    then have "map_of m key = Some (ps @ qs)" using n by (auto simp: idle_list_def split: option.splits)
    from l [OF this] n show ?thesis by (auto simp: list_ok_def)
  qed
  then have "list_ok t k ps" if "map_of m' k = Some ps" for k ps
    using l [of k ps] pop that by (cases "k = key") (auto simp: popped_def)
  then have "list_ok (t\<lparr>tp_idle := Some m'\<rparr>) k ps" if "map_of m' k = Some ps" for k ps
    using that by (auto simp: list_ok_def max_idle_def)
  then show ?thesis using pop by (simp add: pool_ok_def popped_def)
qed

lemma get_idle_ok:
  assumes "pool_ok t"
  shows "\<exists>r t'. get_idle_conn cm t = (Val r, t') \<and> pool_ok t' \<and> tp_idle t' \<noteq> None"
  using get_idle_popped [OF assms, of cm] pool_ok_popped [OF assms refl] by (metis option.distinct(1) transport.select_convs(1) transport.update_convs(1) transport.surjective)

lemma pool_ok_net [simp]: "pool_ok (t\<lparr>tp_net := n\<rparr>) = pool_ok t"
  by (auto simp: pool_ok_def list_ok_def max_idle_def split: option.splits)

lemma pool_ok_add:
  assumes "pool_ok t" "tp_idle t \<noteq> None"
  shows "pool_ok (snd (add_conn pc t))"
proof -
  have "list_ok (snd (add_conn pc t)) k ps" if "list_ok t k ps" for k ps
    using that by (auto simp: add_conn_def list_ok_def max_idle_def)
  then show ?thesis using assms by (auto simp: pool_ok_def add_conn_def)
qed

lemma pool_ok_dial:
  assumes "pool_ok t" "tp_idle t \<noteq> None"
  shows "pool_ok (snd (dial_conn de cm t))"
proof -
  have a: "pool_ok (snd (bnd (add_conn pc) (\<lambda>p. ret (Inr p)) (t\<lparr>tp_net := n\<rparr>)))" for pc n
    using pool_ok_add [of "t\<lparr>tp_net := n\<rparr>" pc] assms by (simp add: bnd_def add_conn_def ret_def)
  have r: "pool_ok (snd (ret x (t\<lparr>tp_net := n\<rparr>)))" "pool_ok (snd (gopanic m (t\<lparr>tp_net := n\<rparr>)))"
    for x :: "goerr + nat" and n m using assms by (simp_all add: ret_def gopanic_def)
  show ?thesis
    unfolding dial_conn_def Let_def by (simp add: a r split: option.split sum.split prod.split gores.split)
qed

lemma pool_ok_get:
  assumes "pool_ok t"
  shows "pool_ok (snd (get_conn de cm t))"
proof -
  from get_idle_ok [OF assms] obtain r u where u: "get_idle_conn cm t = (Val r, u)" "pool_ok u" "tp_idle u \<noteq> None"
    by blast
  then show ?thesis using pool_ok_dial [of u de cm] by (simp add: get_conn_def bnd_def ret_def split: option.split)
qed

lemma pool_ok_step: "pool_step t t' \<Longrightarrow> pool_ok t \<Longrightarrow> pool_ok t'"
proof (erule pool_stepE)
  fix de cm r
  assume "pool_ok t" "get_conn de cm t = (r, t')"
  then show "pool_ok t'" using pool_ok_get [of t de cm] by simp
next
  fix p r
  assume "pool_ok t" "p < tp_fresh t" "p \<notin> set (idle_conns t)" "put_idle_conn p t = (r, t')"
  then show "pool_ok t'" using pool_ok_put [of t p] by auto
qed (simp_all add: pool_ok_close pool_ok_close_idle)

lemma pool_reachable_ok: "pool_reachable t \<Longrightarrow> pool_ok t"
proof (induction rule: pool_reachable.induct)
  case (pool_init t)
  then show ?case by (simp add: pool_ok_def)
qed (rule pool_ok_step)

lemma set_update_idle: "x \<in> set ps \<Longrightarrow> \<exists>e \<in> set (AList.update k ps m). x \<in> set (snd e)"
  by (induction m) auto

section \<open>The properties of the pool\<close>

lemma idle_conns_set: "idle_conns (t\<lparr>tp_idle := Some m\<rparr>) = concat (map snd m)"
  by (simp add: idle_conns_def)

lemma pool_key_at:
  "pool_ok t \<Longrightarrow> p \<in> set (idle_conns t) \<Longrightarrow>
     \<exists>m. tp_idle t = Some m \<and> p \<in> set (idle_list m (pc_key (tp_store t p)))"
  by (cases "tp_idle t")
    (auto simp: idle_conns_iff pool_ok_def list_ok_def idle_list_def idle_conns_def [of t] dest!: map_of_is_SomeI
      split: option.splits)

text \<open>
  C30. \<open>getIdleConn\<close> on a pool that any interleaving of the operations has produced: it does not
  index out of range; the connection it hands out is not broken, was made for the wanted key and is
  no longer in the pool; and when it hands out none, every idle connection of that key is broken.
\<close>

theorem pool_hands_out_usable:
  assumes "pool_reachable t"
  shows "\<exists>r t'. get_idle_conn cm t = (Val r, t') \<and>
     (case r of
        Some p \<Rightarrow> \<not> pc_broken (tp_store t p) \<and> pc_key (tp_store t p) = cm_string cm \<and>
                  p \<in> set (idle_conns t) \<and> p \<notin> set (idle_conns t')
      | None \<Rightarrow> \<forall>p. p \<in> set (idle_conns t) \<longrightarrow> pc_key (tp_store t p) = cm_string cm \<longrightarrow> pc_broken (tp_store t p))"
proof -
  have ok: "pool_ok t" by (rule pool_reachable_ok [OF assms])
  let ?m = "case tp_idle t of None \<Rightarrow> [] | Some m \<Rightarrow> m" let ?k = "cm_string cm"
  from get_idle_popped [OF ok] obtain r m' where g: "get_idle_conn cm t = (Val r, t\<lparr>tp_idle := Some m'\<rparr>)"
    and pop: "popped (\<lambda>p. pc_broken (tp_store t p)) ?k ?m r m'" .
  have ok': "pool_ok (t\<lparr>tp_idle := Some m'\<rparr>)" by (rule pool_ok_popped [OF ok refl pop])
  have at: "p \<in> set (idle_list ?m (pc_key (tp_store t p)))" if "p \<in> set (idle_conns t)" for p
    using pool_key_at [OF ok that] by auto
  show ?thesis
  proof (cases r)
    case None
    then have "\<forall>p. p \<in> set (idle_conns t) \<longrightarrow> pc_key (tp_store t p) = ?k \<longrightarrow> pc_broken (tp_store t p)"
      using pop at by (fastforce simp: popped_def)
    then show ?thesis using g None by auto
  next
    case (Some p)
    then obtain qs where q: "\<not> pc_broken (tp_store t p)" "idle_list ?m ?k = idle_list m' ?k @ p # qs"
      using pop by (auto simp: popped_def)
    then obtain ps where ps: "tp_idle t \<noteq> None" "map_of ?m ?k = Some ps" "ps = idle_list m' ?k @ p # qs"
      by (auto simp: idle_list_def split: option.splits)
    with ok have l: "list_ok t ?k ps" by (auto simp: pool_ok_def)
    then have k: "pc_key (tp_store t p) = ?k" "p \<notin> set (idle_list m' ?k)" using ps(3) by (auto simp: list_ok_def)
    have "p \<in> set (idle_conns t)" using ps by (force simp: idle_conns_def dest: map_of_SomeD)
    moreover have "p \<notin> set (idle_conns (t\<lparr>tp_idle := Some m'\<rparr>))"
      using pool_key_at [OF ok', of p] k by auto
    ultimately show ?thesis using g Some q(1) k(1) by auto
  qed
qed

text \<open>A transport that has made one connection, before and after the connection is put back.\<close>

definition example_dial :: dial_env where
  "example_dial = \<lparr>de_dial = (\<lambda>a n. (Inr (TcpRef 7), n)), de_tls = (\<lambda>r h n. (Inr r, n)),
     de_read_response = (\<lambda>r rq n. (Inr ((new_response rq 200 [] [])\<lparr>rs_status := ''200 OK''\<rparr>), n)),
     de_request_text = (\<lambda>b rq. rq_method rq @ crlf), de_gunzip = Inr\<rparr>"

definition example_transport :: transport where
  "example_transport = \<lparr>tp_idle = None, tp_alt = [], tp_disable_keep_alives = False, tp_disable_compression = False,
     tp_max_idle = 0, tp_store = (\<lambda>_. undefined), tp_fresh = 0,
     tp_net = \<lparr>nt_conns = (\<lambda>_. fresh_conn), nt_events = []\<rparr>\<rparr>"

definition example_cm :: connect_method where
  "example_cm = \<lparr>cm_proxy = None, cm_scheme = ''http'', cm_addr = ''a:80''\<rparr>"

definition one_conn :: transport where
  "one_conn = snd (get_conn example_dial example_cm example_transport)"

definition one_idle :: transport where
  "one_idle = snd (put_idle_conn 0 one_conn)"

lemma example_key: "cm_string example_cm = ''|http|a:80''"
  by (simp add: example_cm_def cm_string_def)

lemma one_conn_eq:
  "get_conn example_dial example_cm example_transport = (Val (Inr 0), one_conn)"
  "tp_idle one_conn = Some []" "tp_fresh one_conn = Suc 0" "pc_key (tp_store one_conn 0) = ''|http|a:80''"
  "\<not> pc_broken (tp_store one_conn 0)" "tp_max_idle one_conn = 0" "\<not> tp_disable_keep_alives one_conn"
  "pc_conn (tp_store one_conn 0) = TcpRef 7" "pc_mutate (tp_store one_conn 0) = None"
  "tp_net one_conn = tp_net example_transport"
  by (simp_all add: one_conn_def get_conn_def get_idle_conn_def pop_idle.simps bnd_def ret_def dial_conn_def
      add_conn_def example_transport_def example_dial_def Let_def example_key, simp_all add: example_cm_def)

lemma one_idle_eq:
  "put_idle_conn 0 one_conn = (Val True, one_idle)"
  "tp_idle one_idle = Some [(''|http|a:80'', [0])]" "tp_store one_idle = tp_store one_conn"
  by (simp_all add: one_idle_def put_idle_conn_def one_conn_eq ret_def Let_def max_idle_def default_max_idle_def idle_list_def)

lemma one_conn_reachable: "pool_reachable one_conn"
  by (rule pool_next [OF pool_init [of example_transport] step_get [OF one_conn_eq(1)]]) (simp_all add: example_transport_def)

lemma one_idle_reachable: "pool_reachable one_idle"
  by (rule pool_next [OF one_conn_reachable step_put [OF _ _ one_idle_eq(1)]]) (simp_all add: one_conn_eq idle_conns_def)

lemma one_idle_get: "fst (get_idle_conn example_cm one_idle) = Val (Some 0)"
  by (simp add: get_idle_conn_def one_idle_eq one_conn_eq pop_idle.simps example_key)

theorem pool_hands_out_usable_witness:
  "\<exists>t'. get_idle_conn example_cm one_idle = (Val (Some 0), t') \<and>
     \<not> pc_broken (tp_store one_idle 0) \<and> 0 \<notin> set (idle_conns t')"
  using pool_hands_out_usable [OF one_idle_reachable, of example_cm] one_idle_get
  by (auto split: option.splits)

text \<open>
  C31. Putting a connection back that is not in the pool never assigns to the nil map; afterwards no
  host has more idle connections than the limit, the connection is in the pool exactly when the call
  says so, and a connection that was refused is broken, that is closed or known to have failed.
\<close>

theorem put_idle_bounded:
  assumes "pool_reachable t" "p < tp_fresh t" "p \<notin> set (idle_conns t)"
  shows "\<exists>b t' m. put_idle_conn p t = (Val b, t') \<and> tp_idle t' = Some m \<and>
     (\<forall>k. int (length (idle_list m k)) \<le> max 0 (max_idle t)) \<and>
     b = (p \<in> set (idle_conns t')) \<and> (\<not> b \<longrightarrow> pc_broken (tp_store t' p))"
proof -
  have ok: "pool_ok t" by (rule pool_reachable_ok [OF assms(1)])
  then obtain m0 where m0: "tp_idle t = Some m0" using assms(2) by (auto simp: pool_ok_def split: option.splits)
  from pool_ok_put [OF ok assms(2,3)] obtain b t' where p: "put_idle_conn p t = (Val b, t')" "pool_ok t'" by blast
  have mx: "max_idle t' = max_idle t" and b: "b = (p \<in> set (idle_conns t'))" "\<not> b \<longrightarrow> pc_broken (tp_store t' p)"
    "tp_idle t' \<noteq> None"
    using p assms(3) m0
    by (auto simp: put_idle_conn_def ret_def Let_def max_idle_def idle_conns_def pc_close_def update_conv'
        set_update_idle split: if_splits)
  then obtain m where m: "tp_idle t' = Some m" by auto
  have "int (length (idle_list m k)) \<le> max 0 (max_idle t)" for k
    using p(2) m mx by (cases "map_of m k") (auto simp: pool_ok_def list_ok_def idle_list_def le_max_iff_disj)
  then show ?thesis using p(1) m b by blast
qed

theorem put_idle_bounded_witness:
  "\<exists>m. tp_idle one_idle = Some m \<and> int (length (idle_list m ''|http|a:80'')) \<le> 2 \<and> 0 \<in> set (idle_conns one_idle)"
  using put_idle_bounded [OF one_conn_reachable, of 0] one_idle_eq
  by (fastforce simp: one_conn_eq idle_conns_def max_idle_def default_max_idle_def)

section \<open>Deviations\<close>

text \<open>A pattern of \<open>NO_PROXY\<close> that is only a port is cut to nothing, and its first byte is then read.\<close>

theorem no_proxy_port_panics:
  assumes "split_host_port addr = Inr (host, port)" "host \<noteq> ''localhost''" "\<not> loopback host" "addr \<noteq> []"
    "cut_port (to_lower (trim_space addr)) \<noteq> []"
  shows "use_proxy loopback '':8080'' addr = Panic ''index out of range''"
proof -
  have "split_byte '':8080'' (CHR '','') = ['':8080'']" by (simp add: str_simps)
  moreover have "to_lower (trim_space '':8080'') = '':8080''" by code_simp
  moreover have "cut_port '':8080'' = []" by code_simp
  ultimately show ?thesis using assms by (simp add: use_proxy_def)
qed

text \<open>The number of idle connections that is reported is the number of hosts that have one.\<close>

lemma num_idle_counts_hosts:
  "tp_idle t = Some [(k, ps)] \<Longrightarrow> num_idle_connections t = 1 \<and> length (idle_conns t) = length ps"
  by (simp add: num_idle_connections_def idle_conns_def)

text \<open>
  The key of an HTTP request through a proxy names the target, although the table says that such
  a connection serves any target.
\<close>

lemma proxy_key_names_target:
  "cm_string \<lparr>cm_proxy = Some u, cm_scheme = ''http'', cm_addr = a\<rparr> =
   cm_string \<lparr>cm_proxy = Some u, cm_scheme = ''http'', cm_addr = b\<rparr> \<longleftrightarrow> a = b"
  by (simp add: cm_string_def)

end
