(* ===== verification/Persist_Conn.thy ===== *)
theory Persist_Conn
  imports Transport_Pool
begin

text \<open>
  The second half of \<open>transport/transport.go\<close>: the exchange of one request over a persistent
  connection (\<open>roundTrip\<close> with the iteration of \<open>readLoop\<close> that serves it), the body wrapper
  \<open>bodyEOFSignal\<close>, and \<open>DetailedRoundTrip\<close>. The two goroutines meet at the channel \<open>reqch\<close>, so an
  exchange is the sequence of their steps; when the response has a body, the loop then waits for the
  body to be consumed.
\<close>

section \<open>bodyEOFSignal\<close>

record 's eof_signal =
  es_fn :: "('s \<Rightarrow> 's) option"
  es_closed :: bool

definition run_fn :: "('s eof_signal \<times> 's, unit) go" where
  "run_fn = (\<lambda>(es, s). case es_fn es of
     None \<Rightarrow> (Val (), (es, s))
   | Some f \<Rightarrow> (Val (), (es\<lparr>es_fn := None\<rparr>, f s)))"

text \<open>\<open>Read\<close> and \<open>Close\<close>, given what the body underneath returns.\<close>

definition es_read :: "nat \<Rightarrow> goerr option \<Rightarrow> ('s eof_signal \<times> 's, unit) go" where
  "es_read n err = (\<lambda>(es, s).
     if es_closed es \<and> n > 0
     then gopanic ''http: unexpected bodyEOFSignal Read after Close; see issue 1725'' (es, s)
     else if err = Some ErrEOF then run_fn (es, s) else (Val (), (es, s)))"

definition es_close :: "goerr option \<Rightarrow> ('s eof_signal \<times> 's, unit) go" where
  "es_close err = (\<lambda>(es, s).
     if es_closed es then (Val (), (es, s))
     else if err = None then run_fn (es\<lparr>es_closed := True\<rparr>, s) else (Val (), (es\<lparr>es_closed := True\<rparr>, s)))"

datatype es_op = EsRead nat "goerr option" | EsClose "goerr option"

fun es_step :: "es_op \<Rightarrow> ('s eof_signal \<times> 's, unit) go" where
  "es_step (EsRead n err) = es_read n err"
| "es_step (EsClose err) = es_close err"

primrec es_run :: "es_op list \<Rightarrow> ('s eof_signal \<times> 's, unit) go" where
  "es_run [] = ret ()"
| "es_run (e # es) = thn (es_step e) (es_run es)"

text \<open>The calls after which the function has run: an EOF, or a first \<open>Close\<close> without an error.\<close>

fun es_fires :: "bool \<Rightarrow> es_op list \<Rightarrow> bool" where
  "es_fires closed [] = False"
| "es_fires closed (EsRead n err # es) =
     (if closed \<and> n > 0 then False else err = Some ErrEOF \<or> es_fires closed es)"
| "es_fires closed (EsClose err # es) = (\<not> closed \<and> err = None \<or> es_fires True es)"

lemma es_run_spent: "es_fn e = None \<Longrightarrow> snd (snd (es_run es (e, s))) = s"
proof (induction es arbitrary: e s)
  case (Cons a es)
  then show ?case
    by (cases a) (auto simp: es_read_def es_close_def run_fn_def go_defs split: option.splits)
qed (simp add: ret_def)

text \<open>
  Whatever a client does with a response body, the function that returns the connection to the
  pool runs at most once, and it runs exactly when some read saw the end of the body or the first
  \<open>Close\<close> succeeded.
\<close>

theorem eof_signal_once:
  "snd (snd (es_run es (\<lparr>es_fn = Some f, es_closed = c\<rparr>, s))) = (if es_fires c es then f s else s)"
proof (induction es arbitrary: c)
  case (Cons a es)
  have *: "snd (snd (es_run es (\<lparr>es_fn = None, es_closed = d\<rparr>, x))) = x" for d x
    by (rule es_run_spent) simp
  from Cons show ?case
    by (cases a) (auto simp: es_read_def es_close_def run_fn_def go_defs *)
qed (simp add: ret_def)

section \<open>One exchange\<close>

text \<open>
  What the loop does next: it ends, waits for the next response, or waits until the body is consumed.
\<close>

datatype loop_next = LoopEnds | LoopPeeks | LoopWaits

text \<open>A byte or an end of the stream while no response is expected closes the connection.\<close>

definition peek_idle :: "nat \<Rightarrow> (transport, loop_next) go" where
  "peek_idle p = (\<lambda>t.
     if pc_expected (tp_store t p) = 0 then (Val LoopEnds, pc_close p t) else (Val LoopPeeks, t))"

definition put_or_end :: "nat \<Rightarrow> (transport, loop_next) go" where
  "put_or_end p = bnd (put_idle_conn p) (\<lambda>ok. ret (if ok then LoopPeeks else LoopEnds))"

definition ungzip_response :: "dial_env \<Rightarrow> http_request \<Rightarrow> bool \<Rightarrow> http_response \<Rightarrow> http_response \<times> goerr option" where
  "ungzip_response de rq added_gzip r =
     (if added_gzip \<and> rq_method rq \<noteq> ''HEAD'' \<and> rs_clen r \<noteq> 0 \<and> hget (rs_header r) ''Content-Encoding'' = ''gzip''
      then let r1 = r\<lparr>rs_header := hdel (hdel (rs_header r) ''Content-Encoding'') ''Content-Length'', rs_clen := -1\<rparr>
           in case de_gunzip de (rs_body r) of
                Inl e \<Rightarrow> (r1, Some e)
              | Inr b \<Rightarrow> (r1\<lparr>rs_body := b\<rparr>, None)
      else (r, None))"

text \<open>
  An iteration of \<open>readLoop\<close> that has a request. \<open>lastbody\<close>, which is consumed by then, is closed a
  second time, which does nothing.
\<close>

definition read_reply ::
  "dial_env \<Rightarrow> nat \<Rightarrow> http_request \<Rightarrow> bool \<Rightarrow> (transport, (http_response option \<times> goerr option) \<times> loop_next) go" where
  "read_reply de p rq added_gzip = (\<lambda>t.
     case de_read_response de (pc_conn (tp_store t p)) rq (tp_net t) of
       (Inl e, n) \<Rightarrow> (Val ((None, Some e), LoopEnds), pc_close p (t\<lparr>tp_net := n\<rparr>))
     | (Inr r0, n) \<Rightarrow>
         (case ungzip_response de rq added_gzip r0 of
            (r, Some e) \<Rightarrow> (Val ((Some r, Some e), LoopEnds), pc_close p (t\<lparr>tp_net := n\<rparr>))
          | (r, None) \<Rightarrow>
              bnd (if rs_close r \<or> rq_close rq then ret LoopEnds
                   else if rs_clen r \<noteq> 0 then ret LoopWaits
                   else put_or_end p) (\<lambda>l. ret ((Some r, None), l)) (t\<lparr>tp_net := n\<rparr>)))"

text \<open>The function of the body's \<open>bodyEOFSignal\<close>, after which the loop goes on.\<close>

definition body_consumed :: "nat \<Rightarrow> (transport, loop_next) go" where
  "body_consumed p = put_or_end p"

text \<open>
  The request goes through a \<open>bufio.Writer\<close>: what fills the buffer of 4096 bytes is sent at once, and
  only there is an error noticed; the rest is sent by \<open>Flush\<close>, whose error is dropped.
\<close>

definition write_request :: "dial_env \<Rightarrow> persist_conn \<Rightarrow> http_request \<Rightarrow> net \<Rightarrow> goerr option \<times> net" where
  "write_request de pc rq n =
     (let txt = de_request_text de (pc_is_proxy pc) rq;
          k = (length txt - 1) div 4096 * 4096;
          sent = (if k = 0 then ((0, None), n) else conn_write (pc_conn pc) (take k txt) n)
      in case sent of
           ((_, Some e), n1) \<Rightarrow> (Some e, n1)
         | ((_, None), n1) \<Rightarrow> (None, snd (conn_write (pc_conn pc) (drop k txt) n1)))"

definition add_expected :: "int \<Rightarrow> nat \<Rightarrow> transport \<Rightarrow> transport" where
  "add_expected d p t = (let c = tp_store t p in
     t\<lparr>tp_store := (tp_store t)(p := c\<lparr>pc_expected := pc_expected c + d\<rparr>)\<rparr>)"

text \<open>
  \<open>roundTrip\<close>. The header that asks for a compressed body goes to \<open>extraHeaders()\<close>, which nothing
  sends; what remains of it is the flag that is passed to the loop.
\<close>

definition requested_gzip :: "transport \<Rightarrow> http_request \<Rightarrow> bool" where
  "requested_gzip t rq \<longleftrightarrow> \<not> tp_disable_compression t \<and> hget (rq_header rq) ''Accept-Encoding'' = []"

definition pc_round_trip ::
  "dial_env \<Rightarrow> nat \<Rightarrow> http_request \<Rightarrow> (transport, (http_response option \<times> goerr option) \<times> loop_next) go" where
  "pc_round_trip de p rq = (\<lambda>t.
     if pc_mutate (tp_store t p) \<noteq> None
     then gopanic ''mutateHeaderFunc not supported in modified Transport'' t
     else
       let t1 = add_expected 1 p t in
       case write_request de (tp_store t p) rq (tp_net t) of
         (Some e, n) \<Rightarrow> (Val ((None, Some e), LoopPeeks), pc_close p (t1\<lparr>tp_net := n\<rparr>))
       | (None, n) \<Rightarrow>
           bnd (read_reply de p rq (requested_gzip t rq)) (\<lambda>r t. (Val r, add_expected (-1) p t)) (t1\<lparr>tp_net := n\<rparr>))"

text \<open>The text of a \<open>badStringError\<close>; a scheme holds no character that \<open>%q\<close> would escape.\<close>

definition bad_string :: "string \<Rightarrow> string \<Rightarrow> string" where
  "bad_string what str = what @ '' '' @ [CHR 0x22] @ str @ [CHR 0x22]"

record trip_details =
  td_host :: string
  td_is_proxy :: bool
  td_error :: "goerr option"

text \<open>
  \<open>DetailedRoundTrip\<close>; \<open>alt\<close> are the round trippers of the registered schemes, which the model
  does not look into. The header map of a request is never nil here.
\<close>

definition detailed_round_trip ::
  "dial_env \<Rightarrow> (string \<Rightarrow> http_request \<Rightarrow> trip_details option \<times> http_response option \<times> goerr option)
     \<Rightarrow> (url \<Rightarrow> goerr + url option) option \<Rightarrow> http_request
     \<Rightarrow> (transport, trip_details option \<times> http_response option \<times> goerr option) go" where
  "detailed_round_trip de alt proxy rq = (\<lambda>t. case rq_url rq of
     None \<Rightarrow> ret (None, None, Some (ErrText ''http: nil Request.URL'')) t
   | Some u \<Rightarrow>
      (if u_scheme u \<noteq> ''http'' \<and> u_scheme u \<noteq> ''https'' then
         (if u_scheme u \<in> set (tp_alt t) then ret (alt (u_scheme u) rq) t
          else ret (None, None, Some (ErrText (bad_string ''unsupported protocol scheme'' (u_scheme u)))) t)
       else case connect_method_for proxy u of
         Inl e \<Rightarrow> ret (None, None, Some e) t
       | Inr cm \<Rightarrow>
           bnd (get_conn de cm) (\<lambda>res. case res of
             Inl e \<Rightarrow> ret (None, None, Some e)
           | Inr p \<Rightarrow> (\<lambda>t. let pc = tp_store t p in
               bnd (pc_round_trip de p rq) (\<lambda>((resp, err), _).
                 ret (Some \<lparr>td_host = pc_host pc, td_is_proxy = pc_is_proxy pc, td_error = err\<rparr>, resp, err)) t)) t))"

section \<open>What an exchange promises\<close>

lemma add_expected_simps [simp]:
  "tp_idle (add_expected d p t) = tp_idle t" "tp_fresh (add_expected d p t) = tp_fresh t"
  "tp_max_idle (add_expected d p t) = tp_max_idle t" "idle_conns (add_expected d p t) = idle_conns t"
  "tp_disable_keep_alives (add_expected d p t) = tp_disable_keep_alives t"
  "tp_net (add_expected d p t) = tp_net t"
  "pc_key (tp_store (add_expected d p t) q) = pc_key (tp_store t q)"
  "pc_broken (tp_store (add_expected d p t) q) = pc_broken (tp_store t q)"
  "pc_conn (tp_store (add_expected d p t) q) = pc_conn (tp_store t q)"
  by (simp_all add: add_expected_def Let_def idle_conns_def)

lemma pool_ok_expected [simp]: "pool_ok (add_expected d p t) = pool_ok t"
  by (simp add: pool_ok_def list_ok_def max_idle_def split: option.split)

text \<open>A transport whose idle list for a connection's key ends with that connection, unbroken, hands it out.\<close>

lemma pop_last:
  assumes "tp_idle t = Some m" "map_of m (cm_string cm) = Some (ps @ [p])" "\<not> pc_broken (tp_store t p)"
  shows "fst (get_idle_conn cm t) = Val (Some p)"
  using assms by (simp add: get_idle_conn_def Let_def pop_idle.simps [of _ "cm_string cm" m])

lemma put_then_last:
  assumes "put_idle_conn p t = (Val True, t')"
  shows "\<exists>m ps. tp_idle t' = Some m \<and> map_of m (pc_key (tp_store t p)) = Some (ps @ [p]) \<and>
    tp_store t' = tp_store t \<and> \<not> pc_broken (tp_store t p)"
  using assms by (auto simp: put_idle_conn_def ret_def gopanic_def Let_def update_conv' split: if_splits option.splits)

text \<open>
  The pool takes a connection back: connections are kept alive, this one works, and the list for its key is
  not full.
\<close>

definition has_room :: "transport \<Rightarrow> nat \<Rightarrow> bool" where
  "has_room t p \<longleftrightarrow> \<not> tp_disable_keep_alives t \<and> 0 \<le> tp_max_idle t \<and> \<not> pc_broken (tp_store t p) \<and>
     (case tp_idle t of
        None \<Rightarrow> False
      | Some m \<Rightarrow> int (length (idle_list m (pc_key (tp_store t p)))) < max_idle t)"

lemma has_room_expected [simp]: "has_room (add_expected d p t) q = has_room t q"
  by (simp add: has_room_def max_idle_def split: option.split)

lemma has_room_net [simp]: "has_room (t\<lparr>tp_net := n\<rparr>) q = has_room t q"
  by (simp add: has_room_def max_idle_def split: option.split)

lemma put_with_room:
  assumes "has_room t p"
  shows "\<exists>t'. put_idle_conn p t = (Val True, t')"
  using assms by (auto simp: has_room_def put_idle_conn_def ret_def Let_def split: option.splits)

lemma put_or_end_with_room:
  assumes "has_room t p" "cm_string cm = pc_key (tp_store t p)"
  shows "\<exists>t'. put_or_end p t = (Val LoopPeeks, t') \<and> fst (get_idle_conn cm (add_expected d q t')) = Val (Some p) \<and>
    fst (get_idle_conn cm t') = Val (Some p)"
proof -
  obtain t' where put: "put_idle_conn p t = (Val True, t')" using put_with_room [OF assms(1)] by blast
  from put_then_last [OF put] obtain m ps where m: "tp_idle t' = Some m"
    "map_of m (cm_string cm) = Some (ps @ [p])" "\<not> pc_broken (tp_store t' p)"
    using assms(2) by auto
  have "fst (get_idle_conn cm (add_expected d q t')) = Val (Some p)"
    by (rule pop_last [of _ m _ ps]) (use m in simp_all)
  moreover have "fst (get_idle_conn cm t') = Val (Some p)" by (rule pop_last [OF m])
  ultimately show ?thesis using put by (simp add: put_or_end_def bnd_apply ret_def)
qed

text \<open>
  C32. A connection (but one that carries proxy credentials) is used again: when the request was sent and a response read, neither of them asks for the
  connection to be closed, and the pool has room, then after a response without a body the next lookup of the same key
  returns this very connection. With a body the connection stays out of the pool until the client is done with the body:
  whatever reads and closes the client makes, the next lookup returns the connection as soon as one of them saw the end
  of the body, or closed it first and without an error (if there is room at that time), and the pool is as it was before
  that.
\<close>

theorem connection_reused:
  assumes "cm_string cm = pc_key (tp_store t p)" "has_room t p" "pc_mutate (tp_store t p) = None"
    and "write_request de (tp_store t p) rq (tp_net t) = (None, n1)"
    and "de_read_response de (pc_conn (tp_store t p)) rq n1 = (Inr r0, n2)"
    and "ungzip_response de rq (requested_gzip t rq) r0 = (r, None)" "\<not> rs_close r" "\<not> rq_close rq"
  shows "\<exists>l t1. pc_round_trip de p rq t = (Val ((Some r, None), l), t1) \<and>
    (if rs_clen r = 0 then l = LoopPeeks \<and> fst (get_idle_conn cm t1) = Val (Some p)
     else l = LoopWaits \<and> idle_conns t1 = idle_conns t \<and>
       (\<forall>ops t2. has_room t2 p \<longrightarrow> pc_key (tp_store t2 p) = pc_key (tp_store t p) \<longrightarrow>
          (case es_run ops (\<lparr>es_fn = Some (\<lambda>t. snd (body_consumed p t)), es_closed = False\<rparr>, t2) of
             (_, _, t3) \<Rightarrow> if es_fires False ops then fst (get_idle_conn cm t3) = Val (Some p) else t3 = t2)))"
proof -
  let ?t = "(add_expected 1 p t)\<lparr>tp_net := n2\<rparr>"
  have run: "pc_round_trip de p rq t = bnd (bnd (if rs_clen r \<noteq> 0 then ret LoopWaits else put_or_end p)
      (\<lambda>l. ret ((Some r, None), l))) (\<lambda>r t. (Val r, add_expected (-1) p t)) ?t"
    using assms(3-8) by (simp add: pc_round_trip_def read_reply_def Let_def bnd_apply)
  show ?thesis
  proof (cases "rs_clen r = 0")
    case True
    have "cm_string cm = pc_key (tp_store ?t p)" "has_room ?t p" using assms(1,2) by simp_all
    then show ?thesis using put_or_end_with_room [of ?t p cm "-1" p] True
      by (auto simp: run bnd_apply ret_def)
  next
    case False
    have "case es_run ops (\<lparr>es_fn = Some (\<lambda>t. snd (body_consumed p t)), es_closed = False\<rparr>, t2) of
        (_, _, t3) \<Rightarrow> if es_fires False ops then fst (get_idle_conn cm t3) = Val (Some p) else t3 = t2"
      if "has_room t2 p" "pc_key (tp_store t2 p) = pc_key (tp_store t p)" for ops t2
      using eof_signal_once [of ops "\<lambda>t. snd (body_consumed p t)" False t2]
        put_or_end_with_room [OF that(1), of cm 0 p] that(2) assms(1)
      by (auto simp: case_prod_unfold body_consumed_def)
    then show ?thesis using False by (simp add: run bnd_apply ret_def idle_conns_def)
  qed
qed

text \<open>A request, and what the exchange of it makes of the transport with one connection.\<close>

definition example_get :: http_request where
  "example_get = empty_request\<lparr>rq_method := ''GET'',
     rq_url := Some (empty_url\<lparr>u_scheme := ''http'', u_host := ''a:80'', u_path := ''/''\<rparr>)\<rparr>"

text \<open>The same server with a body of three bytes.\<close>

definition body_dial :: dial_env where
  "body_dial = example_dial\<lparr>de_read_response :=
     (\<lambda>r rq n. (Inr ((new_response rq 200 [] ''abc'')\<lparr>rs_header := [], rs_clen := 3\<rparr>), n))\<rparr>"

lemma one_conn_room: "has_room one_conn 0"
  by (simp add: has_room_def one_conn_eq max_idle_def default_max_idle_def idle_list_def)

lemma example_request_sent:
  "write_request body_dial (tp_store one_conn 0) example_get (tp_net one_conn) =
     (None, snd (write_request body_dial (tp_store one_conn 0) example_get (tp_net one_conn)))"
  by (simp add: write_request_def example_dial_def body_dial_def one_conn_eq example_get_def empty_request_def case_prod_unfold
      Let_def)

theorem connection_reused_witness:
  "\<exists>r t1. pc_round_trip body_dial 0 example_get one_conn = (Val ((Some r, None), LoopWaits), t1) \<and>
     idle_conns t1 = [] \<and>
     fst (get_idle_conn example_cm (snd (snd (es_run [EsRead 3 None, EsRead 0 (Some ErrEOF)]
       (\<lparr>es_fn = Some (\<lambda>t. snd (body_consumed 0 t)), es_closed = False\<rparr>, one_conn))))) = Val (Some 0)"
proof -
  let ?r = "(new_response example_get 200 [] ''abc'')\<lparr>rs_header := [], rs_clen := 3\<rparr>"
  have key: "cm_string example_cm = pc_key (tp_store one_conn 0)" by (simp add: example_key one_conn_eq)
  have plain: "pc_mutate (tp_store one_conn 0) = None" by (simp add: one_conn_eq)
  have read: "de_read_response body_dial (pc_conn (tp_store one_conn 0)) example_get n = (Inr ?r, n)" for n
    by (simp add: body_dial_def)
  have unzip: "ungzip_response body_dial example_get (requested_gzip one_conn example_get) ?r = (?r, None)"
    by (simp add: ungzip_response_def new_response_def hget_def hvalues_def)
  have keep: "\<not> rs_close ?r" "\<not> rq_close example_get" "rs_clen ?r \<noteq> 0"
    by (simp_all add: new_response_def example_get_def empty_request_def)
  have idle: "idle_conns one_conn = []" by (simp add: idle_conns_def one_conn_eq)
  show ?thesis
    using connection_reused [OF key one_conn_room plain example_request_sent read unzip keep(1,2)] keep(3) idle one_conn_room
    by (auto simp: case_prod_unfold dest!: spec [of _ "[EsRead 3 None, EsRead 0 (Some ErrEOF)]"] spec [of _ one_conn])
qed

text \<open>
  What is sent for a request on a connection that takes every byte is exactly the text of the
  request as it was given; asking for a compressed answer adds nothing to it.
\<close>

theorem request_sent_as_given:
  assumes "plain_ref (pc_conn pc)" "conn_open (conn_of (pc_conn pc) n)"
  shows "\<exists>n'. write_request de pc rq n = (None, n') \<and>
     tc_sent (conn_of (pc_conn pc) n') =
       tc_sent (conn_of (pc_conn pc) n) @ de_request_text de (pc_is_proxy pc) rq"
proof -
  have w: "\<exists>c'. tcp_write c d = ((length d, None), c') \<and> conn_open c' \<and> tc_sent c' = tc_sent c @ d"
    if "conn_open c" for c d using that by (auto simp: tcp_write_def conn_open_def)
  let ?txt = "de_request_text de (pc_is_proxy pc) rq" let ?k = "(length ?txt - 1) div 4096 * 4096"
  obtain n1 where n1: "(if ?k = 0 then ((0, None), n) else conn_write (pc_conn pc) (take ?k ?txt) n) = ((if ?k = 0 then 0 else length (take ?k ?txt), None), n1)"
    "conn_open (conn_of (pc_conn pc) n1)"
    "tc_sent (conn_of (pc_conn pc) n1) = tc_sent (conn_of (pc_conn pc) n) @ take ?k ?txt"
    using w [OF assms(2), of "take ?k ?txt"] assms by (cases "?k = 0") (auto simp: conn_write_plain conn_of_def)
  obtain n2 where n2: "conn_write (pc_conn pc) (drop ?k ?txt) n1 = ((length (drop ?k ?txt), None), n2)"
    "tc_sent (conn_of (pc_conn pc) n2) = tc_sent (conn_of (pc_conn pc) n1) @ drop ?k ?txt"
    using w [OF n1(2), of "drop ?k ?txt"] assms by (auto simp: conn_write_plain conn_of_def)
  show ?thesis unfolding write_request_def Let_def n1(1) using n2 n1(3) by simp
qed

theorem request_sent_as_given_witness:
  "tc_sent (conn_of (TcpRef 7) (snd (write_request example_dial (tp_store one_conn 0) example_get
     \<lparr>nt_conns = (\<lambda>_. fresh_conn), nt_events = []\<rparr>))) = ''GET'' @ crlf"
  using request_sent_as_given [of "tp_store one_conn 0" "\<lparr>nt_conns = (\<lambda>_. fresh_conn), nt_events = []\<rparr>" example_dial example_get]
  by (auto simp: one_conn_eq conn_of_def fresh_conn_def conn_open_def example_dial_def example_get_def empty_request_def)

section \<open>Deviations\<close>

text \<open>
  When the server or the client asks for the connection to be closed, the loop ends without
  closing it: the connection stays open, unbroken and outside the pool, and nothing reads it any more.
\<close>

theorem close_leaves_connection_open:
  assumes "de_read_response de (pc_conn (tp_store t p)) rq (tp_net t) = (Inr r, n)" "rs_close r"
  shows "\<exists>t'. read_reply de p rq False t = (Val ((Some r, None), LoopEnds), t') \<and>
     tp_net t' = n \<and> tp_store t' = tp_store t \<and> idle_conns t' = idle_conns t"
  using assms by (simp add: read_reply_def ungzip_response_def ret_def bnd_def idle_conns_def)

definition closing_dial :: dial_env where
  "closing_dial = example_dial\<lparr>de_read_response :=
     (\<lambda>r rq n. (Inr ((new_response rq 200 [] [])\<lparr>rs_close := True\<rparr>), n))\<rparr>"

lemma no_idle_in_one_conn: "idle_conns one_conn = []"
  by (simp add: idle_conns_def one_conn_eq)

theorem close_leaves_connection_open_witness:
  "tp_store (snd (read_reply closing_dial 0 example_get False one_conn)) = tp_store one_conn \<and>
   0 \<notin> set (idle_conns (snd (read_reply closing_dial 0 example_get False one_conn)))"
  using close_leaves_connection_open [of closing_dial one_conn 0 example_get
      "(new_response example_get 200 [] [])\<lparr>rs_close := True\<rparr>" "tp_net one_conn"]
    no_idle_in_one_conn
  by (auto simp: closing_dial_def one_conn_eq)

text \<open>
  An HTTP request through a proxy whose URL carries credentials never gets an answer: the
  connection is made, and the exchange on it panics.
\<close>

theorem proxy_credentials_panic:
  assumes "rq_url rq = Some u" "u_scheme u = ''http''" "f u = Inr (Some px)" "u_user px = Some i"
    "tp_idle t = None" "de_dial de (canonical_addr px) (tp_net t) = (Inr c, n)"
  shows "fst (detailed_round_trip de alt (Some f) rq t) = Panic ''mutateHeaderFunc not supported in modified Transport''"
  using assms
  by (simp add: detailed_round_trip_def connect_method_for_def get_conn_def get_idle_conn_def bnd_apply pop_idle.simps
      dial_conn_def cm_first_hop_def add_conn_def ret_def Let_def cm_proxy_auth_def pc_round_trip_def gopanic_def)

definition credential_proxy :: "url \<Rightarrow> goerr + url option" where
  "credential_proxy u = Inr (Some (empty_url\<lparr>u_scheme := ''http'', u_user := Some ''me:pw'', u_host := ''p:3128''\<rparr>))"

theorem proxy_credentials_panic_witness:
  "fst (detailed_round_trip example_dial (\<lambda>s rq. (None, None, None)) (Some credential_proxy) example_get example_transport)
     = Panic ''mutateHeaderFunc not supported in modified Transport''"
  by (rule proxy_credentials_panic [where px = "empty_url\<lparr>u_scheme := ''http'', u_user := Some ''me:pw'', u_host := ''p:3128''\<rparr>"
        and u = "empty_url\<lparr>u_scheme := ''http'', u_host := ''a:80'', u_path := ''/''\<rparr>" and c = "TcpRef 7" and n = "tp_net example_transport"])
    (simp_all add: example_get_def credential_proxy_def example_transport_def example_dial_def)

end
