(* ===== verification/Signer.thy ===== *)
theory Signer
  imports Http_Types Idle_Timeout
begin

text \<open>
  \<open>signer.go\<close>: the certificates the proxy shows for the hosts it impersonates, and their cache. What
  \<open>crypto/x509\<close>, \<open>crypto/tls\<close>, \<open>crypto/rand\<close> and the DNS do is in the record \<open>signer_env\<close>. The clock is
  read once for each call; only the time a dial takes is measured. The zero \<open>time.Time\<close> is \<open>None\<close>.
  The cache holds the entry of a host by value, which calls that follow one another cannot tell
  from a pointer.
\<close>

section \<open>Host names\<close>

definition wildcard_host :: "string \<Rightarrow> string" where
  "wildcard_host host =
     (let first = index_byte host (CHR ''.'') in
      if first \<le> 0 then host
      else if last_index_byte host (CHR ''.'') = first then host
      else ''*'' @ drop (nat first) host)"

text \<open>
  \<open>GetSubdomains\<close>; \<open>suffix\<close> is \<open>publicsuffix.PublicSuffix\<close>. The suffix of a private registry loses its
  first label, and its other labels are joined without a dot.
\<close>

fun build_domains :: "string list \<Rightarrow> string \<Rightarrow> string list" where
  "build_domains [] tld = []"
| "build_domains (p # ps) tld =
     (let r = build_domains ps tld
      in (p @ ''.'' @ (case r of [] \<Rightarrow> tld | d # _ \<Rightarrow> d)) # r)"

definition tld_plus_one :: "string \<times> bool \<Rightarrow> string" where
  "tld_plus_one s = (case s of (tld, icann) \<Rightarrow>
     if \<not> icann \<and> length (split_byte tld (CHR ''.'')) > 1
     then concat (tl (split_byte tld (CHR ''.''))) else tld)"

definition get_subdomains :: "(string \<Rightarrow> string \<times> bool) \<Rightarrow> string \<Rightarrow> string list gores" where
  "get_subdomains suffix domain =
     (let tld = tld_plus_one (suffix domain) in
      if tld = domain then Val [domain]
      else
        let parts = split_byte domain (CHR ''.'');
            k = int (length parts) - int (count_list tld (CHR ''.'') + 1)
        in if k < -1 then Panic ''makeslice: len out of range''
           else if k = -1 then Panic ''index out of range''
           else Val (build_domains (take (nat k) parts) tld))"

text \<open>\<open>IsExternal\<close>: \<open>lookup\<close> is \<open>net.LookupHost\<close>, \<open>lan\<close> says whether an address is one of a LAN.\<close>

definition is_external :: "(string \<Rightarrow> goerr + string list) \<Rightarrow> (string \<Rightarrow> bool) \<Rightarrow> string \<Rightarrow> bool" where
  "is_external lookup lan hostname = (case lookup hostname of
     Inl e \<Rightarrow> False
   | Inr [] \<Rightarrow> True
   | Inr (a # _) \<Rightarrow> \<not> lan a)"

section \<open>Certificates and the cache\<close>

record cert =
  ce_serial :: int
  ce_common_name :: string
  ce_organization :: "string list"
  ce_key_id :: string
  ce_authority_key_id :: string
  ce_key_usage :: nat
  ce_server_auth :: bool
  ce_not_before :: gotime
  ce_not_after :: gotime
  ce_dns_names :: "string list"
  ce_ips :: "string list"

text \<open>The \<open>tls.Config\<close> of a host: its certificates by name, and the versions it allows.\<close>

record tls_config =
  tg_certs :: "cert list"
  tg_names :: "(string \<times> cert) list"
  tg_min_version :: nat
  tg_max_version :: nat
  tg_renegotiate :: bool

record host_info =
  hi_last_verify :: "gotime option"
  hi_next_attempt :: "gotime option"
  hi_config :: "tls_config option"

definition new_host_info :: host_info where
  "new_host_info = \<lparr>hi_last_verify = None, hi_next_attempt = None, hi_config = None\<rparr>"

record config_server =
  sg_hosts :: "string \<rightharpoonup> host_info"
  sg_validity :: int
  sg_key_id :: string

record signer_env =
  se_parse_ip :: "string \<Rightarrow> string option"
  se_verify :: "gotime \<Rightarrow> cert \<Rightarrow> string option \<Rightarrow> goerr option"
  se_dial :: "string \<Rightarrow> nat \<Rightarrow> (goerr + cert list) \<times> int"
  se_chain :: "cert list \<Rightarrow> goerr option"
  se_serial :: "goerr + int"
  se_create :: "cert \<Rightarrow> goerr + string"
  se_parse :: "string \<Rightarrow> goerr + cert"

definition hour :: int where
  "hour = 3600 * second"

definition day :: int where
  "day = 24 * hour"

definition go_before :: "gotime option \<Rightarrow> gotime \<Rightarrow> bool" where
  "go_before t u = (case t of None \<Rightarrow> True | Some v \<Rightarrow> v < u)"

definition split_hostname :: "string \<Rightarrow> string \<times> string" where
  "split_hostname hostname = (case split_host_port hostname of
     Inr (h, p) \<Rightarrow> (h, p)
   | Inl _ \<Rightarrow> (hostname, []))"

definition flush_cert :: "string \<Rightarrow> config_server \<Rightarrow> config_server" where
  "flush_cert hostname c = c\<lparr>sg_hosts := (sg_hosts c)(fst (split_hostname hostname) := None)\<rparr>"

text \<open>
  \<open>NewConfigServer\<close>: \<open>file\<close> is the content of the cached key, if it can be read, \<open>decode\<close> and \<open>encode\<close>
  are \<open>encoding/gob\<close>, \<open>write\<close> the error of writing the file back, \<open>marshal\<close> the encoding of the public
  key. The result goes with what is written. Without a cached key the call panics before it would
  generate one.
\<close>

definition new_config_server ::
  "string \<Rightarrow> string option \<Rightarrow> (string \<Rightarrow> 'k option) \<Rightarrow> ('k \<Rightarrow> goerr + string) \<Rightarrow> goerr option \<Rightarrow>
     ('k \<Rightarrow> goerr + string) \<Rightarrow> (string \<Rightarrow> string) \<Rightarrow> (goerr + config_server) gores \<times> string option" where
  "new_config_server filename file decode encode write marshal sha1 =
     (case (if filename = [] then None else Option.bind file decode) of
        None \<Rightarrow> (Panic ''Stopping here'', None)
      | Some k \<Rightarrow>
          (case encode k of
             Inl e \<Rightarrow> (Val (Inl e), None)
           | Inr buf \<Rightarrow> (case write of
               Some e \<Rightarrow> (Val (Inl e), Some buf)
             | None \<Rightarrow> (case marshal k of
                 Inl e \<Rightarrow> (Val (Inl e), Some buf)
               | Inr pub \<Rightarrow> (Val (Inr \<lparr>sg_hosts = Map.empty, sg_validity = 3650 * day, sg_key_id = sha1 pub\<rparr>), Some buf)))))"

section \<open>Issuing a certificate\<close>

text \<open>
  The check of a cached certificate: \<open>Val None\<close> when it passes. A host without a certificate in its
  own configuration would be a nil pointer.
\<close>

definition verify_cached :: "signer_env \<Rightarrow> gotime \<Rightarrow> string \<Rightarrow> tls_config \<Rightarrow> goerr option gores" where
  "verify_cached env now host g =
     (if se_parse_ip env host \<noteq> None \<and> has_prefix host ''127.0.0.'' then Val None
      else case map_of (tg_names g) host of
        None \<Rightarrow> Panic nil_deref
      | Some leaf \<Rightarrow> Val (se_verify env now leaf (if se_parse_ip env host \<noteq> None then None else Some host)))"

text \<open>What the cache answers at once, a configuration that may be nil, or that one has to be made.\<close>

datatype cached = Hit "tls_config option" | Miss

definition lookup_cached :: "signer_env \<Rightarrow> gotime \<Rightarrow> string \<Rightarrow> host_info \<Rightarrow> cached gores \<times> host_info" where
  "lookup_cached env now host hi =
     (if go_before (hi_last_verify hi) (now - 60 * 60 * second) then
        (case hi_config hi of
           None \<Rightarrow> (Panic nil_deref, hi)
         | Some g \<Rightarrow> (case verify_cached env now host g of
             Panic m \<Rightarrow> (Panic m, hi)
           | Val None \<Rightarrow> (Val (Hit (Some g)), hi\<lparr>hi_last_verify := Some now\<rparr>)
           | Val (Some e) \<Rightarrow> (Val Miss, hi)))
      else (Val (Hit (hi_config hi)), hi))"

text \<open>The dial to the host, repeated once after a timeout of more than two seconds.\<close>

definition dial_upstream :: "signer_env \<Rightarrow> string \<Rightarrow> goerr + cert list" where
  "dial_upstream env addr = (case se_dial env addr 0 of
     (Inr cs, _) \<Rightarrow> Inr cs
   | (Inl e, elapsed) \<Rightarrow>
       (if elapsed > 2 * second \<and> contains (error_text e) ''timeout'' then fst (se_dial env addr 1) else Inl e))"

text \<open>The certificate of the host itself, if it is asked, and whether its chain was found bad.\<close>

definition fetch_upstream ::
  "signer_env \<Rightarrow> gotime \<Rightarrow> string \<Rightarrow> string \<Rightarrow> host_info \<Rightarrow> (goerr + (cert option \<times> bool)) \<times> host_info" where
  "fetch_upstream env now host port hi =
     (if \<not> contains host ''winston.conf'' \<and> go_before (hi_next_attempt hi) now then
        (case dial_upstream env (host @ '':'' @ (if port = [] then ''443'' else port)) of
           Inl e \<Rightarrow> (Inl e, hi)
         | Inr [] \<Rightarrow> (Inr (None, False), hi)
         | Inr (orig # rest) \<Rightarrow>
             (if go_before (hi_last_verify hi) (now - 60 * 60 * second) \<and> se_chain env (orig # rest) \<noteq> None
              then (Inr (Some orig, True), hi\<lparr>hi_next_attempt := Some (now + 24 * hour)\<rparr>)
              else (Inr (Some orig, False), hi)))
      else (Inr (None, False), hi))"

definition validity_period :: "gotime \<Rightarrow> int \<Rightarrow> string \<Rightarrow> cert option \<Rightarrow> bool \<Rightarrow> gotime \<times> gotime" where
  "validity_period now validity host orig bad =
     (if bad then (now - 365 * day, now - 365 * day)
      else case orig of
        Some o' \<Rightarrow> (if \<not> has_prefix host ''winston.conf'' then (ce_not_before o', ce_not_after o')
                   else (now - validity, now + validity))
      | None \<Rightarrow> (now - validity, now + validity))"

text \<open>The template; of the subject it has the common name and the organization. Key usages are the bits 1 (signature), 4 (encipherment) and 32 (signing).\<close>

definition own_template :: "signer_env \<Rightarrow> int \<Rightarrow> string \<Rightarrow> string \<Rightarrow> string \<Rightarrow> nat \<Rightarrow> gotime \<times> gotime \<Rightarrow> cert" where
  "own_template env serial cn host key_id usage period =
     \<lparr>ce_serial = serial, ce_common_name = cn, ce_organization = [''Winston Privacy, Inc.''],
      ce_key_id = key_id, ce_authority_key_id = [], ce_key_usage = usage, ce_server_auth = True,
      ce_not_before = fst period, ce_not_after = snd period,
      ce_dns_names = (if se_parse_ip env host \<noteq> None then [] else [host]),
      ce_ips = (case se_parse_ip env host of None \<Rightarrow> [] | Some ip \<Rightarrow> [ip])\<rparr>"

definition copy_original :: "string \<Rightarrow> cert option \<Rightarrow> cert \<Rightarrow> cert" where
  "copy_original host orig t = (case orig of
     None \<Rightarrow> t
   | Some o' \<Rightarrow>
      (if has_prefix host ''winston.conf'' then t
       else t\<lparr>ce_common_name := ce_common_name o', ce_organization := ce_organization o',
              ce_key_usage := ce_key_usage o', ce_authority_key_id := ce_authority_key_id o',
              ce_ips := ce_ips o',
              ce_dns_names := (if ce_dns_names o' \<noteq> [] \<and> hd (ce_dns_names o') \<noteq> ''winston.conf''
                               then ce_dns_names o' else [host])\<rparr>))"

definition template_for ::
  "signer_env \<Rightarrow> gotime \<Rightarrow> config_server \<Rightarrow> string \<Rightarrow> string \<Rightarrow> cert option \<Rightarrow> bool \<Rightarrow> int \<Rightarrow> cert" where
  "template_for env now c common_name host orig bad serial =
     copy_original host orig
       (own_template env serial (if common_name \<noteq> [] then common_name else host) host (sg_key_id c) 5
          (validity_period now (sg_validity c) host orig bad))"

definition sign_cert :: "signer_env \<Rightarrow> cert \<Rightarrow> goerr + cert" where
  "sign_cert env t = (case se_create env t of Inl e \<Rightarrow> Inl e | Inr raw \<Rightarrow> se_parse env raw)"

text \<open>The configuration a new certificate is served with: TLS 1.1 to 1.2.\<close>

definition new_config :: "string \<Rightarrow> cert \<Rightarrow> tls_config" where
  "new_config host leaf = \<lparr>tg_certs = [leaf], tg_names = [(host, leaf)], tg_min_version = 770,
     tg_max_version = 771, tg_renegotiate = True\<rparr>"

text \<open>
  The part of \<open>certWithCommonName\<close> that makes a certificate. An entry that was found is changed in
  place, also on the ways that end with an error.
\<close>

definition issue_cert ::
  "signer_env \<Rightarrow> gotime \<Rightarrow> string \<Rightarrow> string \<Rightarrow> string \<Rightarrow> bool \<Rightarrow> host_info
     \<Rightarrow> (config_server, goerr + tls_config option) go" where
  "issue_cert env now common_name host port found hi = (\<lambda>c.
     let keep = (\<lambda>h. if found then c\<lparr>sg_hosts := (sg_hosts c)(host \<mapsto> h)\<rparr> else c)
     in case fetch_upstream env now host port hi of
          (Inl e, hi1) \<Rightarrow> (Val (Inl e), keep hi1)
        | (Inr (orig, bad), hi1) \<Rightarrow>
            (case se_serial env of
               Inl e \<Rightarrow> (Val (Inl e), keep hi1)
             | Inr serial \<Rightarrow>
                 (case sign_cert env (template_for env now c common_name host orig bad serial) of
                       Inl e \<Rightarrow> (Val (Inl e), keep hi1)
                     | Inr leaf \<Rightarrow>
                         (let hi2 = hi1\<lparr>hi_last_verify := Some now\<rparr> in
                          if \<not> found \<or> bad
                          then (let g = new_config host leaf in
                                (Val (Inr (Some g)), c\<lparr>sg_hosts := (sg_hosts c)(host \<mapsto> hi2\<lparr>hi_config := Some g\<rparr>)\<rparr>))
                          else (Val (Inr (hi_config hi2)), keep hi2)))))"

definition cert_with_common_name ::
  "signer_env \<Rightarrow> gotime \<Rightarrow> string \<Rightarrow> string \<Rightarrow> (config_server, goerr + tls_config option) go" where
  "cert_with_common_name env now hostname common_name = (\<lambda>c.
     case split_hostname hostname of (host, port) \<Rightarrow>
       (case sg_hosts c host of
          None \<Rightarrow> issue_cert env now common_name host port False new_host_info c
        | Some hi \<Rightarrow>
            (case lookup_cached env now host hi of
               (Panic m, _) \<Rightarrow> (Panic m, c)
             | (Val (Hit g), hi1) \<Rightarrow> (Val (Inr g), c\<lparr>sg_hosts := (sg_hosts c)(host \<mapsto> hi1)\<rparr>)
             | (Val Miss, hi1) \<Rightarrow> issue_cert env now common_name host port True hi1 c)))"

definition cert_for :: "signer_env \<Rightarrow> gotime \<Rightarrow> string \<Rightarrow> (config_server, goerr + tls_config option) go" where
  "cert_for env now hostname = cert_with_common_name env now hostname []"

text \<open>\<open>GetTestCertificate\<close>: the host is not asked, so nothing is copied.\<close>

definition test_certificate :: "signer_env \<Rightarrow> gotime \<Rightarrow> string \<Rightarrow> (config_server, goerr + tls_config option) go" where
  "test_certificate env now host = (\<lambda>c. case se_serial env of
     Inl e \<Rightarrow> (Val (Inl e), c)
   | Inr serial \<Rightarrow>
      (case sign_cert env (own_template env serial host host (sg_key_id c) 37 (now - sg_validity c, now + sg_validity c)) of
         Inl e \<Rightarrow> (Val (Inl e), c)
       | Inr leaf \<Rightarrow>
          (let g = (new_config host leaf)\<lparr>tg_min_version := 0, tg_max_version := 0, tg_renegotiate := False\<rparr>
           in (Val (Inr (Some g)), c\<lparr>sg_hosts := (sg_hosts c)(host \<mapsto> new_host_info\<lparr>hi_config := Some g\<rparr>)\<rparr>))))"

section \<open>The cache is coherent\<close>

text \<open>
  The promise of the cache to its users, as a contract: every entry has a configuration, and the
  configuration has a certificate for the host it is cached under.
\<close>

definition host_ok :: "string \<Rightarrow> host_info \<Rightarrow> bool" where
  "host_ok h hi \<longleftrightarrow> (\<exists>g leaf. hi_config hi = Some g \<and> map_of (tg_names g) h = Some leaf)"

definition signer_ok :: "config_server \<Rightarrow> bool" where
  "signer_ok c \<longleftrightarrow> (\<forall>h hi. sg_hosts c h = Some hi \<longrightarrow> host_ok h hi)"

inductive signer_step :: "config_server \<Rightarrow> config_server \<Rightarrow> bool" where
  issue: "cert_with_common_name env now hostname cn c = (r, c') \<Longrightarrow> signer_step c c'"
| flush: "signer_step c (flush_cert hostname c)"
| test: "test_certificate env now host c = (r, c') \<Longrightarrow> signer_step c c'"

inductive signer_reachable :: "config_server \<Rightarrow> bool" where
  fresh: "(\<And>h. sg_hosts c h = None) \<Longrightarrow> signer_reachable c"
| later: "signer_reachable c \<Longrightarrow> signer_step c c' \<Longrightarrow> signer_reachable c'"

inductive_cases signer_stepE: "signer_step c c'"

lemma signer_ok_update: "signer_ok c \<Longrightarrow> host_ok h hi \<Longrightarrow> signer_ok (c\<lparr>sg_hosts := (sg_hosts c)(h \<mapsto> hi)\<rparr>)"
  by (simp add: signer_ok_def)

lemma host_ok_new: "host_ok h (hi\<lparr>hi_config := Some (new_config h leaf)\<rparr>)"
  by (simp add: host_ok_def new_config_def)

lemma host_ok_fields [simp]:
  "host_ok h (hi\<lparr>hi_last_verify := t\<rparr>) = host_ok h hi" "host_ok h (hi\<lparr>hi_next_attempt := t\<rparr>) = host_ok h hi"
  by (simp_all add: host_ok_def)

lemma fetch_upstream_host_ok [simp]: "host_ok h (snd (fetch_upstream env now host port hi)) = host_ok h hi"
  by (simp add: fetch_upstream_def split: sum.split list.split)

lemma fetch_upstream_config [simp]: "hi_config (snd (fetch_upstream env now host port hi)) = hi_config hi"
  by (simp add: fetch_upstream_def split: sum.split list.split)

text \<open>Making a certificate never panics, keeps the cache coherent, and yields one for the host.\<close>

definition serves :: "string \<Rightarrow> goerr + tls_config option \<Rightarrow> bool" where
  "serves host res \<longleftrightarrow> (case res of Inl e \<Rightarrow> True | Inr None \<Rightarrow> False
     | Inr (Some g) \<Rightarrow> map_of (tg_names g) host \<noteq> None)"

lemma issue_cert_ok:
  assumes "signer_ok c" "found \<longrightarrow> host_ok host hi"
  shows "\<exists>res c'. issue_cert env now cn host port found hi c = (Val res, c') \<and> signer_ok c' \<and> serves host res"
proof -
  obtain up hi1 where f: "fetch_upstream env now host port hi = (up, hi1)" by fastforce
  have h: "host_ok host hi1 = host_ok host hi" using fetch_upstream_host_ok [of host env now host port hi] f by simp
  have k: "signer_ok (if found then c\<lparr>sg_hosts := (sg_hosts c)(host \<mapsto> hi')\<rparr> else c)"
    if "host_ok host hi' = host_ok host hi" for hi'
    using assms that by (simp add: signer_ok_update)
  have new: "signer_ok (c\<lparr>sg_hosts := (sg_hosts c)(host \<mapsto> hi'\<lparr>hi_config := Some (new_config host leaf)\<rparr>)\<rparr>)" for hi' leaf
    using assms(1) host_ok_new by (rule signer_ok_update)
  have old: "found \<Longrightarrow> serves host (Inr (hi_config hi1))"
    using assms(2) h by (auto simp: host_ok_def serves_def)
  have fresh: "serves host (Inr (Some (new_config host leaf)))" for leaf by (simp add: serves_def new_config_def)
  have err: "serves host (Inl e)" for e by (simp add: serves_def)
  show ?thesis
  proof (cases up)
    case (Inl e)
    then show ?thesis using f k [of hi1] h err by (auto simp: issue_cert_def Let_def)
  next
    case up: (Inr u)
    obtain orig bad where u: "u = (orig, bad)" by fastforce
    show ?thesis
    proof (cases "se_serial env")
      case (Inl e)
      then show ?thesis using f k [of hi1] h err up u by (auto simp: issue_cert_def Let_def)
    next
      case ser: (Inr serial)
      let ?s = "sign_cert env (template_for env now c cn host orig bad serial)"
      show ?thesis
      proof (cases ?s)
        case (Inl e)
        then show ?thesis using f k [of hi1] h err up u ser by (auto simp: issue_cert_def Let_def)
      next
        case (Inr leaf)
        have "issue_cert env now cn host port found hi c =
          (if \<not> found \<or> bad
           then (Val (Inr (Some (new_config host leaf))), c\<lparr>sg_hosts := (sg_hosts c)(host \<mapsto>
                  hi1\<lparr>hi_last_verify := Some now, hi_config := Some (new_config host leaf)\<rparr>)\<rparr>)
           else (Val (Inr (hi_config hi1)), c\<lparr>sg_hosts := (sg_hosts c)(host \<mapsto> hi1\<lparr>hi_last_verify := Some now\<rparr>)\<rparr>))"
          using f up u ser Inr by (simp add: issue_cert_def Let_def)
        then show ?thesis
          using new [where hi' = "hi1\<lparr>hi_last_verify := Some now\<rparr>" and leaf = leaf] fresh [of leaf] old
            k [of "hi1\<lparr>hi_last_verify := Some now\<rparr>"] h by (cases "\<not> found \<or> bad") simp_all
      qed
    qed
  qed
qed

lemma lookup_cached_ok:
  assumes "host_ok host hi"
  shows "\<exists>r hi1. lookup_cached env now host hi = (Val r, hi1) \<and> host_ok host hi1 \<and>
    (\<forall>g. r = Hit g \<longrightarrow> serves host (Inr g))"
  using assms by (auto simp: lookup_cached_def verify_cached_def host_ok_def serves_def split: option.splits gores.splits)

lemma cert_ok:
  assumes "signer_ok c"
  shows "\<exists>res c'. cert_with_common_name env now hostname cn c = (Val res, c') \<and> signer_ok c' \<and>
    serves (fst (split_hostname hostname)) res"
proof -
  obtain host port where sp: "split_hostname hostname = (host, port)" by fastforce
  show ?thesis
  proof (cases "sg_hosts c host")
    case None
    then show ?thesis using issue_cert_ok [OF assms, of False] sp by (simp add: cert_with_common_name_def)
  next
    case (Some hi)
    then have "host_ok host hi" using assms by (simp add: signer_ok_def)
    from lookup_cached_ok [OF this] obtain r hi1 where l: "lookup_cached env now host hi = (Val r, hi1)"
      "host_ok host hi1" "\<And>g. r = Hit g \<Longrightarrow> serves host (Inr g)" by blast
    then show ?thesis
      using Some sp issue_cert_ok [OF assms, of True host hi1] signer_ok_update [OF assms l(2)]
      by (cases r) (simp_all add: cert_with_common_name_def)
  qed
qed

lemma signer_ok_step: "signer_step c c' \<Longrightarrow> signer_ok c \<Longrightarrow> signer_ok c'"
proof (erule signer_stepE)
  fix env now hostname cn r
  assume "signer_ok c" "cert_with_common_name env now hostname cn c = (r, c')"
  then show "signer_ok c'" using cert_ok [of c env now hostname cn] by auto
next
  fix env now host r
  assume "signer_ok c" "test_certificate env now host c = (r, c')"
  then show "signer_ok c'"
    by (auto simp: test_certificate_def signer_ok_def host_ok_def new_config_def Let_def split: sum.splits if_splits)
qed (simp add: signer_ok_def flush_cert_def)

lemma signer_reachable_ok: "signer_reachable c \<Longrightarrow> signer_ok c"
proof (induction rule: signer_reachable.induct)
  case (fresh c)
  then show ?case by (simp add: signer_ok_def)
qed (rule signer_ok_step)

section \<open>What is issued\<close>

text \<open>A configuration made for a host that is not in the cache was signed from the template for it.\<close>

lemma cert_for_new:
  assumes "split_hostname hostname = (host, port)" "sg_hosts c host = None"
    "cert_for env now hostname c = (Val (Inr (Some g)), c')"
  obtains orig bad hi1 serial leaf where
    "fetch_upstream env now host port new_host_info = (Inr (orig, bad), hi1)"
    "sign_cert env (template_for env now c [] host orig bad serial) = Inr leaf" "g = new_config host leaf"
  using assms that
  by (auto simp: cert_for_def cert_with_common_name_def issue_cert_def Let_def split: prod.splits sum.splits)

lemma fetch_new:
  assumes "\<not> contains host ''winston.conf''"
    "dial_upstream env (host @ '':'' @ (if port = [] then ''443'' else port)) = Inr (o' # os)"
  shows "fst (fetch_upstream env now host port new_host_info) = Inr (Some o', se_chain env (o' # os) \<noteq> None)"
  using assms by (simp add: fetch_upstream_def new_host_info_def go_before_def)

lemma contains_prefix: "has_prefix s p \<Longrightarrow> contains s p"
  by (cases s) (auto simp: has_prefix_def)

text \<open>
  C19. Whatever the handlers and clients ask of the signer, in whatever order, with whatever the
  network and the x509 library answer: it never panics, it never hands out a missing configuration,
  and the configuration it hands out has a certificate filed under the host.
\<close>

theorem signer_serves_host:
  assumes "signer_reachable c"
  shows "\<exists>res c'. cert_for env now hostname c = (Val res, c') \<and>
    (case res of Inl e \<Rightarrow> True
     | Inr cfg \<Rightarrow> \<exists>g leaf. cfg = Some g \<and> map_of (tg_names g) (fst (split_hostname hostname)) = Some leaf)"
  using cert_ok [OF signer_reachable_ok [OF assms], of env now hostname "[]"]
  by (fastforce simp: cert_for_def serves_def split: sum.splits option.splits)

text \<open>A signer without entries; signing keeps every field.\<close>

definition example_leaf :: cert where
  "example_leaf = \<lparr>ce_serial = 7, ce_common_name = ''a.com'', ce_organization = [''A''], ce_key_id = [],
     ce_authority_key_id = ''k'', ce_key_usage = 5, ce_server_auth = True, ce_not_before = 0,
     ce_not_after = 1000 * day, ce_dns_names = [''a.com'', ''www.a.com''], ce_ips = []\<rparr>"

definition example_signer_env :: signer_env where
  "example_signer_env = \<lparr>se_parse_ip = (\<lambda>h. None), se_verify = (\<lambda>t l d. if ce_not_after l < t then Some (ErrText ''expired'') else None),
     se_dial = (\<lambda>a k. (Inr [example_leaf], 0)), se_chain = (\<lambda>cs. None), se_serial = Inr 99,
     se_create = (\<lambda>t. Inr (if ce_not_after t < 0 then ''bad'' else ''good'')),
     se_parse = (\<lambda>r. Inr (if r = ''bad'' then example_leaf\<lparr>ce_not_after := -1\<rparr> else example_leaf))\<rparr>"

definition empty_signer :: config_server where
  "empty_signer = \<lparr>sg_hosts = (\<lambda>h. None), sg_validity = 3650 * day, sg_key_id = ''id''\<rparr>"

lemma empty_signer_reachable: "signer_reachable empty_signer"
  by (rule fresh) (simp add: empty_signer_def)

lemma split_example [simp]: "split_hostname ''a.com:443'' = (''a.com'', ''443'')"
  by code_simp

theorem signer_serves_host_witness:
  "\<exists>g leaf. fst (cert_for example_signer_env 0 ''a.com:443'' empty_signer) = Val (Inr (Some g)) \<and>
     map_of (tg_names g) ''a.com'' = Some leaf"
proof -
  have "\<exists>g. fst (cert_for example_signer_env 0 ''a.com:443'' empty_signer) = Val (Inr (Some g))"
    by (simp add: cert_for_def cert_with_common_name_def issue_cert_def empty_signer_def fetch_upstream_def
        dial_upstream_def example_signer_env_def sign_cert_def Let_def new_host_info_def go_before_def)
  then show ?thesis
    using signer_serves_host [OF empty_signer_reachable, of example_signer_env 0 "''a.com:443''"] by auto
qed

text \<open>
  C15. The proxy does not launder a certificate it could not verify: when the chain of a host that is not
  cached is found bad, the certificate its clients are shown has already expired. Signing does not
  prolong a certificate.
\<close>

theorem untrusted_not_laundered:
  assumes "split_hostname hostname = (host, port)" "sg_hosts c host = None" "\<not> contains host ''winston.conf''"
    and "dial_upstream env (host @ '':'' @ (if port = [] then ''443'' else port)) = Inr (o' # os)"
    and "se_chain env (o' # os) = Some e"
    and "\<forall>t leaf. sign_cert env t = Inr leaf \<longrightarrow> ce_not_after leaf \<le> ce_not_after t"
    and "cert_for env now hostname c = (Val (Inr (Some g)), c')"
  shows "\<exists>leaf. tg_certs g = [leaf] \<and> tg_names g = [(host, leaf)] \<and> ce_not_after leaf < now"
proof -
  from cert_for_new [OF assms(1,2,7)] obtain orig bad hi1 serial leaf where
    f: "fetch_upstream env now host port new_host_info = (Inr (orig, bad), hi1)"
    and l: "sign_cert env (template_for env now c [] host orig bad serial) = Inr leaf" and g: "g = new_config host leaf" .
  have b: "orig = Some o'" "bad" using fetch_new [OF assms(3,4), of now] f assms(5) by simp_all
  have "ce_not_after leaf \<le> now - 365 * day" using assms(6) l b
    by (fastforce simp: template_for_def copy_original_def own_template_def validity_period_def split: option.splits if_splits)
  then show ?thesis using g by (simp add: new_config_def day_def hour_def second_def)
qed

definition bad_chain_env :: signer_env where
  "bad_chain_env = example_signer_env\<lparr>se_chain := (\<lambda>cs. Some (ErrText ''unknown authority'')),
     se_create := (\<lambda>t. if ce_not_after t = - (365 * day) then Inr ''raw'' else Inl (ErrText ''other'')),
     se_parse := (\<lambda>r. Inr (example_leaf\<lparr>ce_not_after := - (365 * day)\<rparr>))\<rparr>"

theorem untrusted_not_laundered_witness:
  "\<exists>g c' leaf. cert_for bad_chain_env 0 ''a.com:443'' empty_signer = (Val (Inr (Some g)), c') \<and>
     tg_certs g = [leaf] \<and> ce_not_after leaf < 0"
proof -
  have "\<exists>g c'. cert_for bad_chain_env 0 ''a.com:443'' empty_signer = (Val (Inr (Some g)), c')"
    by (simp add: cert_for_def cert_with_common_name_def issue_cert_def empty_signer_def fetch_upstream_def
        dial_upstream_def bad_chain_env_def example_signer_env_def sign_cert_def Let_def new_host_info_def go_before_def
        template_for_def copy_original_def own_template_def validity_period_def has_prefix_def)
  then obtain g c' where g: "cert_for bad_chain_env 0 ''a.com:443'' empty_signer = (Val (Inr (Some g)), c')" by blast
  have "\<forall>t leaf. sign_cert bad_chain_env t = Inr leaf \<longrightarrow> ce_not_after leaf \<le> ce_not_after t"
    by (simp add: sign_cert_def bad_chain_env_def)
  moreover have "dial_upstream bad_chain_env (''a.com'' @ '':'' @ (if ''443'' = [] then ''443'' else ''443'')) = Inr [example_leaf]"
    by (simp add: dial_upstream_def bad_chain_env_def example_signer_env_def)
  moreover have "sg_hosts empty_signer ''a.com'' = None" by (simp add: empty_signer_def)
  moreover have "\<not> contains ''a.com'' ''winston.conf''" by code_simp
  moreover have "se_chain bad_chain_env [example_leaf] = Some (ErrText ''unknown authority'')"
    by (simp add: bad_chain_env_def)
  ultimately show ?thesis using untrusted_not_laundered [OF split_example _ _ _ _ _ g] g by fastforce
qed

text \<open>
  C20. A certificate made for a host the proxy could verify mirrors the host's own: it is valid for the
  same time and for the same names and addresses, and its subject is the same.
\<close>

theorem cert_mirrors_upstream:
  assumes "split_hostname hostname = (host, port)" "sg_hosts c host = None" "\<not> contains host ''winston.conf''"
    and "dial_upstream env (host @ '':'' @ (if port = [] then ''443'' else port)) = Inr (o' # os)"
    and "se_chain env (o' # os) = None"
    and "cert_for env now hostname c = (Val (Inr (Some g)), c')"
  shows "\<exists>t leaf. sign_cert env t = Inr leaf \<and> g = new_config host leaf \<and>
    ce_not_before t = ce_not_before o' \<and> ce_not_after t = ce_not_after o' \<and>
    ce_common_name t = ce_common_name o' \<and> ce_organization t = ce_organization o' \<and>
    ce_ips t = ce_ips o' \<and> ce_key_usage t = ce_key_usage o' \<and>
    ce_dns_names t = (if ce_dns_names o' \<noteq> [] \<and> hd (ce_dns_names o') \<noteq> ''winston.conf'' then ce_dns_names o' else [host])"
proof -
  from cert_for_new [OF assms(1,2,6)] obtain orig bad hi1 serial leaf where
    f: "fetch_upstream env now host port new_host_info = (Inr (orig, bad), hi1)"
    and l: "sign_cert env (template_for env now c [] host orig bad serial) = Inr leaf" and g: "g = new_config host leaf" .
  have b: "orig = Some o'" "\<not> bad" using fetch_new [OF assms(3,4), of now] f assms(5) by simp_all
  have "\<not> has_prefix host ''winston.conf''" using assms(3) contains_prefix by blast
  then have "ce_not_before t = ce_not_before o' \<and> ce_not_after t = ce_not_after o' \<and>
    ce_common_name t = ce_common_name o' \<and> ce_organization t = ce_organization o' \<and>
    ce_ips t = ce_ips o' \<and> ce_key_usage t = ce_key_usage o' \<and>
    ce_dns_names t = (if ce_dns_names o' \<noteq> [] \<and> hd (ce_dns_names o') \<noteq> ''winston.conf'' then ce_dns_names o' else [host])"
    if "t = template_for env now c [] host orig bad serial" for t
    using b that by (simp add: template_for_def copy_original_def own_template_def validity_period_def)
  then show ?thesis using l g by blast
qed

theorem cert_mirrors_upstream_witness:
  "\<exists>t leaf. sign_cert example_signer_env t = Inr leaf \<and> ce_not_after t = 1000 * day \<and>
     ce_dns_names t = [''a.com'', ''www.a.com'']"
proof -
  have "\<exists>g c'. cert_for example_signer_env 0 ''a.com:443'' empty_signer = (Val (Inr (Some g)), c')"
    by (simp add: cert_for_def cert_with_common_name_def issue_cert_def empty_signer_def fetch_upstream_def
        dial_upstream_def example_signer_env_def sign_cert_def Let_def new_host_info_def go_before_def)
  then obtain g c' where g: "cert_for example_signer_env 0 ''a.com:443'' empty_signer = (Val (Inr (Some g)), c')" by blast
  have "dial_upstream example_signer_env (''a.com'' @ '':'' @ (if ''443'' = [] then ''443'' else ''443'')) = Inr [example_leaf]"
    by (simp add: dial_upstream_def example_signer_env_def)
  moreover have "sg_hosts empty_signer ''a.com'' = None" by (simp add: empty_signer_def)
  moreover have "\<not> contains ''a.com'' ''winston.conf''" by code_simp
  moreover have "se_chain example_signer_env [example_leaf] = None" by (simp add: example_signer_env_def)
  ultimately show ?thesis
    using cert_mirrors_upstream [OF split_example _ _ _ _ g, of example_leaf "[]"] by (auto simp: example_leaf_def)
qed

section \<open>Deviations\<close>

text \<open>
  An expired certificate is never replaced: when a cached certificate fails its check and the host
  shows a certificate with a good chain, a new one is made and thrown away; the old one is handed out,
  and is not checked again for an hour.
\<close>

theorem expired_never_replaced:
  assumes "split_hostname hostname = (host, port)" "sg_hosts c host = Some hi" "hi_config hi = Some g"
    and "go_before (hi_last_verify hi) (now - 60 * 60 * second)"
    and "verify_cached env now host g = Val (Some e)"
    and "fetch_upstream env now host port hi = (Inr (Some o', False), hi1)"
    and "se_serial env = Inr serial"
    and "sign_cert env (template_for env now c [] host (Some o') False serial) = Inr leaf"
  shows "cert_for env now hostname c =
    (Val (Inr (Some g)), c\<lparr>sg_hosts := (sg_hosts c)(host \<mapsto> hi1\<lparr>hi_last_verify := Some now\<rparr>)\<rparr>)"
proof -
  have "hi_config hi1 = Some g" using fetch_upstream_config [of env now host port hi] assms(3,6) by simp
  then show ?thesis using assms
    by (simp add: cert_for_def cert_with_common_name_def lookup_cached_def issue_cert_def Let_def)
qed

definition expired_entry :: host_info where
  "expired_entry = new_host_info\<lparr>hi_config := Some (new_config ''a.com'' example_leaf)\<rparr>"

theorem expired_never_replaced_witness:
  "\<exists>c'. cert_for example_signer_env (2000 * day) ''a.com:443'' (empty_signer\<lparr>sg_hosts := [''a.com'' \<mapsto> expired_entry]\<rparr>) =
     (Val (Inr (Some (new_config ''a.com'' example_leaf))), c')"
proof -
  let ?c = "empty_signer\<lparr>sg_hosts := [''a.com'' \<mapsto> expired_entry]\<rparr>"
  have v: "verify_cached example_signer_env (2000 * day) ''a.com'' (new_config ''a.com'' example_leaf) = Val (Some (ErrText ''expired''))"
    by (simp add: verify_cached_def example_signer_env_def new_config_def example_leaf_def day_def hour_def second_def)
  have "\<not> contains ''a.com'' ''winston.conf''" by code_simp
  then have f: "fetch_upstream example_signer_env (2000 * day) ''a.com'' ''443'' expired_entry = (Inr (Some example_leaf, False), expired_entry)"
    by (simp add: fetch_upstream_def dial_upstream_def example_signer_env_def expired_entry_def new_host_info_def go_before_def)
  have s: "\<exists>leaf. sign_cert example_signer_env t = Inr leaf" for t by (simp add: sign_cert_def example_signer_env_def)
  then obtain leaf where l: "sign_cert example_signer_env (template_for example_signer_env (2000 * day) ?c [] ''a.com'' (Some example_leaf) False 99) = Inr leaf"
    by blast
  have "sg_hosts ?c ''a.com'' = Some expired_entry" "hi_config expired_entry = Some (new_config ''a.com'' example_leaf)"
    "go_before (hi_last_verify expired_entry) (2000 * day - 60 * 60 * second)" "se_serial example_signer_env = Inr 99"
    by (simp_all add: expired_entry_def new_host_info_def go_before_def example_signer_env_def)
  from expired_never_replaced [OF split_example this(1-3) v f this(4) l] show ?thesis by blast
qed

text \<open>
  A host whose name only contains \<open>winston.conf\<close> is never asked for its certificate: whoever owns
  such a name gets a certificate of the proxy's own, valid for its whole period.
\<close>

theorem winston_name_unchecked:
  assumes "split_hostname hostname = (host, port)" "sg_hosts c host = None" "contains host ''winston.conf''"
    and "cert_for env now hostname c = (Val (Inr (Some g)), c')"
  shows "\<exists>t leaf. sign_cert env t = Inr leaf \<and> g = new_config host leaf \<and> ce_common_name t = host \<and>
    ce_not_before t = now - sg_validity c \<and> ce_not_after t = now + sg_validity c"
proof -
  from cert_for_new [OF assms(1,2,4)] obtain orig bad hi1 serial leaf where
    f: "fetch_upstream env now host port new_host_info = (Inr (orig, bad), hi1)"
    and l: "sign_cert env (template_for env now c [] host orig bad serial) = Inr leaf" and g: "g = new_config host leaf" .
  have "orig = None" "\<not> bad" using f assms(3) by (simp_all add: fetch_upstream_def)
  then have "ce_common_name t = host \<and> ce_not_before t = now - sg_validity c \<and> ce_not_after t = now + sg_validity c"
    if "t = template_for env now c [] host orig bad serial" for t
    using that by (simp add: template_for_def copy_original_def own_template_def validity_period_def)
  then show ?thesis using l g by blast
qed

theorem winston_name_unchecked_witness:
  "\<exists>t leaf. sign_cert example_signer_env t = Inr leaf \<and> ce_common_name t = ''my-winston.conf.evil.org'' \<and>
     ce_not_after t = 3650 * day"
proof -
  let ?h = "''my-winston.conf.evil.org''"
  have h: "split_hostname ?h = (?h, [])" by code_simp
  have w: "contains ?h ''winston.conf''" by code_simp
  have "\<exists>g c'. cert_for example_signer_env 0 ?h empty_signer = (Val (Inr (Some g)), c')"
    using h w by (simp add: cert_for_def cert_with_common_name_def issue_cert_def empty_signer_def fetch_upstream_def
        example_signer_env_def sign_cert_def Let_def)
  then obtain g c' where "cert_for example_signer_env 0 ?h empty_signer = (Val (Inr (Some g)), c')" by blast
  from winston_name_unchecked [OF h _ w this] show ?thesis by (auto simp: empty_signer_def)
qed

section \<open>Wildcards and subdomains\<close>

text \<open>The wildcard of a host with a subdomain replaces the first label; other hosts are left alone.\<close>

lemma wildcard_host_cases:
  "CHR ''.'' \<notin> set w \<Longrightarrow> w \<noteq> [] \<Longrightarrow> CHR ''.'' \<in> set r \<Longrightarrow> wildcard_host (w @ CHR ''.'' # r) = ''*.'' @ r"
  "CHR ''.'' \<notin> set w \<Longrightarrow> CHR ''.'' \<notin> set r \<Longrightarrow> wildcard_host (w @ CHR ''.'' # r) = w @ CHR ''.'' # r"
  "CHR ''.'' \<notin> set w \<Longrightarrow> wildcard_host w = w"
proof -
  assume w: "CHR ''.'' \<notin> set w"
  note first = index_byte_split [OF w]
  show "w \<noteq> [] \<Longrightarrow> CHR ''.'' \<in> set r \<Longrightarrow> wildcard_host (w @ CHR ''.'' # r) = ''*.'' @ r"
  proof -
    assume r: "w \<noteq> []" "CHR ''.'' \<in> set r"
    then obtain u v where uv: "r = u @ CHR ''.'' # v" "CHR ''.'' \<notin> set v"
      by (meson split_list_last)
    have "last_index_byte (w @ CHR ''.'' # r) (CHR ''.'') = int (length (w @ CHR ''.'' # u))"
      using last_index_byte_split [OF uv(2), of "w @ CHR ''.'' # u"] uv(1) by simp
    then show ?thesis using r(1) first [of r] by (simp add: wildcard_host_def)
  qed
  show "CHR ''.'' \<notin> set r \<Longrightarrow> wildcard_host (w @ CHR ''.'' # r) = w @ CHR ''.'' # r"
    using first [of r] last_index_byte_split [of "CHR ''.''" r w] by (simp add: wildcard_host_def Let_def)
  have "index_byte w (CHR ''.'') = -1" using w by simp
  then show "wildcard_host w = w" by (simp only: wildcard_host_def Let_def) simp
qed

lemma split_byte_cons_sep: "c \<notin> set w \<Longrightarrow> split_byte (w @ c # r) c = w # split_byte r c"
  by (induction w) auto

lemma split_join_labels:
  "\<forall>l \<in> set ls. c \<notin> set l \<Longrightarrow> split_byte (concat (map (\<lambda>l. l @ [c]) ls) @ t) c = ls @ split_byte t c"
  by (induction ls) (auto simp: split_byte_cons_sep)

lemma build_domains_labels:
  "build_domains ls tld = map (\<lambda>i. concat (map (\<lambda>l. l @ ''.'') (drop i ls)) @ tld) [0..<length ls]"
proof (induction ls)
  case (Cons l ls)
  have "map (\<lambda>i. concat (map (\<lambda>l. l @ ''.'') (drop i (l # ls))) @ tld) [0..<length (l # ls)] =
    (concat (map (\<lambda>l. l @ ''.'') (l # ls)) @ tld) # map (\<lambda>i. concat (map (\<lambda>l. l @ ''.'') (drop i ls)) @ tld) [0..<length ls]"
    by (simp add: upt_conv_Cons map_Suc_upt [symmetric] del: upt_Suc)
  then show ?case using Cons by (cases ls) (auto simp: Let_def upt_conv_Cons simp del: upt_Suc)
qed simp

text \<open>
  Under a suffix of the public registry, \<open>GetSubdomains\<close> lists the domain and every more general
  one above the suffix, from the most specific to the least.
\<close>

theorem subdomains_listed:
  assumes "\<forall>l \<in> set ls. CHR ''.'' \<notin> set l" "ls \<noteq> []"
    and "suffix (concat (map (\<lambda>l. l @ ''.'') ls) @ tld) = (tld, True)"
  shows "get_subdomains suffix (concat (map (\<lambda>l. l @ ''.'') ls) @ tld) =
    Val (map (\<lambda>i. concat (map (\<lambda>l. l @ ''.'') (drop i ls)) @ tld) [0..<length ls])"
proof -
  let ?d = "concat (map (\<lambda>l. l @ ''.'') ls) @ tld"
  have "length ?d > length tld" using assms(2) by (cases ls) auto
  then have ne: "tld \<noteq> ?d" by auto
  have sp: "split_byte ?d (CHR ''.'') = ls @ split_byte tld (CHR ''.'')" by (rule split_join_labels [OF assms(1)])
  have k: "int (length (split_byte ?d (CHR ''.''))) - int (count_list tld (CHR ''.'') + 1) = int (length ls)"
    by (simp only: sp length_append length_split_byte)
  show ?thesis using ne assms(3) k sp by (simp add: get_subdomains_def tld_plus_one_def Let_def build_domains_labels)
qed

theorem subdomains_listed_witness:
  "get_subdomains (\<lambda>d. (''com'', True)) ''a.b.com'' = Val [''a.b.com'', ''b.com'']"
  using subdomains_listed [of "[''a'', ''b'']" "\<lambda>d. (''com'', True)" "''com''"] by simp

text \<open>
  Under a private suffix of three labels the dots of the suffix are lost, and the domain itself is
  not in the list.
\<close>

theorem subdomains_lose_dots:
  "get_subdomains (\<lambda>d. (''blogspot.co.uk'', False)) ''me.blogspot.co.uk'' =
     Val [''me.blogspot.co.couk'', ''blogspot.co.couk'', ''co.couk'']"
  by code_simp

text \<open>Without a cached private key the signer cannot be made.\<close>

lemma new_config_server_needs_key:
  "filename = [] \<or> file = None \<Longrightarrow>
     new_config_server filename file decode encode write marshal sha1 = (Panic ''Stopping here'', None)"
  by (auto simp: new_config_server_def)

end
