(* ===== verification/Har_Log.thy ===== *)
theory Har_Log
  imports Round_Trip
begin

text \<open>
  \<open>har/har.go\<close> and the aggregator of \<open>harlog.go\<close>: how a logged exchange becomes an entry of the HTTP
  archive, and how the archive is collected and flushed. The iteration order of Go's maps is the order
  of the association lists. Cookies are parsed by \<open>net/http\<close>, JSON is made by \<open>encoding/json\<close> and names
  are looked up by \<open>net\<close>: these are arguments.
\<close>

section \<open>Package url\<close>

definition hex_value :: "char \<Rightarrow> nat option" where
  "hex_value c =
     (if is_digit c then Some (byte c - 48)
      else if 97 \<le> byte c \<and> byte c \<le> 102 then Some (byte c - 87)
      else if 65 \<le> byte c \<and> byte c \<le> 70 then Some (byte c - 55) else None)"

text \<open>\<open>url.QueryUnescape\<close>; \<open>None\<close> is the error, with which the returned string is empty.\<close>

fun query_unescape :: "string \<Rightarrow> string option" where
  "query_unescape [] = Some []"
| "query_unescape (c # cs) =
     (if c = CHR ''%'' then
        (case cs of
           a # b # r \<Rightarrow> (case (hex_value a, hex_value b, query_unescape r) of
               (Some x, Some y, Some t) \<Rightarrow> Some (char_of (16 * x + y) # t)
             | _ \<Rightarrow> None)
         | _ \<Rightarrow> None)
      else map_option (Cons (if c = CHR ''+'' then CHR '' '' else c)) (query_unescape cs))"

definition unescaped :: "string \<Rightarrow> string" where
  "unescaped s = (case query_unescape s of None \<Rightarrow> [] | Some t \<Rightarrow> t)"

text \<open>\<open>URL.Query()\<close>: pieces between \<open>&\<close> or \<open>;\<close>; a piece that does not unescape is skipped.\<close>

definition cut_at :: "char \<Rightarrow> string \<Rightarrow> string \<times> string" where
  "cut_at c s = (let i = index_byte s c in if i < 0 then (s, []) else (take (nat i) s, drop (nat i + 1) s))"

definition add_value :: "string \<Rightarrow> string \<Rightarrow> header \<Rightarrow> header" where
  "add_value k v m = AList.update k ((case map_of m k of None \<Rightarrow> [] | Some vs \<Rightarrow> vs) @ [v]) m"

definition url_query :: "string \<Rightarrow> header" where
  "url_query q = fold (\<lambda>piece m.
     if piece = [] then m
     else case cut_at (CHR ''='') piece of (k, v) \<Rightarrow>
       (case (query_unescape k, query_unescape v) of
          (Some k1, Some v1) \<Rightarrow> add_value k1 v1 m
        | _ \<Rightarrow> m))
     (split_byte (map (\<lambda>c. if c = CHR '';'' then CHR ''&'' else c) q) (CHR ''&'')) []"

section \<open>Entries\<close>

record name_value =
  nv_name :: string
  nv_value :: string

record cookie =
  ck_name :: string
  ck_value :: string
  ck_path :: string
  ck_domain :: string
  ck_expires :: "gotime option"
  ck_http_only :: bool
  ck_secure :: bool

record post_data =
  pd_mime :: string
  pd_params :: "(string \<times> string) list"
  pd_text :: string

record har_content =
  hc_size :: int
  hc_mime :: string
  hc_text :: string

definition empty_content :: har_content where
  "empty_content = \<lparr>hc_size = 0, hc_mime = [], hc_text = []\<rparr>"

record har_request =
  hr_method :: string
  hr_url :: string
  hr_version :: string
  hr_cookies :: "cookie list"
  hr_headers :: "name_value list"
  hr_query :: "name_value list"
  hr_post :: "post_data option"
  hr_body_size :: int
  hr_header_size :: int

record har_response =
  hs_status :: int
  hs_status_text :: string
  hs_version :: string
  hs_cookies :: "cookie list"
  hs_headers :: "name_value list"
  hs_content :: har_content
  hs_redirect :: string
  hs_body_size :: int
  hs_header_size :: int

text \<open>\<open>calcHeaderSize\<close> and \<open>parseStringArrMap\<close>.\<close>

definition calc_header_size :: "header \<Rightarrow> int" where
  "calc_header_size h = (\<Sum>(k, vs)\<leftarrow>h. int (length k) + 2 + (\<Sum>v\<leftarrow>vs. int (length v)))"

definition string_arr_map :: "header \<Rightarrow> name_value list" where
  "string_arr_map h = map (\<lambda>(k, vs). \<lparr>nv_name = unescaped k, nv_value = unescaped (join_with '','' vs)\<rparr>) h"

text \<open>
  \<open>parseCookies\<close> copies the fields that \<open>net/http\<close> parsed; \<open>Expires\<close> only when it is set, which the
  option already says.
\<close>

definition parse_cookies :: "cookie list \<Rightarrow> cookie list" where
  "parse_cookies cs = map (\<lambda>c. \<lparr>ck_name = ck_name c, ck_value = ck_value c, ck_path = ck_path c,
     ck_domain = ck_domain c, ck_expires = ck_expires c, ck_http_only = ck_http_only c,
     ck_secure = ck_secure c\<rparr>) cs"

text \<open>
  \<open>parsePostData\<close>: a missing content type panics, as does a missing body; the panic is recovered and
  the result is nil. \<open>form\<close> is \<open>req.PostForm\<close>. The header map is read with the canonical key.
\<close>

definition parse_post_data :: "header \<Rightarrow> http_request \<Rightarrow> post_data option" where
  "parse_post_data form rq =
     (case map_of (rq_header rq) ''Content-Type'' of
        None \<Rightarrow> None
      | Some [] \<Rightarrow> None
      | Some (mime # _) \<Rightarrow>
          (if form \<noteq> [] then
             Some \<lparr>pd_mime = mime, pd_params = concat (map (\<lambda>(k, vs). map (\<lambda>v. (k, v)) vs) form), pd_text = []\<rparr>
           else case rq_body rq of
             None \<Rightarrow> None
           | Some b \<Rightarrow> Some \<lparr>pd_mime = mime, pd_params = [], pd_text = fst (fst (read_all b))\<rparr>))"

definition parse_request ::
  "(http_request \<Rightarrow> cookie list) \<Rightarrow> (http_request \<Rightarrow> header) \<Rightarrow> http_request \<Rightarrow> bool \<Rightarrow> har_request gores" where
  "parse_request cookies form rq capture = (case rq_url rq of
     None \<Rightarrow> Panic nil_deref
   | Some u \<Rightarrow> Val
       \<lparr>hr_method = rq_method rq, hr_url = url_string u, hr_version = rq_proto rq,
        hr_cookies = parse_cookies (cookies rq), hr_headers = string_arr_map (rq_header rq),
        hr_query = string_arr_map (url_query (u_query u)),
        hr_post = (if capture \<and> (rq_method rq = ''POST'' \<or> rq_method rq = ''PUT'') then parse_post_data (form rq) rq else None),
        hr_body_size = rq_clen rq, hr_header_size = calc_header_size (rq_header rq)\<rparr>)"

text \<open>\<open>parseContent\<close>: a missing content type panics, is recovered, and leaves the content as it was.\<close>

definition parse_content :: "http_response \<Rightarrow> har_content" where
  "parse_content r = (case map_of (rs_header r) ''Content-Type'' of
     None \<Rightarrow> empty_content
   | Some [] \<Rightarrow> empty_content
   | Some (mime # _) \<Rightarrow>
      (if rs_clen r = 0 then empty_content\<lparr>hc_mime := mime\<rparr>
       else let d = fst (fst (read_all (rs_body r))) in
         \<lparr>hc_size = int (length d), hc_mime = mime, hc_text = d\<rparr>))"

definition parse_response ::
  "(http_response \<Rightarrow> cookie list) \<Rightarrow> http_response option \<Rightarrow> bool \<Rightarrow> har_response option" where
  "parse_response cookies resp capture = (case resp of
     None \<Rightarrow> None
   | Some r \<Rightarrow> Some
       \<lparr>hs_status = rs_code r, hs_status_text = (if length (rs_status r) > 4 then drop 4 (rs_status r) else rs_status r),
        hs_version = rs_proto r, hs_cookies = parse_cookies (cookies r),
        hs_headers = string_arr_map (rs_header r),
        hs_content = (if capture then parse_content r else empty_content),
        hs_redirect = hget (rs_header r) ''Location'', hs_body_size = rs_clen r,
        hs_header_size = calc_header_size (rs_header r)\<rparr>)"

section \<open>The aggregator\<close>

record har_entry =
  he_page_ref :: string
  he_started :: gotime
  he_time :: int
  he_request :: har_request
  he_response :: "har_response option"
  he_server_ip :: string

record har_page =
  hg_id :: string
  hg_started :: gotime
  hg_title :: string

record har_log =
  hl_pages :: "har_page list"
  hl_entries :: "har_entry list"

definition new_har :: har_log where
  "new_har = \<lparr>hl_pages = [], hl_entries = []\<rparr>"

text \<open>
  What the aggregator takes from outside: cookies and form of a message, the bytes of a host that is an
  IP address, the lookup of a host (an address with its text where it is IPv4), JSON, and the errors of
  creating and writing a file.
\<close>

record har_env =
  hv_request_cookies :: "http_request \<Rightarrow> cookie list"
  hv_response_cookies :: "http_response \<Rightarrow> cookie list"
  hv_post_form :: "http_request \<Rightarrow> header"
  hv_parse_ip :: "string \<Rightarrow> string option"
  hv_lookup :: "string \<Rightarrow> goerr + string option list"
  hv_json :: "har_log \<Rightarrow> goerr + string"
  hv_create :: "string \<Rightarrow> goerr option"
  hv_write :: "string \<Rightarrow> goerr option"

text \<open>\<open>FillIPAddress\<close>: an IP address is stored by its bytes first, and replaced by an IPv4 address found.\<close>

definition url_hostname :: "url \<Rightarrow> string" where
  "url_hostname u = (case split_host_port (u_host u) of Inl _ \<Rightarrow> u_host u | Inr (h, _) \<Rightarrow> h)"

definition fill_ip_address :: "har_env \<Rightarrow> url \<Rightarrow> string" where
  "fill_ip_address hv u =
     (let host = url_hostname u;
          raw = (case hv_parse_ip hv host of None \<Rightarrow> [] | Some ip \<Rightarrow> ip)
      in case hv_lookup hv host of
           Inl _ \<Rightarrow> raw
         | Inr ips \<Rightarrow> (case filter (\<lambda>ip. ip \<noteq> None) ips of Some v4 # _ \<Rightarrow> v4 | _ \<Rightarrow> raw))"

text \<open>\<open>Nanoseconds() / 1e6\<close>: a quotient that is cut off towards zero.\<close>

definition millis :: "int \<Rightarrow> int" where
  "millis d = (if d \<ge> 0 then d div 1000000 else - ((- d) div 1000000))"

definition entry_of :: "har_env \<Rightarrow> har_pair \<Rightarrow> har_entry gores" where
  "entry_of hv p =
     (case parse_request (hv_request_cookies hv) (hv_post_form hv) (hp_req p) (hp_content p) of
        Panic m \<Rightarrow> Panic m
      | Val rq \<Rightarrow> (case rq_url (hp_req p) of
          None \<Rightarrow> Panic nil_deref
        | Some u \<Rightarrow> Val
            \<lparr>he_page_ref = ''0'', he_started = hp_start p, he_time = millis (hp_end p - hp_start p), he_request = rq,
             he_response = parse_response (hv_response_cookies hv) (hp_resp p) (hp_content p),
             he_server_ip = fill_ip_address hv u\<rparr>))"

definition append_entry :: "har_entry \<Rightarrow> har_log \<Rightarrow> har_log" where
  "append_entry e l =
     \<lparr>hl_pages = (if hl_entries l = [] then hl_pages l @ [\<lparr>hg_id = ''0'', hg_started = he_started e, hg_title = ''GoProxy Log''\<rparr>]
                 else hl_pages l),
      hl_entries = hl_entries l @ [e]\<rparr>"

text \<open>\<open>flushHarToDisk\<close>: the error, and the content the file has, if it was written.\<close>

definition flush_har :: "har_env \<Rightarrow> har_log \<Rightarrow> string \<Rightarrow> goerr option \<times> string option" where
  "flush_har hv l filename = (case hv_create hv filename of
     Some e \<Rightarrow> (Some e, None)
   | None \<Rightarrow> (case hv_json hv l of
       Inl e \<Rightarrow> (Some e, None)
     | Inr txt \<Rightarrow> (case hv_write hv filename of
         Some e \<Rightarrow> (Some e, None)
       | None \<Rightarrow> (None, Some txt))))"

text \<open>
  The messages of the two channels, and the loop; \<open>ha_files\<close> is the history of what was written, in order. It is not
  the contents of the disk: \<open>os.Create\<close> truncates an earlier file of the same name.
\<close>

datatype har_msg = HarEntry har_pair | HarFlush string

record aggregator =
  ha_log :: har_log
  ha_files :: "(string \<times> har_log) list"

definition har_step :: "har_env \<Rightarrow> har_msg \<Rightarrow> (aggregator, unit) go" where
  "har_step hv msg = (\<lambda>a. case msg of
     HarEntry p \<Rightarrow> (case entry_of hv p of
         Panic m \<Rightarrow> (Panic m, a)
       | Val e \<Rightarrow> (Val (), a\<lparr>ha_log := append_entry e (ha_log a)\<rparr>))
   | HarFlush f \<Rightarrow>
       (if hl_entries (ha_log a) = [] then (Val (), a)
        else (Val (), a\<lparr>ha_files := ha_files a @ (if snd (flush_har hv (ha_log a) f) \<noteq> None then [(f, ha_log a)] else []),
                         ha_log := new_har\<rparr>)))"

primrec har_run :: "har_env \<Rightarrow> har_msg list \<Rightarrow> (aggregator, unit) go" where
  "har_run hv [] = ret ()"
| "har_run hv (m # ms) = thn (har_step hv m) (har_run hv ms)"

section \<open>What the archive holds\<close>

definition collected :: "aggregator \<Rightarrow> har_entry list" where
  "collected a = concat (map (hl_entries \<circ> snd) (ha_files a)) @ hl_entries (ha_log a)"

fun pairs_of :: "har_msg list \<Rightarrow> har_pair list" where
  "pairs_of [] = []"
| "pairs_of (HarEntry p # ms) = p # pairs_of ms"
| "pairs_of (HarFlush f # ms) = pairs_of ms"

definition disk_ok :: "har_env \<Rightarrow> bool" where
  "disk_ok hv \<longleftrightarrow> (\<forall>l f. snd (flush_har hv l f) \<noteq> None)"

lemma har_step_collected:
  assumes "disk_ok hv" "har_step hv m a = (Val (), a')"
  shows "map Val (collected a') = map Val (collected a) @ map (entry_of hv) (pairs_of [m])"
  using assms by (cases m) (auto simp: har_step_def collected_def append_entry_def disk_ok_def new_har_def split: gores.splits if_splits)

text \<open>
  C38. As long as files can be written, the archive loses no exchange and repeats none: what has been
  flushed, together with what is still collected, is the list of the logged exchanges in order. What has been flushed
  is the history of the writes: that flushes do not reuse a file name, so that it is also on the disk, is up to the caller.
\<close>

theorem har_keeps_every_exchange:
  assumes "disk_ok hv" "har_run hv ms a = (Val (), a')"
  shows "map Val (collected a') = map Val (collected a) @ map (entry_of hv) (pairs_of ms)"
  using assms(2)
proof (induction ms arbitrary: a)
  case (Cons m ms)
  then obtain b where b: "har_step hv m a = (Val (), b)" "har_run hv ms b = (Val (), a')"
    by (auto simp: go_defs split: prod.splits gores.splits)
  have "pairs_of (m # ms) = pairs_of [m] @ pairs_of ms" by (cases m) simp_all
  then show ?case using Cons.IH [OF b(2)] har_step_collected [OF assms(1) b(1)] by simp
qed (simp add: ret_def)

text \<open>An environment whose disk works, and an exchange.\<close>

definition example_har_env :: har_env where
  "example_har_env = \<lparr>hv_request_cookies = (\<lambda>r. []), hv_response_cookies = (\<lambda>r. []), hv_post_form = (\<lambda>r. []),
     hv_parse_ip = (\<lambda>h. None), hv_lookup = (\<lambda>h. Inr [Some ''10.0.0.9'']), hv_json = (\<lambda>l. Inr ''{}''),
     hv_create = (\<lambda>f. None), hv_write = (\<lambda>f. None)\<rparr>"

definition example_pair :: har_pair where
  "example_pair = \<lparr>hp_req = empty_request\<lparr>rq_method := ''GET'', rq_url := Some (empty_url\<lparr>u_host := ''a.com''\<rparr>)\<rparr>,
     hp_start = 0, hp_resp = None, hp_end = 5000000, hp_content = False\<rparr>"

definition idle_aggregator :: aggregator where
  "idle_aggregator = \<lparr>ha_log = new_har, ha_files = []\<rparr>"

lemma example_entry: "\<exists>e. entry_of example_har_env example_pair = Val e"
  by (simp add: entry_of_def parse_request_def example_pair_def empty_request_def)

lemma example_run: "\<exists>a. har_run example_har_env [HarEntry example_pair, HarFlush ''f'', HarEntry example_pair] idle_aggregator = (Val (), a)"
  using example_entry by (auto simp: go_defs har_step_def)

theorem har_keeps_every_exchange_witness:
  "\<exists>a. har_run example_har_env [HarEntry example_pair, HarFlush ''f'', HarEntry example_pair] idle_aggregator = (Val (), a) \<and>
     map Val (collected a) = [entry_of example_har_env example_pair, entry_of example_har_env example_pair]"
proof -
  have d: "disk_ok example_har_env" by (simp add: disk_ok_def flush_har_def example_har_env_def)
  have c: "collected idle_aggregator = []" by (simp add: collected_def idle_aggregator_def new_har_def)
  from example_run obtain a where a: "har_run example_har_env [HarEntry example_pair, HarFlush ''f'', HarEntry example_pair] idle_aggregator = (Val (), a)" ..
  from har_keeps_every_exchange [OF d a] a c show ?thesis by simp
qed

text \<open>An archive with its page.\<close>

definition log_ok :: "har_log \<Rightarrow> bool" where
  "log_ok l \<longleftrightarrow> (case hl_entries l of
     [] \<Rightarrow> hl_pages l = []
   | e # es \<Rightarrow> hl_pages l = [\<lparr>hg_id = ''0'', hg_started = he_started e, hg_title = ''GoProxy Log''\<rparr>] \<and>
              list_all (\<lambda>e. he_page_ref e = ''0'') (e # es))"

lemma log_ok_append: "log_ok l \<Longrightarrow> he_page_ref e = ''0'' \<Longrightarrow> log_ok (append_entry e l)"
  by (cases "hl_entries l") (auto simp: log_ok_def append_entry_def)

lemma entry_page_ref: "entry_of hv p = Val e \<Longrightarrow> he_page_ref e = ''0''"
  by (auto simp: entry_of_def split: gores.splits option.splits)

lemma log_ok_new: "log_ok new_har"
  by (simp add: log_ok_def new_har_def)

lemma har_step_log_ok:
  assumes "log_ok (ha_log a)" "list_all (log_ok \<circ> snd) (ha_files a)" "har_step hv m a = (r, a')"
  shows "log_ok (ha_log a') \<and> list_all (log_ok \<circ> snd) (ha_files a')"
  using assms entry_page_ref log_ok_append log_ok_new
  by (cases m) (auto simp: har_step_def split: gores.splits if_splits)

text \<open>
  Every archive is well formed: it has no page while it has no entry, and otherwise exactly the
  one page its entries refer to, which starts with the first of them.
\<close>

theorem har_archives_well_formed:
  "(let a = snd (har_run hv ms idle_aggregator)
    in log_ok (ha_log a) \<and> list_all (log_ok \<circ> snd) (ha_files a))"
proof -
  have "log_ok (ha_log (snd (har_run hv ms a))) \<and> list_all (log_ok \<circ> snd) (ha_files (snd (har_run hv ms a)))"
    if "log_ok (ha_log a) \<and> list_all (log_ok \<circ> snd) (ha_files a)" for a
    using that
  proof (induction ms arbitrary: a)
    case (Cons m ms)
    obtain r b where b: "har_step hv m a = (r, b)" by fastforce
    with Cons.prems har_step_log_ok have ok: "log_ok (ha_log b) \<and> list_all (log_ok \<circ> snd) (ha_files b)" by blast
    have "har_run hv (m # ms) a = (case r of Val u \<Rightarrow> har_run hv ms b | Panic e \<Rightarrow> (Panic e, b))"
      using b by (simp add: go_defs split: gores.split)
    then show ?case using Cons.IH [OF ok] ok by (cases r) (simp_all del: har_run.simps add: comp_def)
  qed (simp add: ret_def)
  then show ?thesis by (simp add: Let_def idle_aggregator_def log_ok_def new_har_def)
qed

section \<open>Deviations\<close>

text \<open>When a flush fails, the exchanges collected so far are gone: the archive is reset all the same.\<close>

theorem flush_failure_loses_exchanges:
  assumes "hl_entries (ha_log a) \<noteq> []" "hv_create hv f = Some e"
  shows "har_step hv (HarFlush f) a = (Val (), a\<lparr>ha_log := new_har\<rparr>)"
  using assms by (simp add: har_step_def flush_har_def)

theorem flush_failure_loses_exchanges_witness:
  "\<exists>a. hl_entries (ha_log a) \<noteq> [] \<and>
     har_step (example_har_env\<lparr>hv_create := (\<lambda>f. Some (ErrText ''no space''))\<rparr>) (HarFlush ''f'') a = (Val (), a\<lparr>ha_log := new_har\<rparr>)"
proof -
  from example_entry obtain e where "entry_of example_har_env example_pair = Val e" ..
  have "hl_entries (ha_log (idle_aggregator\<lparr>ha_log := append_entry e new_har\<rparr>)) \<noteq> []"
    by (simp add: append_entry_def)
  moreover have "har_step (example_har_env\<lparr>hv_create := (\<lambda>f. Some (ErrText ''no space''))\<rparr>) (HarFlush ''f'')
      (idle_aggregator\<lparr>ha_log := append_entry e new_har\<rparr>) =
      (Val (), idle_aggregator\<lparr>ha_log := append_entry e new_har\<rparr>\<lparr>ha_log := new_har\<rparr>)"
    by (rule flush_failure_loses_exchanges [OF calculation]) simp
  ultimately show ?thesis by blast
qed

text \<open>
  Header values are unescaped as if they came from a query: without percent and plus signs a value is
  logged as it is, but one with a percent sign that starts no escape is logged empty.
\<close>

lemma query_unescape_plain: "CHR ''%'' \<notin> set s \<Longrightarrow> CHR ''+'' \<notin> set s \<Longrightarrow> query_unescape s = Some s"
  by (induction s rule: query_unescape.induct) auto

lemma har_headers_verbatim:
  "CHR ''%'' \<notin> set (k @ v) \<Longrightarrow> CHR ''+'' \<notin> set (k @ v) \<Longrightarrow>
     string_arr_map [(k, [v])] = [\<lparr>nv_name = k, nv_value = v\<rparr>]"
  by (simp add: string_arr_map_def unescaped_def query_unescape_plain)

lemma har_headers_lost:
  "string_arr_map [(''X-Load'', [''90%''])] = [\<lparr>nv_name = ''X-Load'', nv_value = []\<rparr>]"
  by code_simp

end
