(* ===== verification/Nonhttp_Base.thy ===== *)
theory Nonhttp_Base
  imports Ctx
begin

text \<open>
  \<open>nonhttproundtripper.go\<close>, the round tripper for other protocols, first part: its errors, the
  data of a request, \<open>envOnce\<close>, addresses and \<open>NO_PROXY\<close>, and when a failed request would be sent
  again. The making of connections is in \<open>Nonhttp_Dial\<close>, the exchange on a connection in
  \<open>Nonhttp_Exchange\<close>, \<open>RoundTrip\<close> in \<open>Nonhttp_Trip\<close>.
\<close>

section \<open>Errors\<close>

text \<open>The errors the code compares by identity or by type; any other error is one of the rest of the program.\<close>

datatype nh_error =
    NhMissingHost
  | NhKeepAlivesDisabled | NhConnBroken | NhWantIdle | NhTooManyIdle | NhTooManyIdleHost
  | NhCloseIdleConns | NhReadLoopExiting | NhServerClosedIdle | NhIdleConnTimeout | NhNotCachingH2Conn
  | NhTimeout | NhRequestCanceled | NhRequestCanceledConn
  | NhReadOnClosedBody
  | NhHandshakeTimeout
  | NhReadFromServer nh_error
  | NhNothingWritten nh_error
  | NhBodyReadError nh_error
  | NhOther goerr

abbreviation nh_text :: "string \<Rightarrow> nh_error" where
  "nh_text m \<equiv> NhOther (ErrText m)"

primrec nh_error_text :: "nh_error \<Rightarrow> string" where
  "nh_error_text NhMissingHost = ''http: Request.Write on Request with no Host or URL set''"
| "nh_error_text NhKeepAlivesDisabled = ''http: putIdleConn: keep alives disabled''"
| "nh_error_text NhConnBroken = ''http: putIdleConn: connection is in bad state''"
| "nh_error_text NhWantIdle = ''http: putIdleConn: CloseIdleConnections was called''"
| "nh_error_text NhTooManyIdle = ''http: putIdleConn: too many idle connections''"
| "nh_error_text NhTooManyIdleHost = ''http: putIdleConn: too many idle connections for host''"
| "nh_error_text NhCloseIdleConns = ''http: CloseIdleConnections called''"
| "nh_error_text NhReadLoopExiting = ''http: persistConn.readLoop exiting''"
| "nh_error_text NhServerClosedIdle = ''http: server closed idle connection''"
| "nh_error_text NhIdleConnTimeout = ''http: idle connection timeout''"
| "nh_error_text NhNotCachingH2Conn = ''http: not caching alternate protocol'' @ [CHR 0x27] @ ''s connections''"
| "nh_error_text NhTimeout = ''net/http: timeout awaiting response headers''"
| "nh_error_text NhRequestCanceled = ''net/http: request canceled''"
| "nh_error_text NhRequestCanceledConn = ''net/http: request canceled while waiting for connection''"
| "nh_error_text NhReadOnClosedBody = ''http: read on closed response body''"
| "nh_error_text NhHandshakeTimeout = ''net/http: TLS handshake timeout''"
| "nh_error_text (NhReadFromServer e) = ''net/http: Transport failed to read from server: '' @ nh_error_text e"
| "nh_error_text (NhNothingWritten e) = nh_error_text e"
| "nh_error_text (NhBodyReadError e) = nh_error_text e"
| "nh_error_text (NhOther e) = error_text e"

text \<open>\<open>Timeout()\<close> and \<open>Temporary()\<close> of the two error types that have them.\<close>

definition nh_http_error_timeout :: "nh_error \<Rightarrow> bool option" where
  "nh_http_error_timeout e = (if e = NhTimeout \<or> e = NhHandshakeTimeout then Some True else None)"

section \<open>Requests and the rest of the environment\<close>

text \<open>The value of the request's context under \<open>NonHTTPRequest\<close>.\<close>

datatype ctx_value = CtxNone | CtxBytes string | CtxOther

record nh_request =
  hq_id :: nat
  hq_http :: http_request
  hq_original :: ctx_value

text \<open>A \<open>transportRequest\<close>: the extra headers are made on demand, the first error that is set stays.\<close>

record transport_request =
  tq_request :: nh_request
  tq_extra :: "header option"
  tq_err :: "nh_error option"

definition extra_headers :: "transport_request \<Rightarrow> header \<times> transport_request" where
  "extra_headers tr = (case tq_extra tr of
     None \<Rightarrow> ([], tr\<lparr>tq_extra := Some []\<rparr>)
   | Some h \<Rightarrow> (h, tr))"

definition set_error :: "nh_error \<Rightarrow> transport_request \<Rightarrow> transport_request" where
  "set_error e tr = (if tq_err tr = None then tr\<lparr>tq_err := Some e\<rparr> else tr)"

text \<open>\<open>envOnce\<close>: the first name with a value wins, and the value is looked up once.\<close>

record env_once =
  eo_names :: "string list"
  eo_done :: bool
  eo_val :: string

fun env_init :: "(string \<Rightarrow> string) \<Rightarrow> string list \<Rightarrow> string \<Rightarrow> string" where
  "env_init getenv [] v = v"
| "env_init getenv (n # ns) v = (if getenv n \<noteq> [] then getenv n else env_init getenv ns [])"

definition env_get :: "(string \<Rightarrow> string) \<Rightarrow> env_once \<Rightarrow> string \<times> env_once" where
  "env_get getenv e =
     (let e1 = (if eo_done e then e
                else e\<lparr>eo_done := True, eo_val := env_init getenv (eo_names e) (eo_val e)\<rparr>)
      in (eo_val e1, e1))"

definition env_reset :: "env_once \<Rightarrow> env_once" where
  "env_reset e = e\<lparr>eo_done := False, eo_val := []\<rparr>"

definition no_proxy_env :: env_once where
  "no_proxy_env = \<lparr>eo_names = [''NO_PROXY'', ''no_proxy''], eo_done = False, eo_val = []\<rparr>"

section \<open>Addresses\<close>

definition nh_has_port :: "string \<Rightarrow> bool" where
  "nh_has_port s \<longleftrightarrow> last_index_byte s (CHR '':'') > last_index_byte s (CHR '']'')"

definition nh_cut_port :: "string \<Rightarrow> string" where
  "nh_cut_port a = (if nh_has_port a then take (nat (last_index_byte a (CHR '':''))) a else a)"

definition nh_valid_port :: "string \<Rightarrow> bool" where
  "nh_valid_port p \<longleftrightarrow> list_all is_digit p"

definition nh_port_map :: "string \<Rightarrow> string" where
  "nh_port_map scheme =
     (case map_of [(''nonhttp'', ''80''), (''nonhttps'', ''443''), (''http'', ''80''), (''https'', ''443''),
                   (''socks5'', ''1080'')] scheme of None \<Rightarrow> [] | Some p \<Rightarrow> p)"

text \<open>\<open>URL.Hostname\<close> and \<open>URL.Port\<close>, as package \<open>net/url\<close> had them in 2018.\<close>

definition url_host_name :: "url \<Rightarrow> string" where
  "url_host_name u = (let h = u_host u; c = index_byte h (CHR '':''); b = index_byte h (CHR '']'') in
     if c = -1 then h
     else if b \<noteq> -1 then (if has_prefix h ''['' then drop 1 (take (nat b) h) else take (nat b) h)
     else take (nat c) h)"

fun after_bracket_colon :: "string \<Rightarrow> string option" where
  "after_bracket_colon (x # y # s) =
     (if x = CHR '']'' \<and> y = CHR '':'' then Some s else after_bracket_colon (y # s))"
| "after_bracket_colon s = None"

definition url_port :: "url \<Rightarrow> string" where
  "url_port u = (let h = u_host u; c = index_byte h (CHR '':'') in
     if c = -1 then []
     else case after_bracket_colon h of
       Some p \<Rightarrow> p
     | None \<Rightarrow> if CHR '']'' \<in> set h then [] else drop (nat c + 1) h)"

definition is_ascii :: "string \<Rightarrow> bool" where
  "is_ascii s \<longleftrightarrow> list_all (\<lambda>c. byte c < 128) s"

text \<open>\<open>idna.Lookup.ToASCII\<close> is a parameter.\<close>

definition idna_ascii :: "(string \<Rightarrow> goerr + string) \<Rightarrow> string \<Rightarrow> goerr + string" where
  "idna_ascii to_ascii v = (if is_ascii v then Inr v else to_ascii v)"

definition nh_canonical_addr :: "(string \<Rightarrow> goerr + string) \<Rightarrow> url \<Rightarrow> string" where
  "nh_canonical_addr to_ascii u =
     (let host = url_host_name u;
          addr = (case idna_ascii to_ascii host of Inr v \<Rightarrow> v | Inl _ \<Rightarrow> host);
          port = (if url_port u = [] then nh_port_map (u_scheme u) else url_port u)
      in join_host_port addr port)"

text \<open>
  \<open>useProxy\<close>, given whether a host is the text of a loopback address and the value of \<open>NO_PROXY\<close>. The
  index into \<open>addr\<close> is checked as Go checks it.
\<close>

fun nh_no_proxy :: "string \<Rightarrow> string list \<Rightarrow> bool gores" where
  "nh_no_proxy addr [] = Val True"
| "nh_no_proxy addr (p0 # ps) =
     (let p1 = to_lower (trim_space p0) in
      if length p1 = 0 then nh_no_proxy addr ps
      else
        let p = nh_cut_port p1 in
        if addr = p then Val False
        else if length p = 0 then nh_no_proxy addr ps
        else if p ! 0 = CHR ''.'' \<and> (has_suffix addr p \<or> addr = drop 1 p) then Val False
        else if p ! 0 \<noteq> CHR ''.'' \<and> has_suffix addr p then
          (if length addr < length p + 1 then Panic ''index out of range''
           else if addr ! (length addr - length p - 1) = CHR ''.'' then Val False
           else nh_no_proxy addr ps)
        else nh_no_proxy addr ps)"

definition nh_use_proxy :: "(string \<Rightarrow> bool) \<Rightarrow> string \<Rightarrow> string \<Rightarrow> bool gores" where
  "nh_use_proxy loopback no_proxy addr =
     (if length addr = 0 then Val True
      else case split_host_port addr of
        Inl _ \<Rightarrow> Val False
      | Inr (host, _) \<Rightarrow>
          (if host = ''localhost'' then Val False
           else if loopback host then Val False
           else if no_proxy = ''*'' then Val False
           else nh_no_proxy (nh_cut_port (to_lower (trim_space addr))) (split_byte no_proxy (CHR '',''))))"

record conn_method =
  km_proxy :: "url option"
  km_scheme :: string
  km_addr :: string

record conn_key =
  kk_proxy :: string
  kk_scheme :: string
  kk_addr :: string

definition km_key :: "conn_method \<Rightarrow> conn_key" where
  "km_key cm = (case km_proxy cm of
     None \<Rightarrow> \<lparr>kk_proxy = [], kk_scheme = km_scheme cm, kk_addr = km_addr cm\<rparr>
   | Some u \<Rightarrow> \<lparr>kk_proxy = url_string u, kk_scheme = km_scheme cm,
       kk_addr = (if has_prefix (u_scheme u) ''http'' \<and> km_scheme cm = ''http'' then [] else km_addr cm)\<rparr>)"

definition kk_text :: "conn_key \<Rightarrow> string" where
  "kk_text k = join_with ''|'' [kk_proxy k, kk_scheme k, kk_addr k]"

definition km_first_hop :: "(string \<Rightarrow> goerr + string) \<Rightarrow> conn_method \<Rightarrow> string" where
  "km_first_hop to_ascii cm = (case km_proxy cm of None \<Rightarrow> km_addr cm | Some u \<Rightarrow> nh_canonical_addr to_ascii u)"

definition km_tls_host :: "conn_method \<Rightarrow> string" where
  "km_tls_host cm = nh_cut_port (km_addr cm)"

text \<open>\<open>connectMethodForRequest\<close>; the text of the error is that of a port without characters \<open>%q\<close> escapes.\<close>

definition nh_connect_method :: "(string \<Rightarrow> goerr + string) \<Rightarrow> url \<Rightarrow> nh_error + conn_method" where
  "nh_connect_method to_ascii u =
     (if \<not> nh_valid_port (url_port u)
      then Inl (nh_text (''invalid URL port '' @ [CHR 0x22] @ url_port u @ [CHR 0x22]))
      else Inr \<lparr>km_proxy = None, km_scheme = u_scheme u, km_addr = nh_canonical_addr to_ascii u\<rparr>)"

section \<open>Whether a request can be sent again\<close>

text \<open>A body that is nil and \<open>http.NoBody\<close> are both \<open>None\<close>.\<close>

definition nh_outgoing_length :: "http_request \<Rightarrow> int" where
  "nh_outgoing_length rq = (case rq_body rq of
     None \<Rightarrow> 0
   | Some _ \<Rightarrow> if rq_clen rq \<noteq> 0 then rq_clen rq else -1)"

definition nh_is_replayable :: "http_request \<Rightarrow> bool" where
  "nh_is_replayable rq = True"

definition nh_should_retry :: "bool \<Rightarrow> http_request \<Rightarrow> nh_error \<Rightarrow> bool" where
  "nh_should_retry reused rq err =
     (if err = NhMissingHost then False
      else if \<not> reused then False
      else case err of
        NhNothingWritten _ \<Rightarrow> nh_outgoing_length rq = 0 \<or> rq_get_body rq \<noteq> None
      | NhReadFromServer _ \<Rightarrow> nh_is_replayable rq
      | NhServerClosedIdle \<Rightarrow> nh_is_replayable rq
      | _ \<Rightarrow> False)"

section \<open>The exceptions to the proxy\<close>

text \<open>
  What an entry of \<open>NO_PROXY\<close> covers: its host (without a port), and the names below it; an entry
  that begins with a dot covers the name behind the dot as well. An entry without a host covers nothing.
\<close>

definition covers :: "string \<Rightarrow> string \<Rightarrow> bool" where
  "covers addr entry \<longleftrightarrow>
     (let p1 = to_lower (trim_space entry); p = nh_cut_port p1 in
      p1 \<noteq> [] \<and> (addr = p \<or> p \<noteq> [] \<and>
        (if hd p = CHR ''.'' then has_suffix addr p \<or> addr = tl p else has_suffix addr (CHR ''.'' # p))))"

lemma suffix_dot:
  assumes "has_suffix addr p" "addr \<noteq> p"
  shows "length p < length addr"
    and "addr ! (length addr - length p - 1) = CHR ''.'' \<longleftrightarrow> has_suffix addr (CHR ''.'' # p)"
proof -
  obtain t where t: "addr = t @ p" using assms(1) by (auto simp: has_suffix_iff)
  with assms(2) have ne: "t \<noteq> []" by auto
  then obtain u c where u: "t = u @ [c]" by (metis rev_exhaust)
  show "length p < length addr" using t ne by simp
  show "addr ! (length addr - length p - 1) = CHR ''.'' \<longleftrightarrow> has_suffix addr (CHR ''.'' # p)"
    using t u by (auto simp: has_suffix_iff nth_append)
qed

lemma has_suffix_Cons: "has_suffix addr (c # p) \<Longrightarrow> has_suffix addr p"
  by (auto simp: has_suffix_iff)

text \<open>
  C39. The loop over the entries of \<open>NO_PROXY\<close> never reads out of range, and an address goes
  without a proxy exactly when one of the entries covers it.
\<close>

theorem no_proxy_covers: "nh_no_proxy addr ps = Val (\<not> list_ex (covers addr) ps)"
proof (induction ps)
  case (Cons p0 ps)
  let ?p = "nh_cut_port (to_lower (trim_space p0))"
  have hd: "?p \<noteq> [] \<Longrightarrow> ?p ! 0 = hd ?p" "drop 1 ?p = tl ?p" by (simp_all add: hd_conv_nth drop_Suc)
  show ?case
  proof (cases "has_suffix addr ?p \<and> addr \<noteq> ?p")
    case True
    with suffix_dot [of addr ?p] Cons.IH hd show ?thesis
      by (auto simp: Let_def covers_def drop_Suc)
  next
    case False
    then have "addr \<noteq> ?p \<Longrightarrow> \<not> has_suffix addr (CHR ''.'' # ?p)" using has_suffix_Cons by blast
    with False Cons.IH hd show ?thesis by (auto simp: Let_def covers_def drop_Suc)
  qed
qed simp

text \<open>The value of a variable is the one that was found first, whatever the environment holds later.\<close>

lemma env_looked_up_once: "fst (env_get getenv' (snd (env_get getenv e))) = fst (env_get getenv e)"
  by (simp add: env_get_def Let_def)

text \<open>\<open>setError\<close> keeps the first error.\<close>

lemma set_error_first: "tq_err (fold set_error es tr) = (case tq_err tr of
    Some e \<Rightarrow> Some e | None \<Rightarrow> (case es of [] \<Rightarrow> None | e # _ \<Rightarrow> Some e))"
proof -
  have "tq_err tr = Some e \<Longrightarrow> tq_err (fold set_error es tr) = Some e" for es tr e
    by (induction es arbitrary: tr) (simp_all add: set_error_def)
  then show ?thesis by (cases es) (auto simp: set_error_def split: option.split)
qed

text \<open>A request is never sent again over a connection that is not marked as reused.\<close>

lemma fresh_never_retried [simp]: "\<not> nh_should_retry False rq err"
  by (simp add: nh_should_retry_def)

text \<open>
  The comment about requests that are not idempotent notwithstanding, a \<open>POST\<close> with a body is
  repeated when the reused connection broke before the answer.
\<close>

lemma post_is_repeated:
  "nh_should_retry True (rq\<lparr>rq_method := ''POST''\<rparr>) (NhReadFromServer (NhOther ErrEOF))"
  by (simp add: nh_should_retry_def nh_is_replayable_def)

end
