(* ===== verification/Conn_Lru.thy ===== *)
theory Conn_Lru
  imports Go_Prelude "HOL-Library.AList"
begin

text \<open>
  \<open>connLRU\<close> of \<open>nonhttproundtripper.go\<close>: a linked list of connections with a map from each
  connection to its element of the list. \<open>container/list\<close> is modelled as the elements from front to
  back, each named by a number that is given once; the map is an association list. The locale states
  what a client of such a cache may rely on in terms of the list of connections, most recent first.
\<close>

section \<open>Package container/list\<close>

record 'a go_list =
  gl_items :: "(nat \<times> 'a) list"
  gl_next :: nat

definition list_new :: "'a go_list" where
  "list_new = \<lparr>gl_items = [], gl_next = 0\<rparr>"

definition list_push_front :: "'a \<Rightarrow> 'a go_list \<Rightarrow> nat \<times> 'a go_list" where
  "list_push_front x l =
     (gl_next l, l\<lparr>gl_items := (gl_next l, x) # gl_items l, gl_next := gl_next l + 1\<rparr>)"

definition list_back :: "'a go_list \<Rightarrow> (nat \<times> 'a) option" where
  "list_back l = (if gl_items l = [] then None else Some (last (gl_items l)))"

definition list_remove :: "nat \<Rightarrow> 'a go_list \<Rightarrow> 'a go_list" where
  "list_remove i l = l\<lparr>gl_items := filter (\<lambda>e. fst e \<noteq> i) (gl_items l)\<rparr>"

section \<open>The cache\<close>

text \<open>\<open>ll\<close> is nil until the first \<open>add\<close>, and so is the map, which then reads as empty.\<close>

record 'a conn_lru =
  lr_ll :: "'a go_list option"
  lr_m :: "('a \<times> nat) list"

definition lru_zero :: "'a conn_lru" where
  "lru_zero = \<lparr>lr_ll = None, lr_m = []\<rparr>"

definition lru_add :: "'a \<Rightarrow> ('a conn_lru, unit) go" where
  "lru_add pc = (\<lambda>c.
     let (l, m) = (case lr_ll c of None \<Rightarrow> (list_new, []) | Some l \<Rightarrow> (l, lr_m c));
         (ele, l1) = list_push_front pc l
     in case map_of m pc of
          Some _ \<Rightarrow> gopanic ''persistConn was already in LRU'' (c\<lparr>lr_ll := Some l1, lr_m := m\<rparr>)
        | None \<Rightarrow> ret () (c\<lparr>lr_ll := Some l1, lr_m := AList.update pc ele m\<rparr>))"

definition lru_remove_oldest :: "('a conn_lru, 'a) go" where
  "lru_remove_oldest = (\<lambda>c. case lr_ll c of
     None \<Rightarrow> gopanic nil_deref c
   | Some l \<Rightarrow> (case list_back l of
       None \<Rightarrow> gopanic nil_deref c
     | Some (i, pc) \<Rightarrow>
         ret pc (c\<lparr>lr_ll := Some (list_remove i l), lr_m := AList.delete pc (lr_m c)\<rparr>)))"

definition lru_remove :: "'a \<Rightarrow> 'a conn_lru \<Rightarrow> 'a conn_lru" where
  "lru_remove pc c = (case map_of (lr_m c) pc of
     None \<Rightarrow> c
   | Some i \<Rightarrow> c\<lparr>lr_ll := map_option (list_remove i) (lr_ll c), lr_m := AList.delete pc (lr_m c)\<rparr>)"

definition lru_len :: "'a conn_lru \<Rightarrow> nat" where
  "lru_len c = length (lr_m c)"

definition lru_member :: "'a \<Rightarrow> 'a conn_lru \<Rightarrow> bool" where
  "lru_member pc c \<longleftrightarrow> map_of (lr_m c) pc \<noteq> None"

section \<open>The contract\<close>

text \<open>
  \<open>order\<close> is the abstraction; \<open>good\<close> the representation invariant. An \<open>add\<close> of what is cached and an
  eviction from an empty cache are not promised anything.
\<close>

locale lru_cache =
  fixes add :: "'a \<Rightarrow> ('c, unit) go"
    and oldest :: "('c, 'a) go"
    and rem :: "'a \<Rightarrow> 'c \<Rightarrow> 'c"
    and len :: "'c \<Rightarrow> nat"
    and member :: "'a \<Rightarrow> 'c \<Rightarrow> bool"
    and order :: "'c \<Rightarrow> 'a list"
    and good :: "'c \<Rightarrow> bool"
  assumes good_distinct: "good c \<Longrightarrow> distinct (order c)"
    and add_order: "good c \<Longrightarrow> x \<notin> set (order c) \<Longrightarrow>
      \<exists>c'. add x c = (Val (), c') \<and> good c' \<and> order c' = x # order c"
    and oldest_order: "good c \<Longrightarrow> order c \<noteq> [] \<Longrightarrow>
      \<exists>c'. oldest c = (Val (last (order c)), c') \<and> good c' \<and> order c' = butlast (order c)"
    and rem_good: "good c \<Longrightarrow> good (rem x c)"
    and rem_order: "good c \<Longrightarrow> order (rem x c) = remove1 x (order c)"
    and len_order: "good c \<Longrightarrow> len c = length (order c)"
    and member_order: "good c \<Longrightarrow> member x c \<longleftrightarrow> x \<in> set (order c)"
begin

lemma rem_member: "good c \<Longrightarrow> member y (rem x c) \<longleftrightarrow> y \<noteq> x \<and> member y c"
  by (auto simp: member_order rem_good rem_order good_distinct)

lemma rem_absent: "good c \<Longrightarrow> \<not> member x c \<Longrightarrow> order (rem x c) = order c"
  by (simp add: rem_order member_order remove1_idem)

text \<open>Adding any distinct connections and evicting as many gives them back in the order they came.\<close>

primrec add_all_of :: "'a list \<Rightarrow> ('c, unit) go" where
  "add_all_of [] = ret ()"
| "add_all_of (x # xs) = thn (add x) (add_all_of xs)"

primrec evict :: "nat \<Rightarrow> ('c, 'a list) go" where
  "evict 0 = ret []"
| "evict (Suc n) = bnd oldest (\<lambda>x. bnd (evict n) (\<lambda>xs. ret (x # xs)))"

lemma add_all_order:
  "good c \<Longrightarrow> distinct xs \<Longrightarrow> set xs \<inter> set (order c) = {} \<Longrightarrow>
     \<exists>c'. add_all_of xs c = (Val (), c') \<and> good c' \<and> order c' = rev xs @ order c"
proof (induction xs arbitrary: c)
  case (Cons x xs)
  from add_order [OF Cons.prems(1), of x] Cons.prems(3) obtain c1 where
    c1: "add x c = (Val (), c1)" "good c1" "order c1 = x # order c" by auto
  have "\<exists>c'. add_all_of xs c1 = (Val (), c') \<and> good c' \<and> order c' = rev xs @ order c1"
    by (rule Cons.IH [OF c1(2)]) (use Cons.prems c1(3) in auto)
  with c1 show ?case by (auto simp: thn_def bnd_apply)
qed (simp add: ret_def)

lemma evict_order:
  "good c \<Longrightarrow> n \<le> length (order c) \<Longrightarrow>
     \<exists>c'. evict n c = (Val (rev (drop (length (order c) - n) (order c))), c') \<and> good c' \<and>
       order c' = take (length (order c) - n) (order c)"
proof (induction n arbitrary: c)
  case (Suc n)
  then have ne: "order c \<noteq> []" by auto
  from oldest_order [OF Suc.prems(1) this] obtain c1 where
    c1: "oldest c = (Val (last (order c)), c1)" "good c1" "order c1 = butlast (order c)" by auto
  obtain ys y where ys: "order c = ys @ [y]" using ne by (metis append_butlast_last_id)
  have "\<exists>c'. evict n c1 = (Val (rev (drop (length (order c1) - n) (order c1))), c') \<and> good c' \<and>
      order c' = take (length (order c1) - n) (order c1)"
    by (rule Suc.IH [OF c1(2)]) (use Suc.prems c1(3) in auto)
  with c1 ys Suc.prems show ?case by (auto simp: bnd_apply ret_def)
qed (simp add: ret_def)

lemma first_in_first_out:
  assumes "good c" "order c = []" "distinct xs"
  shows "fst (bnd (add_all_of xs) (\<lambda>_. evict (length xs)) c) = Val xs"
proof -
  from add_all_order [OF assms(1,3)] assms(2) obtain c1 where
    "add_all_of xs c = (Val (), c1)" "good c1" "order c1 = rev xs" by auto
  with evict_order [of c1 "length xs"] show ?thesis by (auto simp: bnd_apply)
qed

end

section \<open>The model keeps the contract\<close>

definition lru_items :: "'a conn_lru \<Rightarrow> (nat \<times> 'a) list" where
  "lru_items c = (case lr_ll c of None \<Rightarrow> [] | Some l \<Rightarrow> gl_items l)"

definition lru_order :: "'a conn_lru \<Rightarrow> 'a list" where
  "lru_order c = map snd (lru_items c)"

text \<open>Each element is named once and below the next name, and the map is the list read backwards.\<close>

definition lru_ok :: "'a conn_lru \<Rightarrow> bool" where
  "lru_ok c \<longleftrightarrow> distinct (map snd (lru_items c)) \<and> distinct (map fst (lru_items c)) \<and>
     distinct (map fst (lr_m c)) \<and>
     set (lr_m c) = (\<lambda>(i, x). (x, i)) ` set (lru_items c) \<and>
     (\<forall>l. lr_ll c = Some l \<longrightarrow> (\<forall>e \<in> set (gl_items l). fst e < gl_next l))"

lemma lru_ok_zero [simp]: "lru_ok lru_zero" "lru_order lru_zero = []"
  by (simp_all add: lru_ok_def lru_zero_def lru_items_def lru_order_def)

lemma filter_removes_pair:
  "distinct (map fst xs) \<Longrightarrow> distinct (map snd xs) \<Longrightarrow> (i, x) \<in> set xs \<Longrightarrow>
     map snd (filter (\<lambda>e. fst e \<noteq> i) xs) = remove1 x (map snd xs)"
proof (induction xs)
  case (Cons e xs)
  show ?case
  proof (cases "e = (i, x)")
    case True
    with Cons.prems(1) have "filter (\<lambda>e. fst e \<noteq> i) xs = xs" by (auto simp: filter_id_conv image_iff)
    with True show ?thesis by simp
  next
    case False
    with Cons.prems have "(i, x) \<in> set xs" by simp
    moreover from this have "i \<in> fst ` set xs" "x \<in> snd ` set xs" by force+
    moreover have "fst e \<notin> fst ` set xs" "snd e \<notin> snd ` set xs" using Cons.prems by simp_all
    ultimately have "fst e \<noteq> i" "snd e \<noteq> x" by blast+
    with Cons.IH Cons.prems \<open>(i, x) \<in> set xs\<close> show ?thesis by simp
  qed
qed simp

lemma lru_ok_map: "lru_ok c \<Longrightarrow> map_of (lr_m c) x = Some i \<longleftrightarrow> (i, x) \<in> set (lru_items c)"
  by (auto simp: lru_ok_def map_of_eq_Some_iff)

lemma lru_ok_absent: "lru_ok c \<Longrightarrow> map_of (lr_m c) x = None \<longleftrightarrow> x \<notin> set (lru_order c)"
proof -
  assume ok: "lru_ok c"
  have "map_of (lr_m c) x = None \<longleftrightarrow> \<not> (\<exists>i. map_of (lr_m c) x = Some i)" by simp
  also have "\<dots> \<longleftrightarrow> \<not> (\<exists>i. (i, x) \<in> set (lru_items c))" by (simp only: lru_ok_map [OF ok])
  also have "\<dots> \<longleftrightarrow> x \<notin> set (lru_order c)" by (force simp: lru_order_def)
  finally show ?thesis .
qed

lemma set_delete: "set (AList.delete x m) = {e \<in> set m. fst e \<noteq> x}"
  by (auto simp: AList.delete_eq)

lemma update_new: "x \<notin> fst ` set m \<Longrightarrow> AList.update x i m = m @ [(x, i)]"
  by (induction m) auto

lemma lru_drop_ok:
  assumes "lru_ok c" "(i, x) \<in> set (lru_items c)" "lr_ll c = Some l"
    and c': "c' = c\<lparr>lr_ll := Some (list_remove i l), lr_m := AList.delete x (lr_m c)\<rparr>"
  shows "lru_ok c'" and "lru_order c' = remove1 x (lru_order c)"
proof -
  have d: "distinct (map fst (gl_items l))" "distinct (map snd (gl_items l))" "(i, x) \<in> set (gl_items l)"
    using assms(1-3) by (auto simp: lru_ok_def lru_items_def)
  then show "lru_order c' = remove1 x (lru_order c)"
    using filter_removes_pair [of "gl_items l" i x] assms(3)
    by (simp add: c' lru_order_def lru_items_def list_remove_def)
  have inj: "\<And>j y. (j, y) \<in> set (gl_items l) \<Longrightarrow> j = i \<longleftrightarrow> y = x"
    using d by (metis eq_key_imp_eq_value map_of_eq_Some_iff distinct_map fst_conv snd_conv inj_onD)
  have keys: "distinct (map fst (AList.delete x (lr_m c)))"
    using assms(1) by (simp add: lru_ok_def distinct_delete)
  have m: "(y, j) \<in> set (lr_m c) \<longleftrightarrow> (j, y) \<in> set (gl_items l)" for y j
    using assms(1,3) by (force simp: lru_ok_def lru_items_def)
  have "set (AList.delete x (lr_m c)) = (\<lambda>(i, x). (x, i)) ` set (filter (\<lambda>e. fst e \<noteq> i) (gl_items l))"
    using inj m by (fastforce simp: set_delete image_iff)
  with assms(1,3) keys show "lru_ok c'"
    by (auto simp: lru_ok_def c' lru_items_def list_remove_def distinct_map_filter)
qed

lemma lru_add_new:
  assumes "lru_ok c" "x \<notin> set (lru_order c)"
  shows "\<exists>c'. lru_add x c = (Val (), c') \<and> lru_ok c' \<and> lru_order c' = x # lru_order c"
proof (cases "lr_ll c")
  case None
  then show ?thesis
    by (auto simp: lru_add_def list_new_def list_push_front_def ret_def lru_ok_def lru_items_def lru_order_def)
next
  case (Some l)
  have m: "map_of (lr_m c) x = None" using assms by (simp add: lru_ok_absent)
  then have nx: "x \<notin> fst ` set (lr_m c)" by (simp add: map_of_eq_None_iff)
  have "gl_next l \<notin> fst ` set (gl_items l)" using assms(1) Some by (fastforce simp: lru_ok_def)
  with Some m nx assms show ?thesis
    by (auto simp: lru_add_def list_push_front_def ret_def lru_ok_def lru_items_def lru_order_def
        less_Suc_eq update_new distinct_update)
qed

lemma lru_oldest_last:
  assumes "lru_ok c" "lru_order c \<noteq> []"
  shows "\<exists>c'. lru_remove_oldest c = (Val (last (lru_order c)), c') \<and> lru_ok c' \<and>
    lru_order c' = butlast (lru_order c)"
proof -
  obtain l where l: "lr_ll c = Some l" and ne: "gl_items l \<noteq> []"
    using assms(2) by (auto simp: lru_order_def lru_items_def split: option.splits)
  obtain i x where ix: "last (gl_items l) = (i, x)" by fastforce
  have mem: "(i, x) \<in> set (lru_items c)" using l ne ix last_in_set by (fastforce simp: lru_items_def)
  have x: "x = last (lru_order c)" using l ne ix by (simp add: lru_order_def lru_items_def last_map)
  have "remove1 x (lru_order c) = butlast (lru_order c)"
    using assms x by (metis append_butlast_last_id distinct_append lru_ok_def lru_order_def
        not_distinct_conv_prefix remove1_append remove1.simps(2) list.set_intros(1) append_Nil2 distinct_butlast)
  with lru_drop_ok [OF assms(1) mem l refl] l ne ix x show ?thesis
    by (auto simp: lru_remove_oldest_def list_back_def ret_def)
qed

lemma lru_len_items:
  assumes "lru_ok c"
  shows "lru_len c = length (lru_order c)"
proof -
  have inj: "inj_on (\<lambda>(i, x). (x, i)) (set (lru_items c))" by (auto simp: inj_on_def)
  have "set (lr_m c) = (\<lambda>(i, x). (x, i)) ` set (lru_items c)"
    using assms by (simp only: lru_ok_def)
  then have "card (set (lr_m c)) = card (set (lru_items c))"
    by (simp only: card_image [OF inj])
  moreover have "distinct (lr_m c)" "distinct (lru_items c)"
    using assms by (auto simp: lru_ok_def distinct_map)
  ultimately show ?thesis by (simp add: lru_len_def lru_order_def distinct_card)
qed

lemma lru_remove_order:
  assumes "lru_ok c"
  shows "lru_ok (lru_remove x c) \<and> lru_order (lru_remove x c) = remove1 x (lru_order c)"
proof (cases "map_of (lr_m c) x")
  case None
  then have "x \<notin> set (lru_order c)" using lru_ok_absent [OF assms] by simp
  with None assms show ?thesis by (simp add: lru_remove_def remove1_idem)
next
  case (Some i)
  with assms have m: "(i, x) \<in> set (lru_items c)" by (simp add: lru_ok_map)
  then obtain l where l: "lr_ll c = Some l" by (cases "lr_ll c") (auto simp: lru_items_def)
  with Some lru_drop_ok [OF assms m l refl] show ?thesis by (simp add: lru_remove_def)
qed

interpretation conn_cache: lru_cache lru_add lru_remove_oldest lru_remove lru_len lru_member lru_order lru_ok
proof unfold_locales
  fix c :: "'a conn_lru" and x
  assume ok: "lru_ok c"
  show "distinct (lru_order c)" using ok by (simp add: lru_ok_def lru_order_def)
  show "x \<notin> set (lru_order c) \<Longrightarrow> \<exists>c'. lru_add x c = (Val (), c') \<and> lru_ok c' \<and> lru_order c' = x # lru_order c"
    using ok by (rule lru_add_new)
  show "lru_order c \<noteq> [] \<Longrightarrow> \<exists>c'. lru_remove_oldest c = (Val (last (lru_order c)), c') \<and> lru_ok c' \<and>
      lru_order c' = butlast (lru_order c)"
    using ok by (rule lru_oldest_last)
  show "lru_member x c \<longleftrightarrow> x \<in> set (lru_order c)"
    using lru_ok_absent [OF ok] by (simp add: lru_member_def)
  show "lru_len c = length (lru_order c)"
    by (rule lru_len_items [OF ok])
  show "lru_ok (lru_remove x c)" "lru_order (lru_remove x c) = remove1 x (lru_order c)"
    using lru_remove_order [OF ok] by simp_all
qed

section \<open>What the cache promises\<close>

text \<open>
  Any distinct connections added to an empty cache are evicted in the order in which they were
  added, the least recently used one first.
\<close>

theorem lru_evicts_oldest_first:
  assumes "lru_ok c" "lru_order c = []" "distinct xs"
  shows "fst (bnd (conn_cache.add_all_of xs) (\<lambda>_. conn_cache.evict (length xs)) c) = Val xs"
  using assms by (rule conn_cache.first_in_first_out)

theorem lru_evicts_oldest_first_witness:
  "fst (bnd (conn_cache.add_all_of [3, 1, 2 :: nat]) (\<lambda>_. conn_cache.evict (length [3, 1, 2 :: nat])) lru_zero)
     = Val [3, 1, 2]"
  by (rule lru_evicts_oldest_first) simp_all

text \<open>
  A second \<open>add\<close> of a connection panics after it has been pushed to the list, so the cache is
  left with the connection listed twice; the entry is taken out only once by \<open>remove\<close>.
\<close>

lemma add_twice_corrupts:
  "fst (lru_add (7 :: nat) (snd (lru_add 7 lru_zero))) = Panic ''persistConn was already in LRU''"
  "lru_order (lru_remove 7 (snd (lru_add (7 :: nat) (snd (lru_add 7 lru_zero))))) = [7]"
  by (simp_all add: lru_add_def lru_zero_def list_new_def list_push_front_def ret_def gopanic_def lru_remove_def
      list_remove_def lru_order_def lru_items_def)

end
