(* ===== verification/Nonhttp_Dial.thy ===== *)
theory Nonhttp_Dial
  imports Nonhttp_Base Conn_Lru
begin

text \<open>
  \<open>nonhttproundtripper.go\<close>, second part: the connections (\<open>persistConn\<close>), the registry of the
  functions that cancel a request, the pool of idle connections, which is never filled, and \<open>getConn\<close>.
  A \<open>persistConn\<close> is shared by pointer between goroutines, so connections live in a store and are
  named by numbers, as requests are. \<open>getConn\<close> races the dial against three ways of cancelling: a
  \<open>select\<close> is the list of the outcomes it may have.
\<close>

section \<open>Connections\<close>

text \<open>
  What is sent through the channels of a connection: \<open>requestAndChan\<close> and \<open>writeRequest\<close>, without the
  channels that belong to the one exchange (\<open>Nonhttp_Exchange\<close>).
\<close>

record request_and_chan =
  rc_req :: nh_request
  rc_gzip :: bool
  rc_continue :: bool

record write_job =
  wj_req :: transport_request
  wj_continue :: bool

record nh_conn =
  np_alt :: bool
  np_key :: conn_key
  np_conn :: conn_ref
  np_tls :: bool
  np_rbuf :: string
  np_wbuf :: string
  np_werr :: "goerr option"
  np_nwrite :: int
  np_reqch :: "request_and_chan list"
  np_writech :: "write_job list"
  np_closech :: bool
  np_saw_eof :: bool
  np_read_limit :: int
  np_write_err :: "nh_error option list"
  np_write_done :: bool
  np_idle_timer :: bool
  np_expected :: int
  np_closed :: "nh_error option"
  np_canceled :: "nh_error option"
  np_broken :: bool
  np_reused :: bool
  np_mutate :: bool

text \<open>
  The functions that cancel a request: none that does anything, one that sends to \<open>cancelc\<close> of
  \<open>getConn\<close>, and \<open>cancelRequest\<close> of a connection. A nil registry reads as empty.
\<close>

datatype nh_canceler = CancelNothing | CancelDial | CancelConn nat

record nh_tls_cfg =
  cl_server_name :: string
  cl_insecure :: bool

record nh_state =
  nh_tls_config :: "nh_tls_cfg option"
  nh_handshake_timeout :: int
  nh_max_header :: int
  nh_continue_timeout :: int
  nh_header_timeout :: int
  nh_canceler :: "nat \<rightharpoonup> nh_canceler"
  nh_cancelc :: "nat \<Rightarrow> nh_error list"
  nh_lru :: "nat conn_lru"
  nh_idle :: "conn_key \<rightharpoonup> nat list"
  nh_store :: "nat \<Rightarrow> nh_conn"
  nh_fresh :: nat
  nh_net :: net

abbreviation upd_conn :: "nat \<Rightarrow> (nh_conn \<Rightarrow> nh_conn) \<Rightarrow> nh_state \<Rightarrow> nh_state" where
  "upd_conn p f t \<equiv> t\<lparr>nh_store := (nh_store t)(p := f (nh_store t p))\<rparr>"

text \<open>\<open>closeLocked\<close>: the first error is kept, and only the first call closes anything.\<close>

definition nh_close_locked :: "nat \<Rightarrow> nh_error option \<Rightarrow> (nh_state, unit) go" where
  "nh_close_locked p err = (\<lambda>t. case err of
     None \<Rightarrow> gopanic ''nil error'' t
   | Some e \<Rightarrow>
      (let c = (nh_store t p)\<lparr>np_broken := True, np_mutate := False\<rparr> in
       if np_closed c = None then
         (if np_alt c then ret () (t\<lparr>nh_store := (nh_store t)(p := c\<lparr>np_closed := Some e\<rparr>)\<rparr>)
          else ret () (t\<lparr>nh_store := (nh_store t)(p := c\<lparr>np_closed := Some e, np_closech := True\<rparr>),
                        nh_net := snd (conn_close (np_conn c) (nh_net t))\<rparr>))
       else ret () (t\<lparr>nh_store := (nh_store t)(p := c)\<rparr>)))"

text \<open>\<open>close\<close> takes the lock and calls it; every caller has an error.\<close>

definition nh_close :: "nat \<Rightarrow> nh_error \<Rightarrow> nh_state \<Rightarrow> nh_state" where
  "nh_close p e t = snd (nh_close_locked p (Some e) t)"

definition nh_cancel_conn :: "nat \<Rightarrow> nh_error \<Rightarrow> nh_state \<Rightarrow> nh_state" where
  "nh_cancel_conn p e t =
     snd (nh_close_locked p (Some NhRequestCanceled) (upd_conn p (np_canceled_update (\<lambda>_. Some e)) t))"

definition nh_is_broken :: "nat \<Rightarrow> nh_state \<Rightarrow> bool" where
  "nh_is_broken p t \<longleftrightarrow> np_closed (nh_store t p) \<noteq> None"

definition nh_is_reused :: "nat \<Rightarrow> nh_state \<Rightarrow> bool" where
  "nh_is_reused p t \<longleftrightarrow> np_reused (nh_store t p)"

definition nh_mark_reused :: "nat \<Rightarrow> nh_state \<Rightarrow> nh_state" where
  "nh_mark_reused p t = upd_conn p (np_reused_update (\<lambda>_. True)) t"

definition nh_canceled :: "nat \<Rightarrow> nh_state \<Rightarrow> nh_error option" where
  "nh_canceled p t = np_canceled (nh_store t p)"

definition nh_max_header_size :: "nh_state \<Rightarrow> int" where
  "nh_max_header_size t = (if nh_max_header t \<noteq> 0 then nh_max_header t else 10 * 2 ^ 20)"

section \<open>Cancelling\<close>

definition set_req_canceler :: "nat \<Rightarrow> nh_canceler option \<Rightarrow> nh_state \<Rightarrow> nh_state" where
  "set_req_canceler r f t = t\<lparr>nh_canceler := (nh_canceler t)(r := f)\<rparr>"

definition replace_req_canceler :: "nat \<Rightarrow> nh_canceler option \<Rightarrow> nh_state \<Rightarrow> bool \<times> nh_state" where
  "replace_req_canceler r f t =
     (if nh_canceler t r = None then (False, t)
      else (True, t\<lparr>nh_canceler := (nh_canceler t)(r := f)\<rparr>))"

definition nh_run_cancel :: "nat \<Rightarrow> nh_canceler \<Rightarrow> nh_error \<Rightarrow> nh_state \<Rightarrow> nh_state" where
  "nh_run_cancel r f e t = (case f of
     CancelNothing \<Rightarrow> t
   | CancelDial \<Rightarrow> t\<lparr>nh_cancelc := (nh_cancelc t)(r := nh_cancelc t r @ [e])\<rparr>
   | CancelConn p \<Rightarrow> nh_cancel_conn p e t)"

definition cancel_request_with :: "nat \<Rightarrow> nh_error \<Rightarrow> nh_state \<Rightarrow> nh_state" where
  "cancel_request_with r e t =
     (let t1 = t\<lparr>nh_canceler := (nh_canceler t)(r := None)\<rparr> in
      case nh_canceler t r of None \<Rightarrow> t1 | Some f \<Rightarrow> nh_run_cancel r f e t1)"

definition cancel_request :: "nat \<Rightarrow> nh_state \<Rightarrow> nh_state" where
  "cancel_request r t = cancel_request_with r NhRequestCanceled t"

section \<open>The pool of idle connections\<close>

definition nh_try_put_idle :: "nat \<Rightarrow> nh_state \<Rightarrow> nh_error option" where
  "nh_try_put_idle p t = Some NhKeepAlivesDisabled"

definition nh_put_or_close :: "nat \<Rightarrow> nh_state \<Rightarrow> nh_state" where
  "nh_put_or_close p t = (case nh_try_put_idle p t of None \<Rightarrow> t | Some e \<Rightarrow> nh_close p e t)"

definition nh_get_idle_conn :: "conn_method \<Rightarrow> nh_state \<Rightarrow> nat option" where
  "nh_get_idle_conn cm t = None"

definition nh_remove_idle :: "nat \<Rightarrow> nh_state \<Rightarrow> nh_state" where
  "nh_remove_idle p t = t"

definition nh_remove_idle_locked :: "nat \<Rightarrow> nh_state \<Rightarrow> nh_state" where
  "nh_remove_idle_locked p t0 =
     (let t = (if np_idle_timer (nh_store t0 p) then upd_conn p (np_idle_timer_update (\<lambda>_. False)) t0 else t0);
          t1 = t\<lparr>nh_lru := lru_remove p (nh_lru t)\<rparr>;
          key = np_key (nh_store t1 p)
      in case nh_idle t1 key of
           None \<Rightarrow> t1
         | Some [] \<Rightarrow> t1
         | Some [q] \<Rightarrow> if q = p then t1\<lparr>nh_idle := (nh_idle t1)(key := None)\<rparr> else t1
         | Some ps \<Rightarrow> if p \<in> set ps then t1\<lparr>nh_idle := (nh_idle t1)(key \<mapsto> remove1 p ps)\<rparr> else t1)"

definition nh_close_if_idle :: "nat \<Rightarrow> nh_state \<Rightarrow> nh_state" where
  "nh_close_if_idle p t =
     (if \<not> lru_member p (nh_lru t) then t
      else nh_close p NhIdleConnTimeout (nh_remove_idle_locked p t))"

section \<open>Dialling\<close>

text \<open>
  What a connection needs of the outside: the transport's \<open>DialContext\<close>, if any, and the one of the zero
  \<open>net.Dialer\<close>; the TLS handshake with the time it takes; the check of the host name; \<open>idna\<close>.
\<close>

record nh_env =
  ne_dial :: "(string \<Rightarrow> string \<Rightarrow> net \<Rightarrow> (goerr + conn_ref) \<times> net) option"
  ne_zero_dial :: "string \<Rightarrow> string \<Rightarrow> net \<Rightarrow> (goerr + conn_ref) \<times> net"
  ne_handshake :: "conn_ref \<Rightarrow> nh_tls_cfg \<Rightarrow> net \<Rightarrow> (conn_ref \<times> goerr option) \<times> net"
  ne_handshake_time :: "conn_ref \<Rightarrow> int"
  ne_verify_host :: "conn_ref \<Rightarrow> string \<Rightarrow> goerr option"
  ne_idna :: "string \<Rightarrow> goerr + string"

definition nh_dial :: "nh_env \<Rightarrow> string \<Rightarrow> string \<Rightarrow> net \<Rightarrow> (goerr + conn_ref) \<times> net" where
  "nh_dial ne network addr = (case ne_dial ne of
     Some d \<Rightarrow> d network addr
   | None \<Rightarrow> ne_zero_dial ne network addr)"

definition clone_tls_config :: "nh_tls_cfg option \<Rightarrow> nh_tls_cfg" where
  "clone_tls_config cfg = (case cfg of None \<Rightarrow> \<lparr>cl_server_name = [], cl_insecure = False\<rparr> | Some c \<Rightarrow> c)"

text \<open>
  The TLS part of \<open>dialConn\<close>: whichever of the handshake and the timer (none when the timeout is zero)
  reports first decides.
\<close>

definition nh_start_tls :: "nh_env \<Rightarrow> nh_state \<Rightarrow> conn_method \<Rightarrow> conn_ref \<Rightarrow> net \<Rightarrow> (nh_error + conn_ref) \<times> net" where
  "nh_start_tls ne t cm plain n =
     (let cfg0 = clone_tls_config (nh_tls_config t);
          cfg = (if cl_server_name cfg0 = [] then cfg0\<lparr>cl_server_name := km_tls_host cm\<rparr> else cfg0);
          d = nh_handshake_timeout t
      in case ne_handshake ne plain cfg n of ((tls, err), n1) \<Rightarrow>
        (if d \<noteq> 0 \<and> d < ne_handshake_time ne plain
         then (Inl NhHandshakeTimeout, snd (conn_close plain n1))
         else case err of
           Some e \<Rightarrow> (Inl (NhOther e), snd (conn_close plain n1))
         | None \<Rightarrow>
            (if cl_insecure cfg then (Inr tls, n1)
             else case ne_verify_host ne tls (cl_server_name cfg) of
               Some e \<Rightarrow> (Inl (NhOther e), snd (conn_close plain n1))
             | None \<Rightarrow> (Inr tls, n1))))"

definition new_nh_conn :: "conn_key \<Rightarrow> conn_ref \<Rightarrow> bool \<Rightarrow> nh_conn" where
  "new_nh_conn key c tls = \<lparr>np_alt = False, np_key = key, np_conn = c, np_tls = tls, np_rbuf = [], np_wbuf = [],
     np_werr = None, np_nwrite = 0, np_reqch = [], np_writech = [], np_closech = False, np_saw_eof = False,
     np_read_limit = 0, np_write_err = [], np_write_done = False, np_idle_timer = False, np_expected = 0,
     np_closed = None, np_canceled = None, np_broken = False, np_reused = False, np_mutate = False\<rparr>"

definition nh_dial_conn :: "nh_env \<Rightarrow> conn_method \<Rightarrow> nh_state \<Rightarrow> (nh_error + nat) \<times> nh_state" where
  "nh_dial_conn ne cm t =
     (case nh_dial ne ''tcp'' (km_first_hop (ne_idna ne) cm) (nh_net t) of
        (Inl e, n) \<Rightarrow> (Inl (NhOther e), t\<lparr>nh_net := n\<rparr>)
      | (Inr c, n) \<Rightarrow>
         (let tls = (km_scheme cm = ''nonhttps'') in
          case (if tls then nh_start_tls ne t cm c n else (Inr c, n)) of
            (Inl e, n1) \<Rightarrow> (Inl e, t\<lparr>nh_net := n1\<rparr>)
          | (Inr c1, n1) \<Rightarrow>
              (Inr (nh_fresh t),
               t\<lparr>nh_store := (nh_store t)(nh_fresh t := new_nh_conn (km_key cm) c1 tls),
                 nh_fresh := nh_fresh t + 1, nh_net := n1\<rparr>)))"

section \<open>Waiting for a connection\<close>

text \<open>
  What \<open>getConn\<close> finds ready when its \<open>select\<close> chooses: the result of the dial, the request's cancel
  channel, its context, and an error from the function that cancels the request.
\<close>

record dial_wait =
  dw_dial :: "(nh_error + nat) option"
  dw_cancel :: bool
  dw_ctx :: "nh_error option"
  dw_cancelc :: "nh_error list"

definition conn_cancel_error :: "nh_error \<Rightarrow> nh_error" where
  "conn_cancel_error e = (if e = NhRequestCanceled then NhRequestCanceledConn else e)"

definition cancel_errors :: "dial_wait \<Rightarrow> nh_error list" where
  "cancel_errors w = (if dw_cancel w then [NhRequestCanceledConn] else []) @
     (case dw_ctx w of None \<Rightarrow> [] | Some e \<Rightarrow> [e]) @
     (case dw_cancelc w of [] \<Rightarrow> [] | e # _ \<Rightarrow> [conn_cancel_error e])"

text \<open>
  The outcomes of the \<open>select\<close>, each with whether the dial is left to \<open>handlePendingDial\<close>; none while
  nothing is ready. The channel of idle connections is nil, so its case is never chosen.
\<close>

definition dial_select :: "dial_wait \<Rightarrow> ((nh_error + nat) \<times> bool) list" where
  "dial_select w =
     (case dw_dial w of
        None \<Rightarrow> []
      | Some (Inr p) \<Rightarrow> [(Inr p, False)]
      | Some (Inl e) \<Rightarrow>
          map (\<lambda>x. (Inl x, False)) (if cancel_errors w = [] then [e] else cancel_errors w)) @
     map (\<lambda>x. (Inl x, True)) (cancel_errors w)"

text \<open>\<open>handlePendingDial\<close>, once the dial it waits for has ended.\<close>

definition pending_dial :: "nh_error + nat \<Rightarrow> nh_state \<Rightarrow> nh_state" where
  "pending_dial v t = (case v of Inl _ \<Rightarrow> t | Inr p \<Rightarrow> nh_put_or_close p t)"

text \<open>
  What happens while \<open>getConn\<close> waits: whether the dial ends first, the cancel channel and context of
  the request, and the errors \<open>cancelRequest\<close> is called with.
\<close>

record dial_race =
  dr_dialled :: bool
  dr_cancel :: bool
  dr_ctx :: "nh_error option"
  dr_cancels :: "nh_error list"

text \<open>All the ways \<open>getConn\<close> may return, with a pending dial followed to its end.\<close>

definition nh_get_conn :: "nh_env \<Rightarrow> conn_method \<Rightarrow> nat \<Rightarrow> dial_race \<Rightarrow> nh_state \<Rightarrow> ((nh_error + nat) \<times> nh_state) list" where
  "nh_get_conn ne cm r w t = (case nh_get_idle_conn cm t of
     Some p \<Rightarrow> [(Inr p, set_req_canceler r (Some CancelNothing) t)]
   | None \<Rightarrow>
      (let t1 = set_req_canceler r (Some CancelDial) (t\<lparr>nh_cancelc := (nh_cancelc t)(r := [])\<rparr>);
           (v, t2) = nh_dial_conn ne cm t1;
           t3 = fold (cancel_request_with r) (dr_cancels w) t2;
           ready = \<lparr>dw_dial = (if dr_dialled w then Some v else None), dw_cancel = dr_cancel w,
                    dw_ctx = dr_ctx w, dw_cancelc = nh_cancelc t3 r\<rparr>
       in map (\<lambda>(res, pending). (res, if pending then pending_dial v t3 else t3)) (dial_select ready)))"

text \<open>\<open>oneConnDialer\<close>: the connections buffered in the channel, and EOF when there is none.\<close>

definition one_conn_dial :: "conn_ref list \<Rightarrow> (goerr + conn_ref) \<times> conn_ref list" where
  "one_conn_dial d = (case d of [] \<Rightarrow> (Inl ErrEOF, []) | c # cs \<Rightarrow> (Inr c, cs))"

section \<open>Closing\<close>

text \<open>A connection is down once its error is set, its channel closed and its network connection closed.\<close>

definition nh_down :: "nat \<Rightarrow> nh_state \<Rightarrow> bool" where
  "nh_down p t \<longleftrightarrow> np_closed (nh_store t p) \<noteq> None \<and> np_closech (nh_store t p) \<and>
     tc_closed (conn_of (np_conn (nh_store t p)) (nh_net t))"

text \<open>
  The three signs agree: the error is set exactly when the channel is closed, and then the network
  connection is closed. It holds for a new connection, and closing keeps it.
\<close>

definition conn_ok :: "nh_conn \<Rightarrow> net \<Rightarrow> bool" where
  "conn_ok c n \<longleftrightarrow> \<not> np_alt c \<and> (np_closed c \<noteq> None \<longleftrightarrow> np_closech c) \<and>
     (np_closech c \<longrightarrow> tc_closed (conn_of (np_conn c) n) \<and> np_broken c)"

definition nh_close_ok :: "nat \<Rightarrow> nh_state \<Rightarrow> bool" where
  "nh_close_ok p t \<longleftrightarrow> conn_ok (nh_store t p) (nh_net t)"

named_theorems nh_close_simps "what closing and cancelling leave alone"

lemma nh_close_fields [nh_close_simps, simp]:
  "nh_fresh (nh_close p e t) = nh_fresh t" "nh_canceler (nh_close p e t) = nh_canceler t"
  "nh_cancelc (nh_close p e t) = nh_cancelc t" "nh_lru (nh_close p e t) = nh_lru t"
  "nh_idle (nh_close p e t) = nh_idle t" "nh_header_timeout (nh_close p e t) = nh_header_timeout t"
  "nh_max_header (nh_close p e t) = nh_max_header t"
  by (simp_all add: nh_close_def nh_close_locked_def Let_def ret_def)

lemma nh_close_other [simp]: "q \<noteq> p \<Longrightarrow> nh_store (nh_close p e t) q = nh_store t q"
  by (simp add: nh_close_def nh_close_locked_def Let_def ret_def)

lemma nh_close_conn_fields [nh_close_simps, simp]:
  "np_key (nh_store (nh_close p e t) q) = np_key (nh_store t q)"
  "np_conn (nh_store (nh_close p e t) q) = np_conn (nh_store t q)"
  "np_reused (nh_store (nh_close p e t) q) = np_reused (nh_store t q)"
  "np_canceled (nh_store (nh_close p e t) q) = np_canceled (nh_store t q)"
  "np_reqch (nh_store (nh_close p e t) q) = np_reqch (nh_store t q)"
  "np_writech (nh_store (nh_close p e t) q) = np_writech (nh_store t q)"
  "np_write_err (nh_store (nh_close p e t) q) = np_write_err (nh_store t q)"
  "np_write_done (nh_store (nh_close p e t) q) = np_write_done (nh_store t q)"
  "np_expected (nh_store (nh_close p e t) q) = np_expected (nh_store t q)"
  "np_nwrite (nh_store (nh_close p e t) q) = np_nwrite (nh_store t q)"
  "np_rbuf (nh_store (nh_close p e t) q) = np_rbuf (nh_store t q)"
  "np_read_limit (nh_store (nh_close p e t) q) = np_read_limit (nh_store t q)"
  by (simp_all add: nh_close_def nh_close_locked_def Let_def ret_def)

lemma nh_close_first_error:
  "np_closed (nh_store (nh_close p e t) p) = Some (case np_closed (nh_store t p) of None \<Rightarrow> e | Some e0 \<Rightarrow> e0)"
  by (simp add: nh_close_def nh_close_locked_def Let_def ret_def split: option.split)

lemma nh_close_down: "nh_close_ok p t \<Longrightarrow> nh_down p (nh_close p e t)"
  by (auto simp: nh_close_def nh_close_locked_def Let_def ret_def nh_down_def nh_close_ok_def conn_ok_def conn_of_def
      dest: conn_close_keeps)

lemma nh_close_keeps_ok: "nh_close_ok p t \<Longrightarrow> nh_close_ok p (nh_close p e t)"
  by (auto simp: nh_close_def nh_close_locked_def Let_def ret_def nh_close_ok_def conn_ok_def conn_of_def)

lemma nh_cancel_conn_close:
  "nh_cancel_conn p e t = nh_close p NhRequestCanceled (upd_conn p (np_canceled_update (\<lambda>_. Some e)) t)"
  by (simp add: nh_cancel_conn_def nh_close_def)

lemma conn_ok_fields [simp]:
  "conn_ok (np_expected_update f1 c) n = conn_ok c n" "conn_ok (np_writech_update f2 c) n = conn_ok c n"
  "conn_ok (np_reqch_update f3 c) n = conn_ok c n" "conn_ok (np_write_err_update f4 c) n = conn_ok c n"
  "conn_ok (np_write_done_update f5 c) n = conn_ok c n" "conn_ok (np_saw_eof_update f6 c) n = conn_ok c n"
  "conn_ok (np_rbuf_update f7 c) n = conn_ok c n" "conn_ok (np_read_limit_update f8 c) n = conn_ok c n"
  "conn_ok (np_wbuf_update f9 c) n = conn_ok c n" "conn_ok (np_werr_update f10 c) n = conn_ok c n"
  "conn_ok (np_nwrite_update f11 c) n = conn_ok c n" "conn_ok (np_canceled_update f12 c) n = conn_ok c n"
  by (simp_all add: conn_ok_def)

lemma put_or_close_closes: "nh_put_or_close p t = nh_close p NhKeepAlivesDisabled t"
  by (simp add: nh_put_or_close_def nh_try_put_idle_def)

lemma new_conn_ok: "nh_store t p = new_nh_conn key c b \<Longrightarrow> nh_close_ok p t"
  by (simp add: nh_close_ok_def conn_ok_def new_nh_conn_def)

section \<open>What dialling promises\<close>

lemma start_tls_failed:
  "nh_start_tls ne t cm plain n = (Inl e, n') \<Longrightarrow> tc_closed (conn_of plain n')"
  by (auto simp: nh_start_tls_def Let_def conn_of_def split: prod.splits option.splits if_splits)

text \<open>
  When \<open>dialConn\<close> fails after the network connection was made, whatever the reason (the handshake,
  its timeout, the host name), that connection has been closed.
\<close>

theorem nh_dial_no_leak:
  assumes "nh_dial ne ''tcp'' (km_first_hop (ne_idna ne) cm) (nh_net t) = (Inr c, n)"
    "nh_dial_conn ne cm t = (Inl e, t')"
  shows "tc_closed (conn_of c (nh_net t'))"
  using assms start_tls_failed
  by (auto simp: nh_dial_conn_def Let_def split: prod.splits sum.splits if_splits)

text \<open>
  C29. A connection for the scheme \<open>nonhttps\<close> that \<open>dialConn\<close> returns is the one the TLS handshake gave, over the network
  connection that was dialled: the handshake succeeded, within the timeout if there is one, and the connection was
  checked against the host name (the configured server name, or else the host of the target), unless the
  configuration says to skip that.
\<close>

theorem nh_dial_verified:
  assumes "nh_dial_conn ne cm t = (Inr p, t')" "km_scheme cm = ''nonhttps''"
  shows "\<exists>c n cfg n1. nh_dial ne ''tcp'' (km_first_hop (ne_idna ne) cm) (nh_net t) = (Inr c, n) \<and>
    ne_handshake ne c cfg n = ((np_conn (nh_store t' p), None), n1) \<and>
    (nh_handshake_timeout t \<noteq> 0 \<longrightarrow> ne_handshake_time ne c \<le> nh_handshake_timeout t) \<and>
    cl_insecure cfg = cl_insecure (clone_tls_config (nh_tls_config t)) \<and>
    cl_server_name cfg = (case cl_server_name (clone_tls_config (nh_tls_config t)) of [] \<Rightarrow> km_tls_host cm | h \<Rightarrow> h) \<and>
    (\<not> cl_insecure cfg \<longrightarrow> ne_verify_host ne (np_conn (nh_store t' p)) (cl_server_name cfg) = None)"
proof -
  let ?cfg0 = "clone_tls_config (nh_tls_config t)"
  define cfg where "cfg = (if cl_server_name ?cfg0 = [] then ?cfg0\<lparr>cl_server_name := km_tls_host cm\<rparr> else ?cfg0)"
  have name: "cl_insecure cfg = cl_insecure ?cfg0"
    "cl_server_name cfg = (case cl_server_name ?cfg0 of [] \<Rightarrow> km_tls_host cm | h \<Rightarrow> h)"
    by (auto simp: cfg_def split: list.split)
  obtain c n n1 where d: "nh_dial ne ''tcp'' (km_first_hop (ne_idna ne) cm) (nh_net t) = (Inr c, n)"
    and tls: "nh_start_tls ne t cm c n = (Inr (np_conn (nh_store t' p)), n1)"
    using assms by (auto simp: nh_dial_conn_def Let_def new_nh_conn_def split: prod.splits sum.splits)
  obtain x err n2 where h: "ne_handshake ne c cfg n = ((x, err), n2)" by (metis prod.collapse)
  have "x = np_conn (nh_store t' p) \<and> err = None \<and>
    (nh_handshake_timeout t \<noteq> 0 \<longrightarrow> ne_handshake_time ne c \<le> nh_handshake_timeout t) \<and>
    (\<not> cl_insecure cfg \<longrightarrow> ne_verify_host ne x (cl_server_name cfg) = None)"
    using tls h
    unfolding nh_start_tls_def Let_def cfg_def [symmetric]
    by (auto split: if_splits option.splits)
  with d h name show ?thesis by blast
qed

lemma nh_dial_conn_ok:
  assumes "nh_dial_conn ne cm t = (v, t')"
  shows "(case v of Inl e \<Rightarrow> nh_fresh t' = nh_fresh t
      | Inr p \<Rightarrow> p = nh_fresh t \<and> nh_fresh t' = nh_fresh t + 1 \<and> nh_close_ok p t' \<and> \<not> nh_is_reused p t')"
    and "nh_canceler t' = nh_canceler t" "nh_cancelc t' = nh_cancelc t"
  using assms
  by (auto simp: nh_dial_conn_def Let_def nh_close_ok_def conn_ok_def nh_is_reused_def new_nh_conn_def
      split: prod.splits sum.splits)

lemma cancels_while_dialling:
  assumes "nh_canceler t r = Some CancelDial"
  shows "fold (cancel_request_with r) es t = (case es of [] \<Rightarrow> t | e # _ \<Rightarrow>
     t\<lparr>nh_canceler := (nh_canceler t)(r := None), nh_cancelc := (nh_cancelc t)(r := nh_cancelc t r @ [e])\<rparr>)"
proof -
  have none: "nh_canceler u r = None \<Longrightarrow> fold (cancel_request_with r) es u = u" for es u
  proof (induction es)
    case (Cons e es)
    then have "(nh_canceler u)(r := None) = nh_canceler u" by (simp add: fun_upd_idem)
    with Cons show ?case by (simp add: cancel_request_with_def)
  qed simp
  show ?thesis
    by (cases es) (simp_all add: cancel_request_with_def assms nh_run_cancel_def none)
qed

lemma get_conn_cases:
  assumes "(res, t') \<in> set (nh_get_conn ne cm r w t)"
  obtains v t2 t3 pending where
    "nh_dial_conn ne cm (set_req_canceler r (Some CancelDial) (t\<lparr>nh_cancelc := (nh_cancelc t)(r := [])\<rparr>)) = (v, t2)"
    "t3 = fold (cancel_request_with r) (dr_cancels w) t2"
    "(res, pending) \<in> set (dial_select \<lparr>dw_dial = (if dr_dialled w then Some v else None), dw_cancel = dr_cancel w,
       dw_ctx = dr_ctx w, dw_cancelc = nh_cancelc t3 r\<rparr>)"
    "t' = (if pending then pending_dial v t3 else t3)"
proof -
  obtain v t2 where d:
    "nh_dial_conn ne cm (set_req_canceler r (Some CancelDial) (t\<lparr>nh_cancelc := (nh_cancelc t)(r := [])\<rparr>)) = (v, t2)"
    by fastforce
  show thesis
    using assms that [OF d refl] by (auto simp: nh_get_conn_def nh_get_idle_conn_def Let_def d)
qed

lemma waiting_state:
  assumes "nh_dial_conn ne cm (set_req_canceler r (Some CancelDial) (t\<lparr>nh_cancelc := (nh_cancelc t)(r := [])\<rparr>)) = (v, t2)"
    "t3 = fold (cancel_request_with r) es t2"
  shows "nh_store t3 = nh_store t2" "nh_net t3 = nh_net t2" "nh_fresh t3 = nh_fresh t2"
    "nh_cancelc t3 r = (case es of [] \<Rightarrow> [] | e # _ \<Rightarrow> [e])"
proof -
  have "nh_canceler t2 r = Some CancelDial" "nh_cancelc t2 r = []"
    using nh_dial_conn_ok(2,3) [OF assms(1)] by (simp_all add: set_req_canceler_def)
  from cancels_while_dialling [OF this(1)] this(2) assms(2) show
    "nh_store t3 = nh_store t2" "nh_net t3 = nh_net t2" "nh_fresh t3 = nh_fresh t2"
    "nh_cancelc t3 r = (case es of [] \<Rightarrow> [] | e # _ \<Rightarrow> [e])"
    by (auto split: list.split)
qed

lemma dial_select_error:
  "(Inl e, pending) \<in> set (dial_select w) \<Longrightarrow>
     pending \<and> e \<in> set (cancel_errors w) \<or>
     \<not> pending \<and> (\<exists>e0. dw_dial w = Some (Inl e0) \<and> e \<in> set (if cancel_errors w = [] then [e0] else cancel_errors w))"
  by (cases "dw_dial w"; cases "the (dw_dial w)") (auto simp: dial_select_def split: if_splits)

text \<open>A connection that \<open>dialConn\<close> returns is new, open, and made of the network connection that was dialled.\<close>

lemma nh_dial_conn_new:
  assumes "nh_dial_conn ne cm t = (Inr p, t')" "\<forall>c cfg n. conn_id (fst (fst (ne_handshake ne c cfg n))) = conn_id c"
  shows "\<exists>c n. nh_dial ne ''tcp'' (km_first_hop (ne_idna ne) cm) (nh_net t) = (Inr c, n) \<and>
    conn_id (np_conn (nh_store t' p)) = conn_id c \<and> np_closed (nh_store t' p) = None"
proof -
  have same: "conn_id x = conn_id c" if "nh_start_tls ne t cm c n = (Inr x, n1)" for c n x n1
    using that spec [OF spec [OF spec [OF assms(2), of c]], of _ n]
    by (auto simp: nh_start_tls_def Let_def split: prod.splits if_splits option.splits) (metis fst_conv)+
  show ?thesis
    using assms(1) same by (auto simp: nh_dial_conn_def Let_def new_nh_conn_def split: prod.splits sum.splits if_splits)
qed

text \<open>
  C28. Nothing that \<open>getConn\<close> dials is lost. When it gives up, because the request was cancelled in one of the three
  ways or because the dial failed at any point (before, in or after the handshake), the network connection that was
  dialled, if there was one, ends up closed, and so does every connection that was made of it. When it succeeds, the
  connection it returns is the only one that was made, belongs to the network connection that was dialled, and has not been
  closed. The TLS library is relied on for one thing: what the handshake returns is a connection over the one it was given.
\<close>

theorem get_conn_no_leak:
  assumes "(res, t') \<in> set (nh_get_conn ne cm r w t)"
    and tls_over_plain: "\<forall>c cfg n. conn_id (fst (fst (ne_handshake ne c cfg n))) = conn_id c"
  shows "case res of
      Inl e \<Rightarrow> (\<forall>c n. nh_dial ne ''tcp'' (km_first_hop (ne_idna ne) cm) (nh_net t) = (Inr c, n) \<longrightarrow>
          tc_closed (conn_of c (nh_net t'))) \<and>
        (\<forall>p. nh_fresh t \<le> p \<longrightarrow> p < nh_fresh t' \<longrightarrow> nh_down p t')
    | Inr p \<Rightarrow> p = nh_fresh t \<and> nh_fresh t' = nh_fresh t + 1 \<and> np_closed (nh_store t' p) = None \<and>
        (\<exists>c n. nh_dial ne ''tcp'' (km_first_hop (ne_idna ne) cm) (nh_net t) = (Inr c, n) \<and>
           conn_id (np_conn (nh_store t' p)) = conn_id c)"
proof -
  let ?t1 = "set_req_canceler r (Some CancelDial) (t\<lparr>nh_cancelc := (nh_cancelc t)(r := [])\<rparr>)"
  from get_conn_cases [OF assms(1)] obtain v t2 t3 pending where d:
    "nh_dial_conn ne cm ?t1 = (v, t2)" "t3 = fold (cancel_request_with r) (dr_cancels w) t2"
    and sel: "(res, pending) \<in> set (dial_select \<lparr>dw_dial = (if dr_dialled w then Some v else None),
       dw_cancel = dr_cancel w, dw_ctx = dr_ctx w, dw_cancelc = nh_cancelc t3 r\<rparr>)"
    and t': "t' = (if pending then pending_dial v t3 else t3)" by blast
  note same = waiting_state [OF d]
  have t1: "nh_net ?t1 = nh_net t" "nh_fresh ?t1 = nh_fresh t" by (simp_all add: set_req_canceler_def)
  show ?thesis
  proof (cases v)
    case (Inl e0)
    then obtain e where e: "res = Inl e" using sel by (cases res) (auto simp: dial_select_def split: if_splits)
    have "t' = t3" "nh_fresh t' = nh_fresh t"
      using nh_dial_conn_ok(1) [OF d(1)] same(3) t' t1 Inl by (auto simp: pending_dial_def)
    moreover have "tc_closed (conn_of c (nh_net t3))"
      if "nh_dial ne ''tcp'' (km_first_hop (ne_idna ne) cm) (nh_net t) = (Inr c, n)" for c n
      using nh_dial_no_leak [of ne cm ?t1 c n e0 t2] that d(1) Inl same(2) t1 by simp
    ultimately show ?thesis using e by auto
  next
    case (Inr q)
    have q: "q = nh_fresh t" "nh_fresh t3 = nh_fresh t + 1" "nh_close_ok q t3"
      using nh_dial_conn_ok(1) [OF d(1)] same Inr t1 by (auto simp: nh_close_ok_def)
    obtain c n where c: "nh_dial ne ''tcp'' (km_first_hop (ne_idna ne) cm) (nh_net t) = (Inr c, n)"
      "conn_id (np_conn (nh_store t3 q)) = conn_id c" "np_closed (nh_store t3 q) = None"
      using nh_dial_conn_new [of ne cm ?t1 q t2] d(1) Inr assms(2) same(1) t1 by auto
    show ?thesis
    proof (cases res)
      case (Inl e)
      with sel Inr have "pending" by (auto dest: dial_select_error split: if_splits)
      with Inr t' have t'': "t' = nh_close q NhKeepAlivesDisabled t3"
        by (simp add: pending_dial_def put_or_close_closes)
      then have down: "nh_down q t'" using q(3) by (simp add: nh_close_down)
      then have "tc_closed (conn_of c (nh_net t'))" using c(2) t'' by (simp add: nh_down_def conn_of_def)
      moreover have "p = q" if "nh_fresh t \<le> p" "p < nh_fresh t'" for p using that q t'' by simp
      ultimately show ?thesis using c(1) down Inl by auto
    next
      fix p assume p: "res = Inr p"
      then have "p = q" "\<not> pending" using sel Inr by (auto simp: dial_select_def split: if_splits sum.splits)
      then show ?thesis using p q(1,2) c t' by auto
    qed
  qed
qed

text \<open>
  Once \<open>cancelRequest\<close> was called with an error while \<open>getConn\<close> waited, an error that it
  returns is never that of the dial: it is the error of a cancellation.
\<close>

theorem cancel_wins_over_dial:
  assumes "(Inl e, t') \<in> set (nh_get_conn ne cm r w t)" "dr_cancels w = ec # es"
  shows "e = conn_cancel_error ec \<or> e = NhRequestCanceledConn \<and> dr_cancel w \<or> dr_ctx w = Some e"
proof -
  from get_conn_cases [OF assms(1)] obtain v t2 t3 pending where d:
    "nh_dial_conn ne cm (set_req_canceler r (Some CancelDial) (t\<lparr>nh_cancelc := (nh_cancelc t)(r := [])\<rparr>)) = (v, t2)"
    "t3 = fold (cancel_request_with r) (dr_cancels w) t2"
    and sel: "(Inl e, pending) \<in> set (dial_select \<lparr>dw_dial = (if dr_dialled w then Some v else None),
       dw_cancel = dr_cancel w, dw_ctx = dr_ctx w, dw_cancelc = nh_cancelc t3 r\<rparr>)"
    and "t' = (if pending then pending_dial v t3 else t3)" by blast
  have c: "nh_cancelc t3 r = [ec]" using waiting_state(4) [OF d] assms(2) by simp
  let ?w = "\<lparr>dw_dial = (if dr_dialled w then Some v else None), dw_cancel = dr_cancel w,
     dw_ctx = dr_ctx w, dw_cancelc = nh_cancelc t3 r\<rparr>"
  have "cancel_errors ?w \<noteq> []" using c by (simp add: cancel_errors_def)
  with dial_select_error [OF sel] have "e \<in> set (cancel_errors ?w)" by auto
  then show ?thesis using c by (cases "dr_cancel w"; cases "dr_ctx w") (auto simp: cancel_errors_def)
qed

section \<open>Examples\<close>

text \<open>A network that makes every connection, where only the host \<open>a.org\<close> has a valid certificate.\<close>

definition example_ne :: nh_env where
  "example_ne = \<lparr>ne_dial = Some (\<lambda>nw a n. (Inr (TcpRef 3), n)), ne_zero_dial = (\<lambda>nw a n. (Inl ErrEOF, n)),
     ne_handshake = (\<lambda>c cfg n. ((c, None), n)), ne_handshake_time = (\<lambda>c. 5),
     ne_verify_host = (\<lambda>c h. if h = ''a.org'' then None else Some (ErrText ''x509: wrong host'')),
     ne_idna = Inr\<rparr>"

definition empty_net :: net where
  "empty_net = \<lparr>nt_conns = (\<lambda>_. fresh_conn), nt_events = []\<rparr>"

definition nh_zero :: nh_state where
  "nh_zero = \<lparr>nh_tls_config = Some \<lparr>cl_server_name = [], cl_insecure = False\<rparr>, nh_handshake_timeout = 10,
     nh_max_header = 0, nh_continue_timeout = 0, nh_header_timeout = 0, nh_canceler = Map.empty,
     nh_cancelc = (\<lambda>_. []), nh_lru = lru_zero, nh_idle = Map.empty,
     nh_store = (\<lambda>_. new_nh_conn \<lparr>kk_proxy = [], kk_scheme = [], kk_addr = []\<rparr> (TcpRef 0) False),
     nh_fresh = 0, nh_net = empty_net\<rparr>"

definition example_km :: "string \<Rightarrow> conn_method" where
  "example_km addr = \<lparr>km_proxy = None, km_scheme = ''nonhttps'', km_addr = addr\<rparr>"

lemma example_hosts:
  "nh_cut_port ''a.org:443'' = ''a.org''" "nh_cut_port ''b.org:443'' = ''b.org''"
  by code_simp+

lemma example_dial_fails:
  "fst (nh_dial_conn example_ne (example_km ''b.org:443'') nh_zero) = Inl (NhOther (ErrText ''x509: wrong host''))"
  by (simp add: nh_dial_conn_def nh_dial_def example_ne_def example_km_def km_first_hop_def nh_start_tls_def
      clone_tls_config_def nh_zero_def km_tls_host_def example_hosts Let_def)

theorem nh_dial_no_leak_witness:
  "tc_closed (conn_of (TcpRef 3) (nh_net (snd (nh_dial_conn example_ne (example_km ''b.org:443'') nh_zero))))"
  by (rule nh_dial_no_leak [where n = empty_net, OF _ prod_eqI])
    (simp_all add: example_dial_fails, simp add: nh_dial_def example_ne_def nh_zero_def)

lemma example_dial_conn:
  "fst (nh_dial_conn example_ne (example_km ''a.org:443'') nh_zero) = Inr 0"
  by (simp add: nh_dial_conn_def nh_dial_def example_ne_def example_km_def km_first_hop_def nh_start_tls_def
      clone_tls_config_def nh_zero_def km_tls_host_def example_hosts Let_def)

theorem nh_dial_verified_witness:
  "ne_verify_host example_ne
     (np_conn (nh_store (snd (nh_dial_conn example_ne (example_km ''a.org:443'') nh_zero)) 0)) ''a.org'' = None \<and>
   (\<exists>c. ne_handshake_time example_ne c \<le> 10)"
proof -
  let ?t = "snd (nh_dial_conn example_ne (example_km ''a.org:443'') nh_zero)"
  have d: "nh_dial_conn example_ne (example_km ''a.org:443'') nh_zero = (Inr 0, ?t)"
    using example_dial_conn by (simp add: prod_eq_iff)
  have s: "km_scheme (example_km ''a.org:443'') = ''nonhttps''" by (simp add: example_km_def)
  have f: "cl_server_name (clone_tls_config (nh_tls_config nh_zero)) = []" "\<not> cl_insecure (clone_tls_config (nh_tls_config nh_zero))"
    "nh_handshake_timeout nh_zero = 10" "km_tls_host (example_km ''a.org:443'') = ''a.org''"
    by (simp_all add: nh_zero_def clone_tls_config_def km_tls_host_def example_km_def example_hosts)
  show ?thesis using nh_dial_verified [OF d s] by (auto simp: f)
qed

text \<open>The request is cancelled while the dial, which will succeed, is under way.\<close>

definition cancelled_race :: dial_race where
  "cancelled_race = \<lparr>dr_dialled = False, dr_cancel = False, dr_ctx = None, dr_cancels = [NhRequestCanceled]\<rparr>"

definition given_up :: nh_state where
  "given_up = snd (hd (nh_get_conn example_ne (example_km ''a.org:443'') 4 cancelled_race nh_zero))"

lemma given_up_is:
  "nh_get_conn example_ne (example_km ''a.org:443'') 4 cancelled_race nh_zero = [(Inl NhRequestCanceledConn, given_up)]"
  "nh_fresh given_up = 1"
  by (simp_all add: given_up_def nh_get_conn_def nh_get_idle_conn_def set_req_canceler_def nh_dial_conn_def nh_dial_def
      example_ne_def example_km_def km_first_hop_def nh_start_tls_def clone_tls_config_def nh_zero_def km_tls_host_def
      example_hosts Let_def cancelled_race_def cancel_request_with_def nh_run_cancel_def dial_select_def
      cancel_errors_def conn_cancel_error_def pending_dial_def put_or_close_closes)

theorem get_conn_no_leak_witness: "nh_down 0 given_up \<and> tc_closed (conn_of (TcpRef 3) (nh_net given_up))"
proof -
  have g: "(Inl NhRequestCanceledConn, given_up) \<in> set (nh_get_conn example_ne (example_km ''a.org:443'') 4 cancelled_race nh_zero)"
    by (simp add: given_up_is)
  have h: "\<forall>c cfg n. conn_id (fst (fst (ne_handshake example_ne c cfg n))) = conn_id c" by (simp add: example_ne_def)
  have d: "nh_dial example_ne nw a n = (Inr (TcpRef 3), n)" for nw a n by (simp add: nh_dial_def example_ne_def)
  have f: "nh_fresh nh_zero = 0" by (simp add: nh_zero_def)
  show ?thesis using get_conn_no_leak [OF g h] by (simp add: d f given_up_is(2))
qed

theorem cancel_wins_over_dial_witness:
  "NhRequestCanceledConn = conn_cancel_error NhRequestCanceled \<or>
   NhRequestCanceledConn = NhRequestCanceledConn \<and> dr_cancel cancelled_race \<or>
   dr_ctx cancelled_race = Some NhRequestCanceledConn"
  by (rule cancel_wins_over_dial [of _ given_up example_ne "example_km ''a.org:443''" 4 cancelled_race nh_zero _ "[]"])
    (simp_all add: given_up_is, simp add: cancelled_race_def)

section \<open>The idle connections\<close>

text \<open>The list of a key is never empty, and the lists hold exactly what the cache holds, each once.\<close>

definition idle_ok :: "nh_state \<Rightarrow> bool" where
  "idle_ok t \<longleftrightarrow> lru_ok (nh_lru t) \<and>
     (\<forall>k ps. nh_idle t k = Some ps \<longrightarrow> ps \<noteq> [] \<and> distinct ps \<and>
        (\<forall>p \<in> set ps. np_key (nh_store t p) = k \<and> lru_member p (nh_lru t))) \<and>
     (\<forall>p. lru_member p (nh_lru t) \<longrightarrow> (\<exists>ps. nh_idle t (np_key (nh_store t p)) = Some ps \<and> p \<in> set ps))"

lemma remove_idle_locked_idle:
  assumes "idle_ok t"
  shows "nh_idle (nh_remove_idle_locked p t) = (case nh_idle t (np_key (nh_store t p)) of
     None \<Rightarrow> nh_idle t
   | Some ps \<Rightarrow> (if p \<notin> set ps then nh_idle t
       else (nh_idle t)(np_key (nh_store t p) := (if remove1 p ps = [] then None else Some (remove1 p ps)))))"
    and "nh_lru (nh_remove_idle_locked p t) = lru_remove p (nh_lru t)"
    and "np_key (nh_store (nh_remove_idle_locked p t) q) = np_key (nh_store t q)"
  by (auto simp: nh_remove_idle_locked_def Let_def remove1_idem split: option.split list.split)

text \<open>
  Taking a connection out of the idle ones keeps the lists and the cache in agreement, and
  takes out this connection and no other.
\<close>

theorem remove_idle_agrees:
  assumes "idle_ok t"
  shows "idle_ok (nh_remove_idle_locked p t) \<and>
    (\<forall>q. lru_member q (nh_lru (nh_remove_idle_locked p t)) \<longleftrightarrow> q \<noteq> p \<and> lru_member q (nh_lru t))"
proof -
  let ?u = "nh_remove_idle_locked p t" let ?k = "np_key (nh_store t p)"
  have lru: "lru_ok (nh_lru t)" using assms by (simp add: idle_ok_def)
  note u = remove_idle_locked_idle [OF assms, of p]
  have mem: "lru_member q (nh_lru ?u) \<longleftrightarrow> q \<noteq> p \<and> lru_member q (nh_lru t)" for q
    by (simp add: u conn_cache.rem_member [OF lru])
  have good: "nh_idle t k = Some ps \<Longrightarrow> ps \<noteq> [] \<and> distinct ps \<and>
      (\<forall>q \<in> set ps. np_key (nh_store t q) = k \<and> lru_member q (nh_lru t))" for k ps
    using assms by (simp add: idle_ok_def)
  have listed0: "lru_member q (nh_lru t) \<Longrightarrow>
      \<exists>ps. nh_idle t (np_key (nh_store t q)) = Some ps \<and> q \<in> set ps" for q
    using assms by (simp add: idle_ok_def)
  have lists: "qs \<noteq> [] \<and> distinct qs \<and>
      (\<forall>q \<in> set qs. np_key (nh_store t q) = k \<and> lru_member q (nh_lru t) \<and> q \<noteq> p)"
    if k: "nh_idle ?u k = Some qs" for k qs
  proof (cases "k = ?k \<and> (\<exists>ps. nh_idle t ?k = Some ps \<and> p \<in> set ps)")
    case True
    then obtain ps where ps: "nh_idle t ?k = Some ps" "p \<in> set ps" by blast
    with k True have "qs = remove1 p ps" "qs \<noteq> []" by (auto simp: u split: if_splits)
    with good [OF ps(1)] True show ?thesis by auto
  next
    case False
    with k have "nh_idle t k = Some qs" by (auto simp: u split: option.splits if_splits)
    with good [OF this] False show ?thesis by auto
  qed
  have listed: "\<exists>ps. nh_idle ?u (np_key (nh_store t q)) = Some ps \<and> q \<in> set ps"
    if q: "lru_member q (nh_lru t)" "q \<noteq> p" for q
  proof -
    obtain ps where ps: "nh_idle t (np_key (nh_store t q)) = Some ps" "q \<in> set ps"
      using listed0 [OF q(1)] by blast
    with q(2) have "q \<in> set (remove1 p ps)" by (simp add: in_set_remove1)
    with ps show ?thesis by (cases "np_key (nh_store t q) = ?k") (auto simp: u split: option.split)
  qed
  show ?thesis
    using lists listed mem conn_cache.rem_good [OF lru] u(2,3) by (simp add: idle_ok_def)
qed

text \<open>Two idle connections of one key, of which the older one is taken out.\<close>

definition two_idle :: nh_state where
  "two_idle = nh_zero\<lparr>nh_lru := snd (lru_add 6 (snd (lru_add 5 lru_zero))),
     nh_idle := [np_key (nh_store nh_zero 5) \<mapsto> [5, 6]]\<rparr>"

lemma two_idle_ok: "idle_ok two_idle"
  by (auto simp: two_idle_def idle_ok_def nh_zero_def lru_ok_def lru_member_def lru_items_def lru_add_def lru_zero_def
      list_new_def list_push_front_def ret_def new_nh_conn_def split: if_splits)

theorem remove_idle_agrees_witness:
  "idle_ok (nh_remove_idle_locked 5 two_idle) \<and>
   (\<forall>q. lru_member q (nh_lru (nh_remove_idle_locked 5 two_idle)) \<longleftrightarrow> q \<noteq> 5 \<and> lru_member q (nh_lru two_idle))"
  by (rule remove_idle_agrees [OF two_idle_ok])

end
