(* ===== verification/Nonhttp_Exchange.thy ===== *)
theory Nonhttp_Exchange
  imports Nonhttp_Dial
begin

text \<open>
  \<open>nonhttproundtripper.go\<close>, third part: one exchange on a connection. Four goroutines share it: the
  caller in \<open>roundTrip\<close>, \<open>writeLoop\<close>, \<open>readLoop\<close>, and whoever reads the body of the response. Each has
  a program counter whose values are the points where another goroutine may get in between: before a
  \<open>select\<close>, a channel operation, a call that blocks or that takes the lock. A step function gives the list
  of the successor states, one for each case of a \<open>select\<close> that is ready, and the empty list where the
  goroutine is blocked. A connection serves one exchange, because it never enters the pool.
\<close>

section \<open>The state\<close>

text \<open>What the server sends, as \<open>conn.Read\<close> will return it: data, or an error (which then stays).\<close>

datatype incoming = InData string | InFail goerr

datatype pool_next = ThenSend http_response | ThenEof bool

datatype reader_pc =
    RdPeek | RdPeeked "nh_error option" | RdTake "nh_error option"
  | RdRead request_and_chan bool
  | RdFail nh_error
  | RdNoBody request_and_chan http_response | RdPool pool_next | RdSend http_response
  | RdSendBody request_and_chan http_response | RdBody request_and_chan | RdEof
  | RdNext | RdExit | RdClose | RdDone

datatype writer_pc =
    WrSelect | WrWrite write_job int | WrFlush write_job int "nh_error option"
  | WrTell "nh_error option" | WrReport "nh_error option" | WrClose nh_error | WrDone

text \<open>\<open>ClMap\<close> is the call of \<open>mapRoundTripError\<close>, which may wait for the writer to end.\<close>

datatype caller_pc =
    ClStart | ClWrite | ClReq | ClSelect | ClMap "nh_error option"
  | ClPanic string | ClDone "nh_error option + http_response"

datatype body_pc = BoNone | BoOpen | BoEof

record body_signal =
  bs_closed :: bool
  bs_rerr :: "nh_error option"
  bs_fn :: bool
  bs_early :: bool

record response_and_error =
  re_res :: "http_response option"
  re_err :: "nh_error option"

record nx =
  nx_t :: nh_state
  nx_p :: nat
  nx_tq :: transport_request
  nx_start :: int
  nx_cancel :: bool
  nx_ctx :: "nh_error option"
  nx_in :: "incoming list"
  nx_werr :: "nh_error option list"
  nx_gone :: bool
  nx_timer :: bool
  nx_watch_cancel :: bool
  nx_watch_ctx :: bool
  nx_caller :: caller_pc
  nx_writer :: writer_pc
  nx_reader :: reader_pc
  nx_alive :: bool
  nx_close_err :: nh_error
  nx_eofc :: bool
  nx_wait :: "bool list"
  nx_body :: body_signal
  nx_bpc :: body_pc
  nx_body_res :: "nh_error option"

text \<open>
  Of the outside: the text \<open>Request.Write\<close> produces and the error of its own it ends with, and
  \<open>http.ReadResponse\<close> on the bytes that have arrived: it needs more, fails, or takes so many of them.
\<close>

datatype parsed = PMore | PError goerr | PResponse http_response nat

record nx_env =
  xe_request_text :: "http_request \<Rightarrow> string \<times> goerr option"
  xe_parse :: "http_request \<Rightarrow> string \<Rightarrow> parsed"

abbreviation nx_conn :: "nx \<Rightarrow> nh_conn" where
  "nx_conn s \<equiv> nh_store (nx_t s) (nx_p s)"

abbreviation nx_id :: "nx \<Rightarrow> nat" where
  "nx_id s \<equiv> hq_id (tq_request (nx_tq s))"

definition on_cn :: "(nh_conn \<Rightarrow> nh_conn) \<Rightarrow> nx \<Rightarrow> nx" where
  "on_cn f s = s\<lparr>nx_t := upd_conn (nx_p s) f (nx_t s)\<rparr>"

definition on_tr :: "(nh_state \<Rightarrow> nh_state) \<Rightarrow> nx \<Rightarrow> nx" where
  "on_tr f s = s\<lparr>nx_t := f (nx_t s)\<rparr>"

text \<open>
  \<open>continueCh\<close> is nil in every exchange, so nothing waits for it; the function that would wait returns
  whether to send the body: for each of its cases that is ready.
\<close>

definition wait_for_continue :: "bool list option \<Rightarrow> bool \<Rightarrow> bool \<Rightarrow> bool list" where
  "wait_for_continue continue_ch timer_fired closech =
     (case continue_ch of None \<Rightarrow> [] | Some [] \<Rightarrow> [] | Some (ok # _) \<Rightarrow> [ok]) @
     (if timer_fired then [True] else []) @ (if closech then [False] else [])"

section \<open>Reading from the connection\<close>

text \<open>\<open>persistConn.Read\<close> of at most \<open>k\<close> bytes; \<open>None\<close> while \<open>conn.Read\<close> blocks.\<close>

definition nx_closed_conn :: "nx \<Rightarrow> bool" where
  "nx_closed_conn s \<longleftrightarrow> tc_closed (conn_of (np_conn (nx_conn s)) (nh_net (nx_t s)))"

definition pc_read :: "nat \<Rightarrow> nx \<Rightarrow> ((string \<times> nh_error option) \<times> nx) option" where
  "pc_read k s =
     (let lim = np_read_limit (nx_conn s) in
      if lim \<le> 0 then
        Some (([], Some (nh_text (''read limit of '' @ itoa (nh_max_header_size (nx_t s)) @ '' bytes exhausted''))), s)
      else
        let m = (if int k > lim then nat lim else k) in
        if nx_closed_conn s then Some (([], Some (NhOther ErrNetClosed)), s)
        else case nx_in s of
          [] \<Rightarrow> None
        | InFail e # r \<Rightarrow>
            Some (([], Some (NhOther e)), if e = ErrEOF then on_cn (np_saw_eof_update (\<lambda>_. True)) s else s)
        | InData d # r \<Rightarrow>
            Some ((take m d, None),
              on_cn (np_read_limit_update (\<lambda>l. l - int (length (take m d))))
                (s\<lparr>nx_in := (if length d \<le> m then r else InData (drop m d) # r)\<rparr>)))"

section \<open>Writing to the connection\<close>

text \<open>\<open>persistConnWriter.Write\<close>, and the \<open>bufio.Writer\<close> of 4096 bytes above it, whose first error stays.\<close>

definition pcw_write :: "string \<Rightarrow> nx \<Rightarrow> write_res \<times> nx" where
  "pcw_write d s = (case conn_write (np_conn (nx_conn s)) d (nh_net (nx_t s)) of
     ((n, e), net) \<Rightarrow> ((n, e), on_cn (np_nwrite_update (\<lambda>k. k + int n)) (on_tr (nh_net_update (\<lambda>_. net)) s)))"

definition bw_send :: "string \<Rightarrow> string \<Rightarrow> nx \<Rightarrow> goerr option \<times> nx" where
  "bw_send d rest s = (case pcw_write d s of ((n, e), s1) \<Rightarrow>
     (case (if e = None \<and> n < length d then Some ErrShortWrite else e) of
        None \<Rightarrow> (None, on_cn (np_wbuf_update (\<lambda>_. rest)) s1)
      | Some g \<Rightarrow> (Some g, on_cn (\<lambda>c. c\<lparr>np_wbuf := drop n d @ rest, np_werr := Some g\<rparr>) s1)))"

definition bw_write :: "string \<Rightarrow> nx \<Rightarrow> goerr option \<times> nx" where
  "bw_write txt s =
     (let data = np_wbuf (nx_conn s) @ txt; k = (length data - 1) div 4096 * 4096 in
      if np_werr (nx_conn s) \<noteq> None then (np_werr (nx_conn s), s)
      else if k = 0 then (None, on_cn (np_wbuf_update (\<lambda>_. data)) s)
      else bw_send (take k data) (drop k data) s)"

definition bw_flush :: "nx \<Rightarrow> goerr option \<times> nx" where
  "bw_flush s =
     (if np_werr (nx_conn s) \<noteq> None then (np_werr (nx_conn s), s)
      else if np_wbuf (nx_conn s) = [] then (None, s)
      else bw_send (np_wbuf (nx_conn s)) [] s)"

text \<open>
  \<open>writerequest\<close>: \<open>pc.bw\<close> is an \<open>io.ByteWriter\<close>, so it is used as it is. The bytes that were sniffed,
  \<open>originalrequest\<close>, are only printed.
\<close>

definition nh_write_request :: "nx_env \<Rightarrow> http_request \<Rightarrow> ctx_value \<Rightarrow> nx \<Rightarrow> goerr option \<times> nx" where
  "nh_write_request xe rq originalrequest s =
     (case xe_request_text xe rq of (txt, e0) \<Rightarrow>
       (case bw_write txt s of
          (Some e, s1) \<Rightarrow> (Some e, s1)
        | (None, s1) \<Rightarrow> (case e0 of Some e \<Rightarrow> (Some e, s1) | None \<Rightarrow> bw_flush s1)))"

section \<open>The writer\<close>

text \<open>The error of the writing as \<open>writeLoop\<close> sees it before \<open>Flush\<close>; a body that could not be read is noted first.\<close>

definition note_body_error :: "nh_error option \<Rightarrow> nx \<Rightarrow> nh_error option \<times> nx" where
  "note_body_error err s = (case err of
     Some (NhBodyReadError e) \<Rightarrow> (Some e, s\<lparr>nx_tq := set_error e (nx_tq s)\<rparr>)
   | _ \<Rightarrow> (err, s))"

definition writer_write :: "nx_env \<Rightarrow> write_job \<Rightarrow> int \<Rightarrow> nx \<Rightarrow> nx" where
  "writer_write xe j start s =
     (case nh_write_request xe (hq_http (tq_request (wj_req j))) (hq_original (tq_request (wj_req j))) s of (e, s1) \<Rightarrow>
       (case note_body_error (map_option NhOther e) s1 of (err, s2) \<Rightarrow> s2\<lparr>nx_writer := WrFlush j start err\<rparr>))"

definition writer_flush :: "write_job \<Rightarrow> int \<Rightarrow> nh_error option \<Rightarrow> nx \<Rightarrow> nx" where
  "writer_flush j start err s =
     (case (if err = None then (case bw_flush s of (e, s1) \<Rightarrow> (map_option NhOther e, s1)) else (err, s)) of
        (None, s1) \<Rightarrow> s1\<lparr>nx_writer := WrTell None\<rparr>
      | (Some e, s1) \<Rightarrow>
          s1\<lparr>nx_writer := WrTell (Some (if np_nwrite (nx_conn s1) = start then NhNothingWritten e else e))\<rparr>)"

definition writer_done :: "nx \<Rightarrow> nx" where
  "writer_done s = on_cn (np_write_done_update (\<lambda>_. True)) (s\<lparr>nx_writer := WrDone\<rparr>)"

text \<open>\<open>writeLoop\<close>; the channels it reports to hold one value each.\<close>

definition writer_steps :: "nx_env \<Rightarrow> nx \<Rightarrow> nx list" where
  "writer_steps xe s = (case nx_writer s of
     WrSelect \<Rightarrow>
       (case np_writech (nx_conn s) of
          [] \<Rightarrow> []
        | j # js \<Rightarrow> [on_cn (np_writech_update (\<lambda>_. js)) (s\<lparr>nx_writer := WrWrite j (np_nwrite (nx_conn s))\<rparr>)]) @
       (if np_closech (nx_conn s) then [writer_done s] else [])
   | WrWrite j start \<Rightarrow> [writer_write xe j start s]
   | WrFlush j start err \<Rightarrow> [writer_flush j start err s]
   | WrTell err \<Rightarrow>
       (if np_write_err (nx_conn s) = []
        then [on_cn (np_write_err_update (\<lambda>_. [err])) (s\<lparr>nx_writer := WrReport err\<rparr>)] else [])
   | WrReport err \<Rightarrow>
       (if nx_werr s = []
        then [s\<lparr>nx_werr := [err], nx_writer := (case err of None \<Rightarrow> WrSelect | Some e \<Rightarrow> WrClose e)\<rparr>] else [])
   | WrClose e \<Rightarrow> [writer_done (on_tr (nh_close (nx_p s) e) s)]
   | WrDone \<Rightarrow> [])"

section \<open>The caller\<close>

text \<open>\<open>mapRoundTripError\<close>; \<open>None\<close> while it waits for the writer to end.\<close>

definition map_round_trip_error :: "nh_error option \<Rightarrow> nx \<Rightarrow> nh_error option option" where
  "map_round_trip_error err s = (case err of
     None \<Rightarrow> Some None
   | Some e \<Rightarrow>
      (case nh_canceled (nx_p s) (nx_t s) of
         Some c \<Rightarrow> Some (Some c)
       | None \<Rightarrow>
          (case tq_err (nx_tq s) of
             Some c \<Rightarrow> Some (Some c)
           | None \<Rightarrow>
              (if e = NhServerClosedIdle then Some (Some e)
               else case e of
                 NhReadFromServer _ \<Rightarrow> Some (Some e)
               | _ \<Rightarrow>
                  (if nh_is_broken (nx_p s) (nx_t s) then
                     (if \<not> np_write_done (nx_conn s) then None
                      else if np_nwrite (nx_conn s) = nx_start s then Some (Some (NhNothingWritten e))
                      else Some (Some (nh_text (''net/http: HTTP/1.x transport connection broken: '' @ nh_error_text e))))
                   else Some (Some e))))))"

text \<open>The two ways \<open>roundTrip\<close> returns, with what it deferred.\<close>

definition caller_fails :: "nh_error option \<Rightarrow> nx \<Rightarrow> nx" where
  "caller_fails e s = (if e = None then s else on_tr (set_req_canceler (nx_id s) None) s)
     \<lparr>nx_gone := True, nx_caller := ClDone (Inl e)\<rparr>"

definition caller_gets :: "response_and_error \<Rightarrow> nx \<Rightarrow> nx" where
  "caller_gets re s =
     (if (re_res re = None) = (re_err re = None)
      then s\<lparr>nx_caller := ClPanic ''internal error: exactly one of res or err should be set''\<rparr>
      else case re_err re of
        Some e \<Rightarrow> s\<lparr>nx_caller := ClMap (Some e)\<rparr>
      | None \<Rightarrow> s\<lparr>nx_gone := True, nx_caller := ClDone (Inr (the (re_res re)))\<rparr>)"

text \<open>The cases of the \<open>select\<close>; the one for a response is part of the reader's send.\<close>

definition select_write_err :: "nx \<Rightarrow> nx list" where
  "select_write_err s = (case nx_werr s of
     [] \<Rightarrow> []
   | Some e # es \<Rightarrow> [on_tr (nh_close (nx_p s) (nh_text (''write error: '' @ nh_error_text e)))
       (s\<lparr>nx_werr := es, nx_caller := ClMap (Some e)\<rparr>)]
   | None # es \<Rightarrow> [s\<lparr>nx_werr := es, nx_timer := (nx_timer s \<or> nh_header_timeout (nx_t s) > 0)\<rparr>])"

definition select_closed :: "nx \<Rightarrow> nx list" where
  "select_closed s = (if np_closech (nx_conn s) then [s\<lparr>nx_caller := ClMap (np_closed (nx_conn s))\<rparr>] else [])"

definition select_timer :: "nx \<Rightarrow> nx list" where
  "select_timer s =
     (if nx_timer s then [caller_fails (Some NhTimeout) (on_tr (nh_close (nx_p s) NhTimeout) s)] else [])"

definition select_cancel :: "nx \<Rightarrow> nx list" where
  "select_cancel s =
     (if nx_watch_cancel s \<and> nx_cancel s
      then [on_tr (cancel_request (nx_id s)) (s\<lparr>nx_watch_cancel := False\<rparr>)] else [])"

definition select_ctx :: "nx \<Rightarrow> nx list" where
  "select_ctx s = (case nx_ctx s of
     None \<Rightarrow> []
   | Some e \<Rightarrow>
       if nx_watch_ctx s
       then [on_tr (cancel_request_with (nx_id s) e) (s\<lparr>nx_watch_cancel := False, nx_watch_ctx := False\<rparr>)] else [])"

definition caller_select :: "nx \<Rightarrow> nx list" where
  "caller_select s = select_write_err s @ select_closed s @ select_timer s @ select_cancel s @ select_ctx s"

text \<open>\<open>roundTrip\<close>; a send to a channel that is full blocks.\<close>

definition caller_steps :: "nx \<Rightarrow> nx list" where
  "caller_steps s = (case nx_caller s of
     ClStart \<Rightarrow>
       (case replace_req_canceler (nx_id s) (Some (CancelConn (nx_p s))) (nx_t s) of
          (False, t) \<Rightarrow> [s\<lparr>nx_t := nh_put_or_close (nx_p s) t, nx_caller := ClDone (Inl (Some NhRequestCanceled))\<rparr>]
        | (True, t) \<Rightarrow> [on_cn (np_expected_update (\<lambda>n. n + 1)) (s\<lparr>nx_t := t, nx_caller := ClWrite\<rparr>)])
   | ClWrite \<Rightarrow>
       (if np_writech (nx_conn s) = []
        then [on_cn (np_writech_update (\<lambda>_. [\<lparr>wj_req = nx_tq s, wj_continue = False\<rparr>]))
               (s\<lparr>nx_start := np_nwrite (nx_conn s), nx_caller := ClReq\<rparr>)] else [])
   | ClReq \<Rightarrow>
       (if np_reqch (nx_conn s) = []
        then [on_cn (np_reqch_update (\<lambda>_. [\<lparr>rc_req = tq_request (nx_tq s), rc_gzip = False, rc_continue = False\<rparr>]))
               (s\<lparr>nx_caller := ClSelect, nx_watch_cancel := True, nx_watch_ctx := True\<rparr>)] else [])
   | ClSelect \<Rightarrow> caller_select s
   | ClMap err \<Rightarrow> (case map_round_trip_error err s of None \<Rightarrow> [] | Some e \<Rightarrow> [caller_fails e s])
   | ClPanic m \<Rightarrow> []
   | ClDone r \<Rightarrow> [])"

section \<open>The reader\<close>

text \<open>\<open>Peek(1)\<close>: a read of the buffer's size when the buffer is empty.\<close>

definition reader_peek :: "nx \<Rightarrow> nx list" where
  "reader_peek s0 =
     (let s = on_cn (np_read_limit_update (\<lambda>_. nh_max_header_size (nx_t s0))) s0 in
      if np_rbuf (nx_conn s) \<noteq> [] then [s\<lparr>nx_reader := RdPeeked None\<rparr>]
      else case pc_read 4096 s of
        None \<Rightarrow> []
      | Some ((d, err), s1) \<Rightarrow>
          [on_cn (np_rbuf_update (\<lambda>b. b @ d)) (s1\<lparr>nx_reader := (if err = None \<and> d = [] then RdPeek else RdPeeked err)\<rparr>)])"

definition peek_fail_locked :: "nh_error option \<Rightarrow> nx \<Rightarrow> nx" where
  "peek_fail_locked err s =
     (if np_closed (nx_conn s) \<noteq> None then s
      else on_tr (nh_close (nx_p s)
        (if err = Some (NhOther ErrEOF) then NhServerClosedIdle
         else nh_text (''readLoopPeekFailLocked: '' @ (case err of None \<Rightarrow> ''<nil>'' | Some e \<Rightarrow> nh_error_text e)))) s)"

definition reader_peeked :: "nh_error option \<Rightarrow> nx \<Rightarrow> nx" where
  "reader_peeked err s =
     (if np_expected (nx_conn s) = 0 then (peek_fail_locked err s)\<lparr>nx_reader := RdExit\<rparr>
      else s\<lparr>nx_reader := RdTake err\<rparr>)"

text \<open>An error of the reading, with the text that says when the limit of the header was the reason.\<close>

definition reader_fails :: "nh_error \<Rightarrow> nx \<Rightarrow> nx" where
  "reader_fails e s = s\<lparr>nx_reader := RdFail
     (if np_read_limit (nx_conn s) \<le> 0
      then nh_text (''net/http: server response headers exceeded '' @ itoa (nh_max_header_size (nx_t s)) @ '' bytes; aborted'')
      else e)\<rparr>"

definition reader_take :: "nh_error option \<Rightarrow> nx \<Rightarrow> nx list" where
  "reader_take err s = (case np_reqch (nx_conn s) of
     [] \<Rightarrow> []
   | rc # rcs \<Rightarrow>
      (let s1 = on_cn (np_reqch_update (\<lambda>_. rcs)) s in
       case err of
         None \<Rightarrow> [s1\<lparr>nx_reader := RdRead rc True\<rparr>]
       | Some e \<Rightarrow> [reader_fails (NhReadFromServer e) (s1\<lparr>nx_close_err := NhReadFromServer e\<rparr>)]))"

text \<open>What follows a response: the limit is lifted, and the loop decides whether it may go on.\<close>

definition has_body :: "http_request \<Rightarrow> http_response \<Rightarrow> bool" where
  "has_body rq r \<longleftrightarrow> rq_method rq \<noteq> ''HEAD'' \<and> rs_clen r \<noteq> 0"

definition reader_response :: "request_and_chan \<Rightarrow> http_response \<Rightarrow> nx \<Rightarrow> nx" where
  "reader_response rc r s =
     (let rq = hq_http (rc_req rc);
          s1 = on_cn (\<lambda>c. c\<lparr>np_read_limit := 2 ^ 63 - 1, np_expected := np_expected c - 1\<rparr>) s
      in s1\<lparr>nx_alive := (nx_alive s1 \<and> \<not> (rs_close r \<or> rq_close rq \<or> rs_code r \<le> 199)),
            nx_reader := (if has_body rq r then RdSendBody rc r else RdNoBody rc r)\<rparr>)"

text \<open>
  \<open>readResponse\<close>, once for an answer and once more after a 100. What arrived stays in the buffer until
  the answer is complete; the end of the input in the middle of it is unexpected.
\<close>

definition reader_read :: "nx_env \<Rightarrow> request_and_chan \<Rightarrow> bool \<Rightarrow> nx \<Rightarrow> nx list" where
  "reader_read xe rc first s =
     (case xe_parse xe (hq_http (rc_req rc)) (np_rbuf (nx_conn s)) of
        PError e \<Rightarrow> [reader_fails (NhOther e) s]
      | PResponse r k \<Rightarrow>
         (let s1 = on_cn (np_rbuf_update (drop k)) s in
          if first \<and> rs_code r = 100
          then [on_cn (np_read_limit_update (\<lambda>_. nh_max_header_size (nx_t s1))) (s1\<lparr>nx_reader := RdRead rc False\<rparr>)]
          else [reader_response rc r s1])
      | PMore \<Rightarrow>
         (case pc_read 4096 s of
            None \<Rightarrow> []
          | Some ((d, None), s1) \<Rightarrow> [on_cn (np_rbuf_update (\<lambda>b. b @ d)) s1]
          | Some ((_, Some e), s1) \<Rightarrow>
              [reader_fails (if e = NhOther ErrEOF then nh_text ''unexpected EOF'' else e) s1]))"

text \<open>The send on the caller's channel, which has no buffer: the caller takes it in its \<open>select\<close>, or is gone.\<close>

definition reader_sends :: "response_and_error \<Rightarrow> reader_pc \<Rightarrow> (nx \<Rightarrow> nx) \<Rightarrow> nx \<Rightarrow> nx list" where
  "reader_sends re next f s =
     (if nx_caller s = ClSelect then [caller_gets re (f (s\<lparr>nx_reader := next\<rparr>))] else []) @
     (if nx_gone s then [s\<lparr>nx_reader := RdExit\<rparr>] else [])"

definition reader_no_body :: "request_and_chan \<Rightarrow> http_response \<Rightarrow> nx \<Rightarrow> nx" where
  "reader_no_body rc r s = (on_tr (set_req_canceler (hq_id (rc_req rc)) None) s)\<lparr>nx_reader := RdPool (ThenSend r)\<rparr>"

text \<open>
  \<open>alive && !sawEOF && wroteRequest() && tryPutIdleConn()\<close>: \<open>wroteRequest\<close> takes the result of the
  writing if it is there, and else waits for it for 50 ms.
\<close>

definition pool_continue :: "pool_next \<Rightarrow> reader_pc" where
  "pool_continue n = (case n of ThenSend r \<Rightarrow> RdSend r | ThenEof b \<Rightarrow> if b then RdEof else RdNext)"

definition reader_pool :: "pool_next \<Rightarrow> nx \<Rightarrow> nx list" where
  "reader_pool n s =
     (let no = s\<lparr>nx_alive := False, nx_reader := pool_continue n\<rparr> in
      if \<not> (nx_alive s \<and> \<not> np_saw_eof (nx_conn s)) then [no]
      else case np_write_err (nx_conn s) of
        [] \<Rightarrow> [no]
      | e # es \<Rightarrow>
         (let s1 = on_cn (np_write_err_update (\<lambda>_. es)) s in
          if e \<noteq> None then [s1\<lparr>nx_alive := False, nx_reader := pool_continue n\<rparr>]
          else case nh_try_put_idle (nx_p s1) (nx_t s1) of
            None \<Rightarrow> [s1\<lparr>nx_reader := pool_continue n\<rparr>]
          | Some pe \<Rightarrow> [s1\<lparr>nx_close_err := pe, nx_alive := False, nx_reader := pool_continue n\<rparr>]))"

text \<open>The response with a body that tells the loop when it has been read.\<close>

definition ungzip_header :: "request_and_chan \<Rightarrow> http_response \<Rightarrow> http_response" where
  "ungzip_header rc r =
     (if rc_gzip rc \<and> to_lower (hget (rs_header r) ''Content-Encoding'') = ''gzip''
      then r\<lparr>rs_header := hdel (hdel (rs_header r) ''Content-Encoding'') ''Content-Length'', rs_clen := -1\<rparr>
      else r)"

definition open_body :: "nx \<Rightarrow> nx" where
  "open_body s = s\<lparr>nx_body := \<lparr>bs_closed = False, bs_rerr = None, bs_fn = True, bs_early = True\<rparr>,
     nx_wait := [], nx_bpc := BoOpen\<rparr>"

definition reader_body :: "request_and_chan \<Rightarrow> nx \<Rightarrow> nx list" where
  "reader_body rc s =
     (let r = hq_id (rc_req rc) in
      (case nx_wait s of
         [] \<Rightarrow> []
       | b # bs \<Rightarrow> [(on_tr (set_req_canceler r None) s)\<lparr>nx_wait := bs, nx_alive := (nx_alive s \<and> b),
                     nx_reader := RdPool (ThenEof b)\<rparr>]) @
      (if nx_cancel s then [on_tr (cancel_request r) (s\<lparr>nx_alive := False, nx_reader := RdNext\<rparr>)] else []) @
      (case nx_ctx s of
         None \<Rightarrow> []
       | Some e \<Rightarrow> [on_tr (cancel_request_with r e) (s\<lparr>nx_alive := False, nx_reader := RdNext\<rparr>)]) @
      (if np_closech (nx_conn s) then [s\<lparr>nx_alive := False, nx_reader := RdNext\<rparr>] else []))"

text \<open>The end of a read of the body at its end: \<open>fn\<close> got its value from \<open>eofc\<close>.\<close>

definition body_released :: "nx \<Rightarrow> nx" where
  "body_released s = s\<lparr>nx_bpc := BoOpen, nx_body := (nx_body s)\<lparr>bs_fn := False\<rparr>,
     nx_body_res := Some (NhOther ErrEOF)\<rparr>"

definition reader_exit :: "nx \<Rightarrow> nx" where
  "reader_exit s = s\<lparr>nx_eofc := True, nx_reader := RdClose\<rparr>"

definition reader_close :: "nx \<Rightarrow> nx" where
  "reader_close s = on_tr (\<lambda>t. nh_remove_idle (nx_p s) (nh_close (nx_p s) (nx_close_err s) t)) (s\<lparr>nx_reader := RdDone\<rparr>)"

definition reader_steps :: "nx_env \<Rightarrow> nx \<Rightarrow> nx list" where
  "reader_steps xe s = (case nx_reader s of
     RdPeek \<Rightarrow> reader_peek s
   | RdPeeked err \<Rightarrow> [reader_peeked err s]
   | RdTake err \<Rightarrow> reader_take err s
   | RdRead rc first \<Rightarrow> reader_read xe rc first s
   | RdFail e \<Rightarrow> reader_sends \<lparr>re_res = None, re_err = Some e\<rparr> RdExit id s
   | RdNoBody rc r \<Rightarrow> [reader_no_body rc r s]
   | RdPool n \<Rightarrow> reader_pool n s
   | RdSend r \<Rightarrow> reader_sends \<lparr>re_res = Some r, re_err = None\<rparr> RdNext id s
   | RdSendBody rc r \<Rightarrow> reader_sends \<lparr>re_res = Some (ungzip_header rc r), re_err = None\<rparr> (RdBody rc) open_body s
   | RdBody rc \<Rightarrow> reader_body rc s
   | RdEof \<Rightarrow> if nx_bpc s = BoEof then [body_released (s\<lparr>nx_reader := RdNext\<rparr>)] else []
   | RdNext \<Rightarrow> [s\<lparr>nx_reader := (if nx_alive s then RdPeek else RdExit)\<rparr>]
   | RdExit \<Rightarrow> [reader_exit s]
   | RdClose \<Rightarrow> [reader_close s]
   | RdDone \<Rightarrow> [])"

section \<open>The body\<close>

text \<open>
  \<open>bodyEOFSignal\<close>: the function of the loop tells it whether the body ended (the channel holds two
  values) and, at the end of the body, waits for \<open>eofc\<close>; a cancellation replaces any other error.
\<close>

definition body_fn :: "nh_error option \<Rightarrow> nx \<Rightarrow> nx list" where
  "body_fn err s =
     (let eof = (err = Some (NhOther ErrEOF)) in
      if length (nx_wait s) \<ge> 2 then []
      else
        let s1 = s\<lparr>nx_wait := nx_wait s @ [eof]\<rparr> in
        if eof then [s1\<lparr>nx_bpc := BoEof\<rparr>]
        else [s1\<lparr>nx_body := (nx_body s1)\<lparr>bs_fn := False\<rparr>,
                 nx_body_res := (if err \<noteq> None \<and> nh_canceled (nx_p s) (nx_t s) \<noteq> None
                   then nh_canceled (nx_p s) (nx_t s) else err)\<rparr>])"

definition body_cond_fn :: "nh_error option \<Rightarrow> nx \<Rightarrow> nx list" where
  "body_cond_fn err s = (if bs_fn (nx_body s) then body_fn err s else [s\<lparr>nx_body_res := err\<rparr>])"

text \<open>\<open>Read\<close>, given the error of the body underneath and whether it met the end of the connection.\<close>

definition body_read :: "nh_error option \<Rightarrow> bool \<Rightarrow> nx \<Rightarrow> nx list" where
  "body_read err saw s =
     (if bs_closed (nx_body s) then [s\<lparr>nx_body_res := Some NhReadOnClosedBody\<rparr>]
      else if bs_rerr (nx_body s) \<noteq> None then [s\<lparr>nx_body_res := bs_rerr (nx_body s)\<rparr>]
      else
        let s1 = (if saw then on_cn (np_saw_eof_update (\<lambda>_. True)) s else s) in
        if err = None then [s1\<lparr>nx_body_res := None\<rparr>]
        else body_cond_fn err (s1\<lparr>nx_body := (nx_body s1)\<lparr>bs_rerr := err\<rparr>\<rparr>))"

text \<open>\<open>Close\<close>, given the error of closing the body underneath.\<close>

definition body_close_signal :: "nh_error option \<Rightarrow> nx \<Rightarrow> nx list" where
  "body_close_signal err s =
     (if bs_closed (nx_body s) then [s\<lparr>nx_body_res := None\<rparr>]
      else
        let s1 = s\<lparr>nx_body := (nx_body s)\<lparr>bs_closed := True\<rparr>\<rparr> in
        if bs_early (nx_body s1) \<and> bs_rerr (nx_body s1) \<noteq> Some (NhOther ErrEOF)
        then (if length (nx_wait s1) \<ge> 2 then [] else [s1\<lparr>nx_wait := nx_wait s1 @ [False], nx_body_res := None\<rparr>])
        else body_cond_fn err s1)"

text \<open>The reader of the body that waits for \<open>eofc\<close> goes on when the loop closes it.\<close>

definition body_steps :: "nx \<Rightarrow> nx list" where
  "body_steps s = (if nx_bpc s = BoEof \<and> nx_eofc s then [body_released s] else [])"

section \<open>The whole exchange\<close>

definition nx_steps :: "nx_env \<Rightarrow> nx \<Rightarrow> nx list" where
  "nx_steps xe s = caller_steps s @ writer_steps xe s @ reader_steps xe s @ body_steps s"

text \<open>
  A step of the exchange: one of a goroutine, or of the outside: the server, whoever cancels the
  request, and the client that reads and closes the body it was given.
\<close>

inductive nx_step :: "nx_env \<Rightarrow> nx \<Rightarrow> nx \<Rightarrow> bool" for xe where
  inner: "s' \<in> set (nx_steps xe s) \<Longrightarrow> nx_step xe s s'"
| server_sends: "d \<noteq> [] \<Longrightarrow> nx_step xe s (s\<lparr>nx_in := nx_in s @ [InData d]\<rparr>)"
| server_fails: "nx_step xe s (s\<lparr>nx_in := nx_in s @ [InFail e]\<rparr>)"
| cancel_closed: "nx_step xe s (s\<lparr>nx_cancel := True\<rparr>)"
| context_done: "nx_ctx s = None \<Longrightarrow> nx_step xe s (s\<lparr>nx_ctx := Some e\<rparr>)"
| cancel_called: "nx_step xe s (on_tr (cancel_request (nx_id s)) s)"
| body_is_read: "nx_bpc s = BoOpen \<Longrightarrow> s' \<in> set (body_read err saw s) \<Longrightarrow> nx_step xe s s'"
| body_is_closed: "nx_bpc s = BoOpen \<Longrightarrow> s' \<in> set (body_close_signal err s) \<Longrightarrow> nx_step xe s s'"

inductive nx_reach :: "nx_env \<Rightarrow> nx \<Rightarrow> nx \<Rightarrow> bool" for xe s0 where
  start: "nx_reach xe s0 s0"
| step: "nx_reach xe s0 s \<Longrightarrow> nx_step xe s s' \<Longrightarrow> nx_reach xe s0 s'"

inductive_cases nx_stepE: "nx_step xe s s'"

text \<open>An exchange begins on a connection that \<open>getConn\<close> returned: nothing has been sent through its channels.\<close>

definition nx_init :: "nh_state \<Rightarrow> nat \<Rightarrow> nh_request \<Rightarrow> nx" where
  "nx_init t p rq = \<lparr>nx_t = t, nx_p = p, nx_tq = \<lparr>tq_request = rq, tq_extra = None, tq_err = None\<rparr>, nx_start = 0,
     nx_cancel = False, nx_ctx = None, nx_in = [], nx_werr = [], nx_gone = False, nx_timer = False,
     nx_watch_cancel = False, nx_watch_ctx = False, nx_caller = ClStart, nx_writer = WrSelect, nx_reader = RdPeek,
     nx_alive = True, nx_close_err = NhReadLoopExiting, nx_eofc = False, nx_wait = [],
     nx_body = \<lparr>bs_closed = False, bs_rerr = None, bs_fn = False, bs_early = False\<rparr>, nx_bpc = BoNone,
     nx_body_res = None\<rparr>"

definition nx_fresh :: "nh_state \<Rightarrow> nat \<Rightarrow> bool" where
  "nx_fresh t p \<longleftrightarrow> nh_close_ok p t \<and> np_closed (nh_store t p) = None \<and> np_reqch (nh_store t p) = [] \<and>
     np_writech (nh_store t p) = [] \<and> np_write_err (nh_store t p) = [] \<and> \<not> np_write_done (nh_store t p) \<and>
     np_expected (nh_store t p) = 0 \<and> np_rbuf (nh_store t p) = [] \<and> \<not> np_reused (nh_store t p) \<and>
     np_canceled (nh_store t p) = None"

end
