(* ===== verification/Nonhttp_Safety.thy ===== *)
theory Nonhttp_Safety
  imports Nonhttp_Exchange
begin

text \<open>
  What the exchange of \<open>Nonhttp_Exchange\<close> promises: the invariant \<open>nx_ok\<close>, which every step of every
  goroutine and of the outside keeps, and from it that the connection ends up closed, that no goroutine
  is stuck once it is, and that the goroutines end after a number of steps known beforehand.
\<close>

section \<open>The invariant\<close>

text \<open>The points of the reader before it has a request, with one, and after it handed a body out.\<close>

fun rd_early :: "reader_pc \<Rightarrow> bool" where
  "rd_early RdPeek = True"
| "rd_early (RdPeeked e) = True"
| "rd_early (RdTake e) = True"
| "rd_early _ = False"

fun rd_busy :: "reader_pc \<Rightarrow> bool" where
  "rd_busy (RdRead rc f) = True"
| "rd_busy (RdFail e) = True"
| "rd_busy (RdNoBody rc r) = True"
| "rd_busy (RdPool (ThenSend r)) = True"
| "rd_busy (RdSend r) = True"
| "rd_busy (RdSendBody rc r) = True"
| "rd_busy _ = False"

fun rd_ending :: "reader_pc \<Rightarrow> bool" where
  "rd_ending RdExit = True"
| "rd_ending RdClose = True"
| "rd_ending RdDone = True"
| "rd_ending _ = False"

fun rd_eof :: "reader_pc \<Rightarrow> bool" where
  "rd_eof (RdPool (ThenEof b)) = b"
| "rd_eof RdEof = True"
| "rd_eof _ = False"

fun rd_body :: "reader_pc \<Rightarrow> bool" where
  "rd_body (RdBody rc) = True"
| "rd_body _ = False"

fun rd_after :: "reader_pc \<Rightarrow> bool" where
  "rd_after (RdBody rc) = True"
| "rd_after (RdPool (ThenEof b)) = True"
| "rd_after RdEof = True"
| "rd_after RdNext = True"
| "rd_after p = rd_ending p"

fun rd_over :: "reader_pc \<Rightarrow> bool" where
  "rd_over (RdSend r) = True"
| "rd_over RdEof = True"
| "rd_over RdNext = True"
| "rd_over _ = False"

fun rd_head :: "reader_pc \<Rightarrow> bool" where
  "rd_head (RdPeeked e) = True"
| "rd_head (RdTake e) = True"
| "rd_head (RdRead rc f) = f"
| "rd_head _ = False"

fun rd_second :: "reader_pc \<Rightarrow> bool" where
  "rd_second (RdRead rc f) = (\<not> f)"
| "rd_second _ = False"

fun rd_take :: "reader_pc \<Rightarrow> bool" where
  "rd_take (RdTake e) = True"
| "rd_take _ = False"

fun cl_before :: "caller_pc \<Rightarrow> bool" where
  "cl_before ClStart = True"
| "cl_before ClWrite = True"
| "cl_before ClReq = True"
| "cl_before _ = False"

fun cl_done :: "caller_pc \<Rightarrow> bool" where
  "cl_done (ClDone r) = True"
| "cl_done _ = False"

fun wr_job :: "writer_pc \<Rightarrow> bool" where
  "wr_job (WrWrite j k) = True"
| "wr_job (WrFlush j k e) = True"
| "wr_job (WrTell e) = True"
| "wr_job _ = False"

fun wr_report :: "writer_pc \<Rightarrow> bool" where
  "wr_report (WrReport e) = True"
| "wr_report _ = False"

fun wr_idle :: "writer_pc \<Rightarrow> bool" where
  "wr_idle WrSelect = True"
| "wr_idle WrDone = True"
| "wr_idle _ = False"

text \<open>The one job: before the writer has it, nothing has been reported.\<close>

definition writer_ok :: "nx \<Rightarrow> bool" where
  "writer_ok s \<longleftrightarrow>
     (nx_caller s = ClStart \<or> nx_caller s = ClWrite \<longrightarrow> np_writech (nx_conn s) = []) \<and>
     (nx_caller s = ClStart \<or> nx_caller s = ClWrite \<or> np_writech (nx_conn s) \<noteq> [] \<longrightarrow>
        np_write_err (nx_conn s) = [] \<and> nx_werr s = [] \<and> wr_idle (nx_writer s)) \<and>
     length (np_writech (nx_conn s)) \<le> 1 \<and>
     (wr_job (nx_writer s) \<longrightarrow> np_write_err (nx_conn s) = []) \<and>
     (wr_job (nx_writer s) \<or> wr_report (nx_writer s) \<longrightarrow> nx_werr s = []) \<and>
     (nx_writer s = WrDone \<longrightarrow> np_write_done (nx_conn s) \<and> np_closech (nx_conn s))"

definition caller_ok :: "nx \<Rightarrow> bool" where
  "caller_ok s \<longleftrightarrow> (\<forall>m. nx_caller s \<noteq> ClPanic m) \<and>
     (cl_before (nx_caller s) \<longrightarrow> np_reqch (nx_conn s) = [] \<and> \<not> nx_gone s) \<and>
     (nx_caller s = ClStart \<longrightarrow> np_expected (nx_conn s) = 0) \<and>
     nx_caller s \<noteq> ClMap None \<and>
     (\<forall>e. nx_caller s = ClDone (Inl e) \<longrightarrow> e \<noteq> None \<and> nh_canceler (nx_t s) (nx_id s) = None) \<and>
     (cl_done (nx_caller s) \<longrightarrow> nx_gone s \<or> np_reqch (nx_conn s) = [] \<and> np_expected (nx_conn s) = 0)"

definition reader_ok :: "nx \<Rightarrow> bool" where
  "reader_ok s \<longleftrightarrow>
     (rd_early (nx_reader s) \<and> np_expected (nx_conn s) \<noteq> 0 \<longrightarrow>
        np_reqch (nx_conn s) \<noteq> [] \<or> nx_caller s = ClWrite \<or> nx_caller s = ClReq) \<and>
     (rd_take (nx_reader s) \<longrightarrow> np_expected (nx_conn s) \<noteq> 0) \<and>
     (rd_busy (nx_reader s) \<or> rd_after (nx_reader s) \<and> \<not> rd_ending (nx_reader s) \<longrightarrow>
        \<not> cl_before (nx_caller s) \<and> (cl_done (nx_caller s) \<longrightarrow> nx_gone s)) \<and>
     (rd_over (nx_reader s) \<longrightarrow> \<not> nx_alive s) \<and>
     (nx_reader s = RdDone \<longrightarrow> np_closech (nx_conn s)) \<and>
     (nx_eofc s \<longleftrightarrow> nx_reader s = RdClose \<or> nx_reader s = RdDone) \<and>
     \<not> np_reused (nx_conn s)"

definition body_ok :: "nx \<Rightarrow> bool" where
  "body_ok s \<longleftrightarrow>
     (nx_bpc s \<noteq> BoNone \<longrightarrow> rd_after (nx_reader s)) \<and>
     (rd_eof (nx_reader s) \<longrightarrow> nx_bpc s = BoEof) \<and>
     (rd_body (nx_reader s) \<longrightarrow> nx_bpc s \<noteq> BoNone \<and>
        (if nx_bpc s = BoEof then nx_wait s = [True] else True \<notin> set (nx_wait s))) \<and>
     (nx_bpc s \<noteq> BoNone \<longrightarrow> bs_early (nx_body s)) \<and>
     (nx_bpc s = BoOpen \<and> bs_rerr (nx_body s) \<noteq> None \<longrightarrow> \<not> bs_fn (nx_body s)) \<and>
     (nx_bpc s = BoEof \<longrightarrow> bs_fn (nx_body s)) \<and>
     (nx_bpc s \<noteq> BoNone \<longrightarrow> length (nx_wait s) \<le>
        (if bs_fn (nx_body s) \<and> nx_bpc s \<noteq> BoEof then 0 else 1) + (if bs_closed (nx_body s) then 1 else 0))"

text \<open>
  While a header is read, the bytes that have arrived and the rest of the limit make up the limit. For the answer
  after a 100 the limit begins anew, on top of what has arrived already.
\<close>

definition limit_ok :: "nx \<Rightarrow> bool" where
  "limit_ok s \<longleftrightarrow>
     (nx_reader s = RdPeek \<longrightarrow> np_rbuf (nx_conn s) = []) \<and>
     (rd_head (nx_reader s) \<longrightarrow>
        int (length (np_rbuf (nx_conn s))) + np_read_limit (nx_conn s) = nh_max_header_size (nx_t s) \<and>
        (0 \<le> np_read_limit (nx_conn s) \<or> np_rbuf (nx_conn s) = [])) \<and>
     (rd_second (nx_reader s) \<longrightarrow>
        int (length (np_rbuf (nx_conn s))) + np_read_limit (nx_conn s)
          \<le> max 0 (nh_max_header_size (nx_t s)) + nh_max_header_size (nx_t s) \<and>
        (0 \<le> np_read_limit (nx_conn s) \<or> int (length (np_rbuf (nx_conn s))) \<le> max 0 (nh_max_header_size (nx_t s))))"

definition nx_ok :: "nx \<Rightarrow> bool" where
  "nx_ok s \<longleftrightarrow> conn_ok (nx_conn s) (nh_net (nx_t s)) \<and> writer_ok s \<and> caller_ok s \<and> reader_ok s \<and> body_ok s \<and> limit_ok s"

lemmas nx_ok_parts = writer_ok_def caller_ok_def reader_ok_def body_ok_def limit_ok_def

lemma nx_ok_init: "nx_fresh t p \<Longrightarrow> nx_ok (nx_init t p rq)"
  by (simp add: nx_ok_def nx_ok_parts nx_init_def nx_fresh_def nh_close_ok_def)

section \<open>Steps that change little\<close>

text \<open>Cancelling touches no channel of a connection, and closes in the way \<open>close\<close> does.\<close>

lemma cancel_with_cases:
  "cancel_request_with r e t =
     (let t1 = t\<lparr>nh_canceler := (nh_canceler t)(r := None)\<rparr> in
      case nh_canceler t r of
        None \<Rightarrow> t1
      | Some CancelNothing \<Rightarrow> t1
      | Some CancelDial \<Rightarrow> t1\<lparr>nh_cancelc := (nh_cancelc t)(r := nh_cancelc t r @ [e])\<rparr>
      | Some (CancelConn q) \<Rightarrow> nh_close q NhRequestCanceled (upd_conn q (np_canceled_update (\<lambda>_. Some e)) t1))"
  by (simp add: cancel_request_with_def nh_run_cancel_def nh_cancel_conn_close Let_def
      split: option.split nh_canceler.split)

lemma close_conn_ok:
  assumes "conn_ok (nh_store t p) (nh_net t)"
  shows "conn_ok (nh_store (nh_close q e t) p) (nh_net (nh_close q e t))"
proof (cases "q = p")
  case True
  from assms have "nh_close_ok p t" by (simp add: nh_close_ok_def)
  from nh_close_keeps_ok [OF this] True show ?thesis by (simp add: nh_close_ok_def)
next
  case False
  with assms False [symmetric] show ?thesis
    by (auto simp: nh_close_def nh_close_locked_def Let_def ret_def conn_ok_def conn_of_def
        intro!: conn_close_keeps)
qed

lemma cancel_conn_ok:
  assumes "conn_ok (nh_store t p) (nh_net t)"
  shows "conn_ok (nh_store (cancel_request_with r e t) p) (nh_net (cancel_request_with r e t))"
proof -
  have "conn_ok (nh_store (upd_conn q (np_canceled_update (\<lambda>_. Some e)) (t\<lparr>nh_canceler := c\<rparr>)) p)
      (nh_net (upd_conn q (np_canceled_update (\<lambda>_. Some e)) (t\<lparr>nh_canceler := c\<rparr>)))" for q c
    using assms by auto
  note * = close_conn_ok [OF this]
  show ?thesis
  proof (cases "nh_canceler t r")
    case None
    with assms show ?thesis by (simp add: cancel_with_cases)
  next
    case (Some f)
    with assms * show ?thesis by (cases f) (simp_all add: cancel_with_cases)
  qed
qed

lemma cancel_fields [simp]:
  "np_key (nh_store (cancel_request_with r e t) q) = np_key (nh_store t q)"
  "np_reused (nh_store (cancel_request_with r e t) q) = np_reused (nh_store t q)"
  "np_reqch (nh_store (cancel_request_with r e t) q) = np_reqch (nh_store t q)"
  "np_writech (nh_store (cancel_request_with r e t) q) = np_writech (nh_store t q)"
  "np_write_err (nh_store (cancel_request_with r e t) q) = np_write_err (nh_store t q)"
  "np_write_done (nh_store (cancel_request_with r e t) q) = np_write_done (nh_store t q)"
  "np_expected (nh_store (cancel_request_with r e t) q) = np_expected (nh_store t q)"
  "np_rbuf (nh_store (cancel_request_with r e t) q) = np_rbuf (nh_store t q)"
  "np_read_limit (nh_store (cancel_request_with r e t) q) = np_read_limit (nh_store t q)"
  "nh_max_header (cancel_request_with r e t) = nh_max_header t"
  "nh_header_timeout (cancel_request_with r e t) = nh_header_timeout t"
  by (simp_all add: cancel_with_cases Let_def split: option.split nh_canceler.split)

lemma close_closech [simp]: "np_closech (nh_store t p) \<Longrightarrow> np_closech (nh_store (nh_close q e t) p)"
  by (cases "q = p") (simp_all add: nh_close_def nh_close_locked_def Let_def ret_def)

lemma cancel_closech [simp]: "np_closech (nh_store t p) \<Longrightarrow> np_closech (nh_store (cancel_request_with r e t) p)"
  by (auto simp: cancel_with_cases Let_def split: option.split nh_canceler.split intro!: close_closech)

lemma cancel_canceler [simp]: "nh_canceler t r = None \<Longrightarrow> nh_canceler (cancel_request_with q e t) r = None"
  "nh_canceler (cancel_request_with r e t) r = None"
  by (simp_all add: cancel_with_cases Let_def split: option.split nh_canceler.split)

lemma max_header_size_fields [simp]:
  "nh_max_header_size (cancel_request_with r e t) = nh_max_header_size t"
  "nh_max_header_size (nh_close p e t) = nh_max_header_size t"
  "nh_max_header_size (t\<lparr>nh_canceler := c\<rparr>) = nh_max_header_size t"
  "nh_max_header_size (t\<lparr>nh_store := st\<rparr>) = nh_max_header_size t"
  "nh_max_header_size (t\<lparr>nh_net := n\<rparr>) = nh_max_header_size t"
  by (simp_all add: nh_max_header_size_def)

lemma nh_close_now [simp]:
  "conn_ok (nh_store t p) (nh_net t) \<Longrightarrow> np_closech (nh_store (nh_close p e t) p)"
  using nh_close_down by (simp add: nh_down_def nh_close_ok_def)

section \<open>Every step keeps the invariant\<close>

lemma nx_okD:
  assumes "nx_ok s"
  shows "conn_ok (nx_conn s) (nh_net (nx_t s))" "writer_ok s" "caller_ok s" "reader_ok s" "body_ok s" "limit_ok s"
  using assms by (simp_all add: nx_ok_def)

lemmas step_simps = on_cn_def on_tr_def close_conn_ok cancel_conn_ok nx_ok_parts

text \<open>The form of the proofs: the parts of the invariant are shown one by one from the parts before.\<close>

lemma caller_starts:
  assumes "nx_ok s" "nx_caller s = ClStart" "s' \<in> set (caller_steps s)"
  shows "nx_ok s'"
proof (cases "nh_canceler (nx_t s) (nx_id s)")
  case None
  with assms(2,3) have s': "s' = s\<lparr>nx_t := nh_close (nx_p s) NhKeepAlivesDisabled (nx_t s),
      nx_caller := ClDone (Inl (Some NhRequestCanceled))\<rparr>"
    by (simp add: caller_steps_def replace_req_canceler_def put_or_close_closes)
  show ?thesis using nx_okD [OF assms(1)] assms(2) None unfolding nx_ok_def
    by (intro conjI; simp add: s' step_simps)
next
  case (Some a)
  with assms(2,3) have s': "s' = s\<lparr>nx_t := upd_conn (nx_p s) (np_expected_update (\<lambda>n. n + 1))
      ((nx_t s)\<lparr>nh_canceler := (nh_canceler (nx_t s))(nx_id s := Some (CancelConn (nx_p s)))\<rparr>), nx_caller := ClWrite\<rparr>"
    by (simp add: caller_steps_def replace_req_canceler_def on_cn_def)
  show ?thesis using nx_okD [OF assms(1)] assms(2) unfolding nx_ok_def
    by (intro conjI; simp add: s' step_simps)
qed

lemma caller_sends:
  assumes "nx_ok s" "nx_caller s = ClWrite \<or> nx_caller s = ClReq" "s' \<in> set (caller_steps s)"
  shows "nx_ok s'"
proof (cases "nx_caller s = ClWrite")
  case True
  with assms(3) have s': "s' = on_cn (np_writech_update (\<lambda>_. [\<lparr>wj_req = nx_tq s, wj_continue = False\<rparr>]))
      (s\<lparr>nx_start := np_nwrite (nx_conn s), nx_caller := ClReq\<rparr>)"
    by (simp add: caller_steps_def split: if_splits)
  show ?thesis using nx_okD [OF assms(1)] True unfolding nx_ok_def
    by (intro conjI; simp add: s' step_simps)
next
  case False
  with assms(2) have c: "nx_caller s = ClReq" by simp
  with assms(3) have s': "s' = on_cn (np_reqch_update (\<lambda>_. [\<lparr>rc_req = tq_request (nx_tq s), rc_gzip = False, rc_continue = False\<rparr>]))
      (s\<lparr>nx_caller := ClSelect, nx_watch_cancel := True, nx_watch_ctx := True\<rparr>)"
    by (simp add: caller_steps_def split: if_splits)
  show ?thesis using nx_okD [OF assms(1)] c unfolding nx_ok_def
    by (intro conjI; simp add: s' step_simps)
qed

lemma caller_selects:
  assumes "nx_ok s" "nx_caller s = ClSelect" "s' \<in> set (caller_select s)"
  shows "nx_ok s'"
proof -
  note ok = nx_okD [OF assms(1)] assms(2)
  consider "s' \<in> set (select_write_err s)" | "s' \<in> set (select_closed s)" | "s' \<in> set (select_timer s)"
    | "s' \<in> set (select_cancel s)" | "s' \<in> set (select_ctx s)"
    using assms(3) by (auto simp: caller_select_def)
  then show ?thesis
  proof cases
    case 1
    then obtain r es where w: "nx_werr s = r # es" by (cases "nx_werr s") (simp_all add: select_write_err_def)
    show ?thesis
    proof (cases r)
      case None
      with 1 w have s': "s' = s\<lparr>nx_werr := es, nx_timer := (nx_timer s \<or> nh_header_timeout (nx_t s) > 0)\<rparr>"
        by (simp add: select_write_err_def)
      show ?thesis using ok w unfolding nx_ok_def by (intro conjI; simp add: s' step_simps)
    next
      case (Some e)
      with 1 w have s': "s' = on_tr (nh_close (nx_p s) (nh_text (''write error: '' @ nh_error_text e)))
          (s\<lparr>nx_werr := es, nx_caller := ClMap (Some e)\<rparr>)"
        by (simp add: select_write_err_def)
      show ?thesis using ok w unfolding nx_ok_def by (intro conjI; simp add: s' step_simps)
    qed
  next
    case 2
    then have s': "np_closech (nx_conn s)" "s' = s\<lparr>nx_caller := ClMap (np_closed (nx_conn s))\<rparr>"
      by (simp_all add: select_closed_def split: if_splits)
    then show ?thesis using ok unfolding nx_ok_def by (intro conjI; simp add: step_simps conn_ok_def)
  next
    case 3
    then have s': "s' = caller_fails (Some NhTimeout) (on_tr (nh_close (nx_p s) NhTimeout) s)"
      by (simp add: select_timer_def split: if_splits)
    show ?thesis using ok unfolding nx_ok_def
      by (intro conjI; simp add: s' step_simps caller_fails_def set_req_canceler_def)
  next
    case 4
    then have s': "s' = on_tr (cancel_request (nx_id s)) (s\<lparr>nx_watch_cancel := False\<rparr>)"
      by (simp add: select_cancel_def split: if_splits)
    show ?thesis using ok unfolding nx_ok_def by (intro conjI; simp add: s' step_simps cancel_request_def)
  next
    case 5
    then obtain e where s': "s' = on_tr (cancel_request_with (nx_id s) e)
        (s\<lparr>nx_watch_cancel := False, nx_watch_ctx := False\<rparr>)"
      by (cases "nx_ctx s") (simp_all add: select_ctx_def split: if_splits)
    show ?thesis using ok unfolding nx_ok_def by (intro conjI; simp add: s' step_simps)
  qed
qed

lemma map_error_some: "map_round_trip_error (Some e) s = Some r \<Longrightarrow> r \<noteq> None"
  by (cases "nh_canceled (nx_p s) (nx_t s)"; cases "tq_err (nx_tq s)"; cases e)
    (auto simp: map_round_trip_error_def split: if_splits)

lemma caller_keeps:
  assumes "nx_ok s" "s' \<in> set (caller_steps s)"
  shows "nx_ok s'"
proof (cases "nx_caller s")
  case ClStart
  then show ?thesis using assms caller_starts by blast
next
  case ClWrite
  then show ?thesis using assms caller_sends by blast
next
  case ClReq
  then show ?thesis using assms caller_sends by blast
next
  case ClSelect
  then show ?thesis using assms caller_selects by (simp add: caller_steps_def)
next
  case (ClMap err)
  with assms obtain e where e: "map_round_trip_error err s = Some e" "s' = caller_fails e s"
    by (cases "map_round_trip_error err s") (simp_all add: caller_steps_def)
  from ClMap nx_okD(3) [OF assms(1)] obtain g where g: "err = Some g" by (auto simp: caller_ok_def)
  with map_error_some e(1) obtain h where h: "e = Some h" by blast
  show ?thesis using nx_okD [OF assms(1)] ClMap unfolding nx_ok_def e(2) h
    by (intro conjI; simp add: step_simps caller_fails_def set_req_canceler_def)
qed (use assms in \<open>simp_all add: caller_steps_def\<close>)

text \<open>Writing changes the buffer, the count and what was sent, and closes nothing.\<close>

definition quiet :: "nx \<Rightarrow> nx \<Rightarrow> bool" where
  "quiet s s' \<longleftrightarrow> (\<exists>w e n net. s' = s\<lparr>nx_t := (nx_t s)\<lparr>nh_store := (nh_store (nx_t s))
       (nx_p s := (nx_conn s)\<lparr>np_wbuf := w, np_werr := e, np_nwrite := n\<rparr>), nh_net := net\<rparr>\<rparr> \<and>
     (\<forall>i. tc_closed (nt_conns net i) = tc_closed (nt_conns (nh_net (nx_t s)) i)))"

lemma quiet_refl: "quiet s s"
proof -
  have "s = s\<lparr>nx_t := (nx_t s)\<lparr>nh_store := (nh_store (nx_t s))
      (nx_p s := (nx_conn s)\<lparr>np_wbuf := np_wbuf (nx_conn s), np_werr := np_werr (nx_conn s), np_nwrite := np_nwrite (nx_conn s)\<rparr>),
      nh_net := nh_net (nx_t s)\<rparr>\<rparr>" by simp
  then show ?thesis unfolding quiet_def by blast
qed

lemma quiet_trans: "quiet s u \<Longrightarrow> quiet u v \<Longrightarrow> quiet s v"
  unfolding quiet_def by (elim exE conjE) (simp, blast)

lemma quiet_ok: "quiet s s' \<Longrightarrow> nx_ok s \<Longrightarrow> nx_ok s' \<and> nx_writer s' = nx_writer s"
  unfolding quiet_def nx_ok_def
  by (elim exE conjE, intro conjI) (simp_all add: conn_ok_def conn_of_def nx_ok_parts)

lemma update_values:
  "np_wbuf_update f c = c\<lparr>np_wbuf := f (np_wbuf c)\<rparr>" "np_nwrite_update g c = c\<lparr>np_nwrite := g (np_nwrite c)\<rparr>"
  by (cases c, simp)+

lemma quiet_buffer: "quiet s (on_cn (np_wbuf_update f) s)"
proof -
  have "on_cn (np_wbuf_update f) s = s\<lparr>nx_t := (nx_t s)\<lparr>nh_store := (nh_store (nx_t s))
      (nx_p s := (nx_conn s)\<lparr>np_wbuf := f (np_wbuf (nx_conn s)), np_werr := np_werr (nx_conn s), np_nwrite := np_nwrite (nx_conn s)\<rparr>),
      nh_net := nh_net (nx_t s)\<rparr>\<rparr>" by (simp add: on_cn_def update_values(1) [of f])
  then show ?thesis unfolding quiet_def by blast
qed

lemma quiet_error: "quiet s (on_cn (\<lambda>c. c\<lparr>np_wbuf := b, np_werr := e\<rparr>) s)"
proof -
  have "on_cn (\<lambda>c. c\<lparr>np_wbuf := b, np_werr := e\<rparr>) s = s\<lparr>nx_t := (nx_t s)\<lparr>nh_store := (nh_store (nx_t s))
      (nx_p s := (nx_conn s)\<lparr>np_wbuf := b, np_werr := e, np_nwrite := np_nwrite (nx_conn s)\<rparr>),
      nh_net := nh_net (nx_t s)\<rparr>\<rparr>" by (simp add: on_cn_def)
  then show ?thesis unfolding quiet_def by blast
qed

lemma quiet_pcw: "quiet s (snd (pcw_write d s))"
proof -
  obtain n e net where w: "conn_write (np_conn (nx_conn s)) d (nh_net (nx_t s)) = ((n, e), net)"
    by (metis prod.exhaust)
  have "snd (pcw_write d s) = s\<lparr>nx_t := (nx_t s)\<lparr>nh_store := (nh_store (nx_t s))
      (nx_p s := (nx_conn s)\<lparr>np_wbuf := np_wbuf (nx_conn s), np_werr := np_werr (nx_conn s),
        np_nwrite := np_nwrite (nx_conn s) + int n\<rparr>), nh_net := net\<rparr>\<rparr>"
    by (simp add: pcw_write_def w on_cn_def on_tr_def update_values(2) [of "\<lambda>k. k + int n"])
  moreover have "tc_closed (nt_conns net i) = tc_closed (nt_conns (nh_net (nx_t s)) i)" for i
    using conn_write_closed [of "np_conn (nx_conn s)" d "nh_net (nx_t s)" i] w by simp
  ultimately show ?thesis unfolding quiet_def by blast
qed

lemma quiet_send: "quiet s (snd (bw_send d rest s))"
  using quiet_pcw [of s d]
  by (auto simp: bw_send_def split: prod.split option.split intro: quiet_trans quiet_buffer quiet_error)

lemma quiet_flush: "quiet s (snd (bw_flush s))"
  by (simp add: bw_flush_def quiet_refl quiet_send)

lemma quiet_write: "quiet s (snd (bw_write txt s))"
  by (simp add: bw_write_def Let_def quiet_refl quiet_send quiet_buffer)

lemma quiet_request: "quiet s (snd (nh_write_request xe rq orig s))"
  using quiet_write [of s "fst (xe_request_text xe rq)"] quiet_flush
  by (auto simp: nh_write_request_def split: prod.split option.split intro: quiet_trans)

lemma set_error_request [simp]: "tq_request (set_error e tr) = tq_request tr"
  by (simp add: set_error_def)

lemma note_body_error_keeps:
  assumes "nx_ok s"
  shows "nx_ok (snd (note_body_error e s))" "nx_writer (snd (note_body_error e s)) = nx_writer s"
proof -
  have "nx_ok (s\<lparr>nx_tq := set_error g (nx_tq s)\<rparr>)" for g
    using nx_okD [OF assms] unfolding nx_ok_def by (intro conjI; simp add: nx_ok_parts)
  with assms show "nx_ok (snd (note_body_error e s))" "nx_writer (snd (note_body_error e s)) = nx_writer s"
    by (simp_all add: note_body_error_def split: option.split nh_error.split)
qed

lemma writer_frame:
  "nx_ok (s\<lparr>nx_writer := w\<rparr>) \<longleftrightarrow> conn_ok (nx_conn s) (nh_net (nx_t s)) \<and> writer_ok (s\<lparr>nx_writer := w\<rparr>) \<and>
     caller_ok s \<and> reader_ok s \<and> body_ok s \<and> limit_ok s"
  by (simp add: nx_ok_def caller_ok_def reader_ok_def body_ok_def limit_ok_def)

lemma wr_job_not: "wr_job w \<Longrightarrow> w \<noteq> WrDone \<and> \<not> wr_idle w \<and> \<not> wr_report w"
  by (cases w) simp_all

lemma writer_moves:
  assumes "nx_ok s" "wr_job (nx_writer s)" "wr_job w"
  shows "nx_ok (s\<lparr>nx_writer := w\<rparr>)"
  unfolding writer_frame using nx_okD [OF assms(1)] wr_job_not [OF assms(2)] wr_job_not [OF assms(3)] assms(2)
  by (intro conjI; simp add: writer_ok_def)

lemma writer_finishes:
  assumes "nx_ok s" "np_closech (nx_conn s)"
  shows "nx_ok (writer_done s)"
  using nx_okD [OF assms(1)] assms(2) unfolding nx_ok_def writer_done_def
  by (intro conjI; simp add: step_simps)

lemma close_keeps:
  assumes "nx_ok s"
  shows "nx_ok (on_tr (nh_close (nx_p s) e) s)"
  using nx_okD [OF assms] unfolding nx_ok_def by (intro conjI; simp add: step_simps)

lemma writer_writes:
  assumes "nx_ok s" "nx_writer s = WrWrite j start"
  shows "nx_ok (writer_write xe j start s)"
proof -
  let ?q = "nh_write_request xe (hq_http (tq_request (wj_req j))) (hq_original (tq_request (wj_req j))) s"
  let ?n = "note_body_error (map_option NhOther (fst ?q)) (snd ?q)"
  from quiet_ok [OF quiet_request assms(1)] assms(2) have q: "nx_ok (snd ?q)" "nx_writer (snd ?q) = WrWrite j start"
    by simp_all
  from note_body_error_keeps [OF q(1)] q(2) have "nx_ok (snd ?n)" "wr_job (nx_writer (snd ?n))" by simp_all
  then have "nx_ok ((snd ?n)\<lparr>nx_writer := WrFlush j start (fst ?n)\<rparr>)" by (rule writer_moves) simp
  then show ?thesis by (simp add: writer_write_def case_prod_unfold)
qed

lemma writer_flushes:
  assumes "nx_ok s" "nx_writer s = WrFlush j start err"
  shows "nx_ok (writer_flush j start err s)"
proof -
  from quiet_ok [OF quiet_flush assms(1)] have "nx_ok (snd (bw_flush s))" "nx_writer (snd (bw_flush s)) = WrFlush j start err"
    using assms(2) by simp_all
  with assms show ?thesis
    by (auto simp: writer_flush_def case_prod_unfold intro!: writer_moves split: option.split)
qed

lemma writer_side:
  assumes "nx_ok s" "writer_ok s'" "conn_ok (nx_conn s') (nh_net (nx_t s'))"
    "nx_caller s' = nx_caller s" "nx_reader s' = nx_reader s" "nx_gone s' = nx_gone s" "nx_alive s' = nx_alive s"
    "nx_eofc s' = nx_eofc s" "nx_bpc s' = nx_bpc s" "nx_wait s' = nx_wait s" "nx_body s' = nx_body s"
    "nx_id s' = nx_id s" "nh_canceler (nx_t s') = nh_canceler (nx_t s)" "nh_max_header (nx_t s') = nh_max_header (nx_t s)"
    "np_reqch (nx_conn s') = np_reqch (nx_conn s)" "np_expected (nx_conn s') = np_expected (nx_conn s)"
    "np_closech (nx_conn s') = np_closech (nx_conn s)" "np_reused (nx_conn s') = np_reused (nx_conn s)"
    "np_rbuf (nx_conn s') = np_rbuf (nx_conn s)" "np_read_limit (nx_conn s') = np_read_limit (nx_conn s)"
  shows "nx_ok s'"
proof -
  have "nh_max_header_size (nx_t s') = nh_max_header_size (nx_t s)" using assms(14) by (simp add: nh_max_header_size_def)
  then have "limit_ok s'" using nx_okD(6) [OF assms(1)] assms(5,19,20) by (simp add: limit_ok_def)
  then show ?thesis
    using nx_okD(3-5) [OF assms(1)] assms(2-18)
    unfolding nx_ok_def caller_ok_def reader_ok_def body_ok_def by metis
qed

lemma writer_takes:
  assumes "nx_ok s" "nx_writer s = WrSelect" "np_writech (nx_conn s) = [j]"
  shows "nx_ok (on_cn (np_writech_update (\<lambda>_. [])) (s\<lparr>nx_writer := WrWrite j k\<rparr>))"
  by (rule writer_side [OF assms(1)])
    (use nx_okD(1,2) [OF assms(1)] assms(2,3) in \<open>auto simp: on_cn_def writer_ok_def\<close>)

lemma writer_keeps:
  assumes "nx_ok s" "s' \<in> set (writer_steps xe s)"
  shows "nx_ok s'"
proof (cases "nx_writer s")
  case WrSelect
  show ?thesis
  proof (cases "s' = writer_done s \<and> np_closech (nx_conn s)")
    case True
    then show ?thesis using writer_finishes [OF assms(1)] by simp
  next
    case False
    obtain j js where j: "np_writech (nx_conn s) = j # js"
      using assms(2) WrSelect False
      by (cases "np_writech (nx_conn s)") (simp_all add: writer_steps_def split: if_splits)
    have s': "s' = on_cn (np_writech_update (\<lambda>_. js)) (s\<lparr>nx_writer := WrWrite j (np_nwrite (nx_conn s))\<rparr>)"
      using assms(2) WrSelect False j by (simp add: writer_steps_def split: if_splits)
    from j nx_okD(2) [OF assms(1)] have "js = []" by (simp add: writer_ok_def)
    with writer_takes [OF assms(1) WrSelect] j s' show ?thesis by simp
  qed
next
  case (WrWrite j start)
  with assms show ?thesis using writer_writes by (simp add: writer_steps_def)
next
  case (WrFlush j start err)
  with assms show ?thesis using writer_flushes by (simp add: writer_steps_def)
next
  case (WrTell err)
  with assms(2) have s': "s' = on_cn (np_write_err_update (\<lambda>_. [err])) (s\<lparr>nx_writer := WrReport err\<rparr>)"
    by (simp add: writer_steps_def split: if_splits)
  show ?thesis unfolding s'
    by (rule writer_side [OF assms(1)])
      (use nx_okD(1,2) [OF assms(1)] WrTell in \<open>auto simp: on_cn_def writer_ok_def\<close>)
next
  case (WrReport err)
  with assms(2) have s': "s' = s\<lparr>nx_werr := [err], nx_writer := (case err of None \<Rightarrow> WrSelect | Some e \<Rightarrow> WrClose e)\<rparr>"
    by (simp add: writer_steps_def split: if_splits)
  show ?thesis unfolding s'
    by (rule writer_side [OF assms(1)])
      (use nx_okD(1,2) [OF assms(1)] WrReport in \<open>auto simp: writer_ok_def split: option.splits\<close>)
next
  case (WrClose e)
  with assms(2) have s': "s' = writer_done (on_tr (nh_close (nx_p s) e) s)"
    by (simp add: writer_steps_def)
  show ?thesis unfolding s'
    by (rule writer_finishes [OF close_keeps [OF assms(1)]]) (use nx_okD(1) [OF assms(1)] in \<open>simp add: on_tr_def\<close>)
next
  case WrDone
  with assms show ?thesis by (simp add: writer_steps_def)
qed

text \<open>
  A step of the reader, or of the outside, that leaves the writer and the caller where they are: the
  result of the writing may be taken, the registry emptied, the connection closed.
\<close>

lemma writer_cong:
  assumes "writer_ok s" "nx_caller s' = nx_caller s" "nx_writer s' = nx_writer s" "nx_werr s' = nx_werr s"
    "np_writech (nx_conn s') = np_writech (nx_conn s)" "np_write_done (nx_conn s') = np_write_done (nx_conn s)"
    "np_write_err (nx_conn s) = [] \<Longrightarrow> np_write_err (nx_conn s') = []"
    "np_closech (nx_conn s) \<Longrightarrow> np_closech (nx_conn s')"
  shows "writer_ok s'"
  using assms unfolding writer_ok_def by auto

lemma caller_cong:
  assumes "caller_ok s" "nx_caller s' = nx_caller s" "nx_gone s' = nx_gone s" "nx_id s' = nx_id s"
    "np_reqch (nx_conn s') = np_reqch (nx_conn s)" "np_expected (nx_conn s') = np_expected (nx_conn s)"
    "nh_canceler (nx_t s) (nx_id s) = None \<Longrightarrow> nh_canceler (nx_t s') (nx_id s) = None"
  shows "caller_ok s'"
  using assms unfolding caller_ok_def by auto

lemma reader_moves:
  assumes "nx_ok s" "conn_ok (nx_conn s') (nh_net (nx_t s'))"
    "nx_caller s' = nx_caller s" "nx_writer s' = nx_writer s" "nx_werr s' = nx_werr s"
    "np_writech (nx_conn s') = np_writech (nx_conn s)" "np_write_done (nx_conn s') = np_write_done (nx_conn s)"
    "np_write_err (nx_conn s) = [] \<Longrightarrow> np_write_err (nx_conn s') = []"
    "np_closech (nx_conn s) \<Longrightarrow> np_closech (nx_conn s')"
    "nx_gone s' = nx_gone s" "nx_id s' = nx_id s"
    "np_reqch (nx_conn s') = np_reqch (nx_conn s)" "np_expected (nx_conn s') = np_expected (nx_conn s)"
    "nh_canceler (nx_t s) (nx_id s) = None \<Longrightarrow> nh_canceler (nx_t s') (nx_id s) = None"
    "reader_ok s'" "body_ok s'" "limit_ok s'"
  shows "nx_ok s'"
  unfolding nx_ok_def
  using assms(2,15-17) writer_cong [OF nx_okD(2) [OF assms(1)] assms(3-9)]
    caller_cong [OF nx_okD(3) [OF assms(1)] assms(3,10-14)] by blast

text \<open>What a read of the connection changes.\<close>

lemma pc_read_result:
  assumes "pc_read k s = Some ((d, err), s')"
  obtains i e l where "s' = on_cn (\<lambda>c. c\<lparr>np_saw_eof := e, np_read_limit := l\<rparr>) (s\<lparr>nx_in := i\<rparr>)"
    "int (length d) + l = np_read_limit (nx_conn s)" "np_read_limit (nx_conn s) > 0 \<longrightarrow> 0 \<le> l"
    "np_read_limit (nx_conn s) \<le> 0 \<longrightarrow> d = []"
proof -
  let ?l = "np_read_limit (nx_conn s)" let ?e = "np_saw_eof (nx_conn s)"
  have same: "s = on_cn (\<lambda>c. c\<lparr>np_saw_eof := ?e, np_read_limit := ?l\<rparr>) (s\<lparr>nx_in := nx_in s\<rparr>)"
    by (simp add: on_cn_def)
  consider "?l \<le> 0 \<or> nx_closed_conn s" | "\<not> (?l \<le> 0 \<or> nx_closed_conn s)" by blast
  then show thesis
  proof cases
    case 1
    with assms have "d = []" "s' = s" by (auto simp: pc_read_def Let_def split: if_splits)
    then have "s' = on_cn (\<lambda>c. c\<lparr>np_saw_eof := ?e, np_read_limit := ?l\<rparr>) (s\<lparr>nx_in := nx_in s\<rparr>)"
      using same by simp
    then show thesis by (rule that) (simp_all add: \<open>d = []\<close>)
  next
    case 2
    with assms obtain x r where x: "nx_in s = x # r"
      by (cases "nx_in s") (simp_all add: pc_read_def Let_def)
    show thesis
    proof (cases x)
      case (InFail g)
      with assms 2 x have d: "d = []" "s' = (if g = ErrEOF then on_cn (np_saw_eof_update (\<lambda>_. True)) s else s)"
        by (auto simp: pc_read_def Let_def)
      have "s' = on_cn (\<lambda>c. c\<lparr>np_saw_eof := (if g = ErrEOF then True else ?e), np_read_limit := ?l\<rparr>) (s\<lparr>nx_in := nx_in s\<rparr>)"
        by (simp add: d on_cn_def)
      then show thesis by (rule that) (simp_all add: d)
    next
      case (InData w)
      let ?m = "if int k > ?l then nat ?l else k"
      from InData assms 2 x have d: "d = take ?m w"
        "s' = on_cn (np_read_limit_update (\<lambda>l. l - int (length (take ?m w))))
          (s\<lparr>nx_in := (if length w \<le> ?m then r else InData (drop ?m w) # r)\<rparr>)"
        by (auto simp: pc_read_def Let_def simp del: length_take)
      have upd: "np_read_limit_update (\<lambda>l. l - b) c = c\<lparr>np_read_limit := np_read_limit c - b\<rparr>" for b c
        by (cases c) simp
      have "s' = on_cn (\<lambda>c. c\<lparr>np_saw_eof := ?e, np_read_limit := ?l - int (length (take ?m w))\<rparr>)
          (s\<lparr>nx_in := (if length w \<le> ?m then r else InData (drop ?m w) # r)\<rparr>)"
        unfolding d on_cn_def upd by simp
      then show thesis by (rule that) (use 2 in \<open>auto simp: d\<close>)
    qed
  qed
qed

lemma reader_peeks:
  assumes "nx_ok s" "nx_reader s = RdPeek" "s' \<in> set (reader_peek s)"
  shows "nx_ok s'"
proof -
  let ?M = "nh_max_header_size (nx_t s)"
  let ?s = "on_cn (np_read_limit_update (\<lambda>_. ?M)) s"
  have b: "np_rbuf (nx_conn s) = []" using nx_okD(6) [OF assms(1)] assms(2) by (simp add: limit_ok_def)
  from assms(3) b obtain d err s1 where r: "pc_read 4096 ?s = Some ((d, err), s1)"
    by (cases "pc_read 4096 ?s") (auto simp: reader_peek_def on_cn_def Let_def)
  with assms(3) b have s': "s' = on_cn (np_rbuf_update (\<lambda>b. b @ d))
      (s1\<lparr>nx_reader := (if err = None \<and> d = [] then RdPeek else RdPeeked err)\<rparr>)"
    by (simp add: reader_peek_def on_cn_def Let_def)
  obtain i e l where s1: "s1 = on_cn (\<lambda>c. c\<lparr>np_saw_eof := e, np_read_limit := l\<rparr>) (?s\<lparr>nx_in := i\<rparr>)"
    and l0: "int (length d) + l = np_read_limit (nx_conn ?s)" "np_read_limit (nx_conn ?s) > 0 \<longrightarrow> 0 \<le> l"
      "np_read_limit (nx_conn ?s) \<le> 0 \<longrightarrow> d = []"
    using pc_read_result [OF r] by blast
  then have l: "int (length d) + l = ?M" "?M > 0 \<longrightarrow> 0 \<le> l" "?M \<le> 0 \<longrightarrow> d = []"
    by (simp_all add: on_cn_def)
  show ?thesis
  proof (rule reader_moves [OF assms(1)])
    show "limit_ok s'" using l b by (cases "?M > 0") (auto simp: s' s1 limit_ok_def on_cn_def)
    show "reader_ok s'" using nx_okD(4) [OF assms(1)] assms(2) by (auto simp: s' s1 reader_ok_def on_cn_def)
    show "body_ok s'" using nx_okD(5) [OF assms(1)] assms(2) by (auto simp: s' s1 body_ok_def on_cn_def)
  qed (use nx_okD(1) [OF assms(1)] in \<open>simp_all add: s' s1 on_cn_def\<close>)
qed

lemma peek_fail_keeps:
  assumes "nx_ok s"
  shows "nx_ok (peek_fail_locked err s)" "nx_reader (peek_fail_locked err s) = nx_reader s"
  using close_keeps [OF assms] assms by (simp_all add: peek_fail_locked_def on_tr_def)

lemma reader_exits:
  assumes "nx_ok s" "rd_early (nx_reader s) \<or> rd_busy (nx_reader s) \<or> rd_body (nx_reader s) \<or> nx_reader s = RdNext"
  shows "nx_ok (s\<lparr>nx_reader := RdExit\<rparr>)"
proof -
  have n: "nx_reader s \<noteq> RdClose" "nx_reader s \<noteq> RdDone" using assms(2) by auto
  show ?thesis
  proof (rule reader_moves [OF assms(1)])
    show "reader_ok (s\<lparr>nx_reader := RdExit\<rparr>)" using nx_okD(4) [OF assms(1)] n by (simp add: reader_ok_def)
    show "body_ok (s\<lparr>nx_reader := RdExit\<rparr>)" using nx_okD(5) [OF assms(1)] by (simp add: body_ok_def)
    show "limit_ok (s\<lparr>nx_reader := RdExit\<rparr>)" by (simp add: limit_ok_def)
  qed (use nx_okD(1) [OF assms(1)] in simp_all)
qed

lemma reader_peeked_keeps:
  assumes "nx_ok s" "nx_reader s = RdPeeked err"
  shows "nx_ok (reader_peeked err s)"
proof (cases "np_expected (nx_conn s) = 0")
  case True
  then show ?thesis
    using reader_exits [OF peek_fail_keeps(1) [OF assms(1)]] peek_fail_keeps(2) [OF assms(1)] assms(2)
    by (simp add: reader_peeked_def)
next
  case False
  have "nx_ok (s\<lparr>nx_reader := RdTake err\<rparr>)"
  proof (rule reader_moves [OF assms(1)])
    show "reader_ok (s\<lparr>nx_reader := RdTake err\<rparr>)"
      using nx_okD(4) [OF assms(1)] assms(2) False by (simp add: reader_ok_def)
    show "body_ok (s\<lparr>nx_reader := RdTake err\<rparr>)" using nx_okD(5) [OF assms(1)] assms(2) by (simp add: body_ok_def)
    show "limit_ok (s\<lparr>nx_reader := RdTake err\<rparr>)" using nx_okD(6) [OF assms(1)] assms(2) by (simp add: limit_ok_def)
  qed (use nx_okD(1) [OF assms(1)] in simp_all)
  with False show ?thesis by (simp add: reader_peeked_def)
qed

text \<open>A step that takes the request or counts the response: the caller has sent it, and waits or is gone.\<close>

lemma reader_counts:
  assumes "nx_ok s" "conn_ok (nx_conn s') (nh_net (nx_t s'))"
    "nx_caller s' = nx_caller s" "nx_writer s' = nx_writer s" "nx_werr s' = nx_werr s"
    "np_writech (nx_conn s') = np_writech (nx_conn s)" "np_write_done (nx_conn s') = np_write_done (nx_conn s)"
    "np_write_err (nx_conn s') = np_write_err (nx_conn s)" "np_closech (nx_conn s') = np_closech (nx_conn s)"
    "nx_gone s' = nx_gone s" "nx_id s' = nx_id s" "nh_canceler (nx_t s') = nh_canceler (nx_t s)"
    "nx_eofc s' = nx_eofc s" "np_reused (nx_conn s') = np_reused (nx_conn s)" "nx_bpc s' = nx_bpc s" "nx_wait s' = nx_wait s"
    "nx_body s' = nx_body s"
    "\<not> cl_before (nx_caller s)" "cl_done (nx_caller s) \<Longrightarrow> nx_gone s"
    "rd_take (nx_reader s) \<or> rd_busy (nx_reader s)"
    "rd_busy (nx_reader s')" "\<not> rd_over (nx_reader s')" "limit_ok s'"
  shows "nx_ok s'"
proof -
  have n: "\<not> rd_after (nx_reader s)" "\<not> rd_early (nx_reader s')" "\<not> rd_take (nx_reader s')" "\<not> rd_eof (nx_reader s')"
    "\<not> rd_body (nx_reader s')" "nx_reader s' \<noteq> RdDone" "nx_reader s' \<noteq> RdClose" "nx_reader s \<noteq> RdClose" "nx_reader s \<noteq> RdDone"
    using assms(20,21) by (cases "nx_reader s" rule: rd_busy.cases; cases "nx_reader s'" rule: rd_busy.cases; simp)+
  then have b: "nx_bpc s = BoNone" using nx_okD(5) [OF assms(1)] by (simp add: body_ok_def)
  have "writer_ok s'" by (rule writer_cong [OF nx_okD(2) [OF assms(1)]]) (use assms in simp_all)
  moreover have "caller_ok s'"
    using nx_okD(3) [OF assms(1)] assms(3,10,11,12,18,19) by (auto simp: caller_ok_def)
  moreover have "reader_ok s'"
    using nx_okD(4) [OF assms(1)] n assms(3,9,10,13,14,18,19,22) by (simp add: reader_ok_def)
  moreover have "body_ok s'" using n b assms(15) by (simp add: body_ok_def)
  ultimately show ?thesis using assms(2,23) by (simp add: nx_ok_def)
qed

lemma busy_caller:
  assumes "nx_ok s" "rd_busy (nx_reader s)"
  shows "\<not> cl_before (nx_caller s)" "cl_done (nx_caller s) \<Longrightarrow> nx_gone s" "nx_bpc s = BoNone"
    "nx_reader s \<noteq> RdClose" "nx_reader s \<noteq> RdDone"
proof -
  have "\<not> rd_after (nx_reader s)" "nx_reader s \<noteq> RdClose" "nx_reader s \<noteq> RdDone"
    using assms(2) by (cases "nx_reader s" rule: rd_busy.cases; simp)+
  then show "\<not> cl_before (nx_caller s)" "cl_done (nx_caller s) \<Longrightarrow> nx_gone s" "nx_bpc s = BoNone"
    "nx_reader s \<noteq> RdClose" "nx_reader s \<noteq> RdDone"
    using nx_okD(4,5) [OF assms(1)] assms(2) by (auto simp: reader_ok_def body_ok_def)
qed

lemma fails_is:
  "\<exists>g. reader_fails e s = s\<lparr>nx_reader := RdFail g\<rparr>"
  by (auto simp: reader_fails_def)

lemma reader_takes:
  assumes "nx_ok s" "nx_reader s = RdTake err" "s' \<in> set (reader_take err s)"
  shows "nx_ok s'"
proof -
  obtain rc rcs where q: "np_reqch (nx_conn s) = rc # rcs"
    using assms(3) by (cases "np_reqch (nx_conn s)") (simp_all add: reader_take_def)
  have c: "\<not> cl_before (nx_caller s)" "cl_done (nx_caller s) \<Longrightarrow> nx_gone s"
    using nx_okD(3) [OF assms(1)] q by (auto simp: caller_ok_def)
  show ?thesis
  proof (cases err)
    case None
    with assms(3) q have s': "s' = on_cn (np_reqch_update (\<lambda>_. rcs)) (s\<lparr>nx_reader := RdRead rc True\<rparr>)"
      by (simp add: reader_take_def on_cn_def)
    show ?thesis
      by (rule reader_counts [OF assms(1)])
        (use nx_okD(1,6) [OF assms(1)] assms(2) c in \<open>simp_all add: s' on_cn_def limit_ok_def\<close>)
  next
    case (Some e)
    with assms(3) q fails_is [of "NhReadFromServer e" "on_cn (np_reqch_update (\<lambda>_. rcs)) s\<lparr>nx_close_err := NhReadFromServer e\<rparr>"]
    obtain g where s': "s' = (on_cn (np_reqch_update (\<lambda>_. rcs)) s)\<lparr>nx_close_err := NhReadFromServer e, nx_reader := RdFail g\<rparr>"
      by (auto simp: reader_take_def on_cn_def)
    show ?thesis
      by (rule reader_counts [OF assms(1)])
        (use nx_okD(1,6) [OF assms(1)] assms(2) c in \<open>simp_all add: s' on_cn_def limit_ok_def\<close>)
  qed
qed

lemma reader_busy_fails:
  assumes "nx_ok s" "rd_busy (nx_reader s)"
  shows "nx_ok (reader_fails e s)"
proof -
  obtain g where g: "reader_fails e s = s\<lparr>nx_reader := RdFail g\<rparr>" using fails_is by blast
  show ?thesis unfolding g
    by (rule reader_counts [OF assms(1)])
      (use nx_okD(1) [OF assms(1)] busy_caller [OF assms] assms(2) in \<open>simp_all add: limit_ok_def\<close>)
qed

lemma reader_read_keeps:
  assumes "nx_ok s" "nx_reader s = RdRead rc first" "s' \<in> set (reader_read xe rc first s)"
  shows "nx_ok s'"
proof -
  have busy: "rd_busy (nx_reader s)" using assms(2) by simp
  note c = busy_caller [OF assms(1) busy] nx_okD(1,6) [OF assms(1)] assms(2)
  show ?thesis
  proof (cases "xe_parse xe (hq_http (rc_req rc)) (np_rbuf (nx_conn s))")
    case (PError e)
    with assms(3) reader_busy_fails [OF assms(1) busy] show ?thesis by (simp add: reader_read_def)
  next
    case (PResponse r k)
    show ?thesis
    proof (cases "first \<and> rs_code r = 100")
      case True
      with assms(3) PResponse have s': "s' = on_cn (np_read_limit_update (\<lambda>_. nh_max_header_size (nx_t s)))
          ((on_cn (np_rbuf_update (drop k)) s)\<lparr>nx_reader := RdRead rc False\<rparr>)"
        by (simp add: reader_read_def on_cn_def)
      have "int (length (np_rbuf (nx_conn s))) \<le> max 0 (nh_max_header_size (nx_t s))"
        using c(7) assms(2) True by (cases "np_rbuf (nx_conn s) = []") (auto simp: limit_ok_def)
      moreover have "int (length (np_rbuf (nx_conn s)) - k) \<le> int (length (np_rbuf (nx_conn s)))" by simp
      ultimately have "int (length (np_rbuf (nx_conn s)) - k) \<le> max 0 (nh_max_header_size (nx_t s))" by linarith
      then have "limit_ok s'" by (simp add: s' on_cn_def limit_ok_def)
      then show ?thesis by (intro reader_counts [OF assms(1)]) (use c in \<open>simp_all add: s' on_cn_def\<close>)
    next
      case False
      with assms(3) PResponse have s': "s' = reader_response rc r (on_cn (np_rbuf_update (drop k)) s)"
        by (auto simp: reader_read_def)
      show ?thesis
        by (rule reader_counts [OF assms(1)])
          (use c in \<open>simp_all add: s' reader_response_def Let_def on_cn_def limit_ok_def conn_ok_def\<close>)
    qed
  next
    case PMore
    then obtain d err s1 where rd: "pc_read 4096 s = Some ((d, err), s1)"
      using assms(3) by (cases "pc_read 4096 s") (auto simp: reader_read_def)
    obtain i e l where s1: "s1 = on_cn (\<lambda>c. c\<lparr>np_saw_eof := e, np_read_limit := l\<rparr>) (s\<lparr>nx_in := i\<rparr>)"
      and l: "int (length d) + l = np_read_limit (nx_conn s)" "np_read_limit (nx_conn s) > 0 \<longrightarrow> 0 \<le> l"
        "np_read_limit (nx_conn s) \<le> 0 \<longrightarrow> d = []"
      using pc_read_result [OF rd] by blast
    have s1_ok: "nx_ok s1" if "d = []"
      by (rule reader_counts [OF assms(1)])
        (use c l that in \<open>simp_all add: s1 on_cn_def limit_ok_def\<close>)
    show ?thesis
    proof (cases err)
      case None
      with assms(3) PMore rd have s': "s' = on_cn (np_rbuf_update (\<lambda>b. b @ d)) s1" by (simp add: reader_read_def)
      have "limit_ok s'" using c(7) assms(2) l
        by (cases "np_read_limit (nx_conn s) > 0") (auto simp: s' s1 on_cn_def limit_ok_def)
      then show ?thesis
        by (intro reader_counts [OF assms(1)]) (use c in \<open>simp_all add: s' s1 on_cn_def\<close>)
    next
      case (Some e)
      then have "d = []" using rd
        by (auto simp: pc_read_def Let_def split: if_splits list.splits incoming.splits)
      with s1_ok have "nx_ok s1" "rd_busy (nx_reader s1)" by (simp_all add: s1 on_cn_def assms(2))
      with reader_busy_fails assms(3) PMore rd Some show ?thesis by (simp add: reader_read_def)
    qed
  qed
qed

text \<open>A response or an error is handed over in the caller's \<open>select\<close>.\<close>

lemma handed_over:
  assumes "nx_ok s" "rd_busy (nx_reader s)" "nx_caller s = ClSelect"
  shows "nx_ok (s\<lparr>nx_reader := RdExit, nx_caller := ClMap (Some e)\<rparr>)"
    and "\<not> nx_alive s \<Longrightarrow> nx_ok (s\<lparr>nx_reader := RdNext, nx_gone := True, nx_caller := ClDone (Inr r)\<rparr>)"
    and "nx_ok ((open_body (s\<lparr>nx_reader := RdBody rc\<rparr>))\<lparr>nx_gone := True, nx_caller := ClDone (Inr r)\<rparr>)"
proof -
  note c = busy_caller [OF assms(1,2)] and ok = nx_okD [OF assms(1)]
  show "nx_ok (s\<lparr>nx_reader := RdExit, nx_caller := ClMap (Some e)\<rparr>)"
    using ok c assms(3) unfolding nx_ok_def by (intro conjI; simp add: nx_ok_parts)
  show "nx_ok (s\<lparr>nx_reader := RdNext, nx_gone := True, nx_caller := ClDone (Inr r)\<rparr>)" if "\<not> nx_alive s"
    using ok c assms(3) that unfolding nx_ok_def by (intro conjI; simp add: nx_ok_parts)
  show "nx_ok ((open_body (s\<lparr>nx_reader := RdBody rc\<rparr>))\<lparr>nx_gone := True, nx_caller := ClDone (Inr r)\<rparr>)"
    using ok c assms(3) unfolding nx_ok_def by (intro conjI; simp add: nx_ok_parts open_body_def)
qed

lemma reader_sends_keeps:
  assumes "nx_ok s" "rd_busy (nx_reader s)" "s' \<in> set (reader_sends re next f s)"
    "nx_caller s = ClSelect \<Longrightarrow> nx_ok (caller_gets re (f (s\<lparr>nx_reader := next\<rparr>)))"
  shows "nx_ok s'"
  using assms reader_exits [OF assms(1)] by (auto simp: reader_sends_def split: if_splits)

lemma reader_pool_keeps:
  assumes "nx_ok s" "nx_reader s = RdPool n" "s' \<in> set (reader_pool n s)"
  shows "nx_ok s'"
proof -
  obtain w ce where s': "s' = (on_cn (np_write_err_update (\<lambda>_. w)) s)\<lparr>nx_close_err := ce, nx_alive := False,
      nx_reader := pool_continue n\<rparr>" and w: "np_write_err (nx_conn s) = [] \<Longrightarrow> w = []"
  proof -
    note wit = that
    have same: "on_cn (np_write_err_update (\<lambda>_. np_write_err (nx_conn s))) s = s"
    proof -
      have "np_write_err_update (\<lambda>_. np_write_err c) c = c" for c by (cases c) simp
      then show ?thesis by (simp add: on_cn_def)
    qed
    have no: thesis if "s' = s\<lparr>nx_alive := False, nx_reader := pool_continue n\<rparr>"
      by (rule wit [where w = "np_write_err (nx_conn s)" and ce = "nx_close_err s"]) (simp_all add: same \<open>s' = _\<close>)
    show thesis
    proof (cases "nx_alive s \<and> \<not> np_saw_eof (nx_conn s) \<and> np_write_err (nx_conn s) \<noteq> []")
      case False
      then have "s' = s\<lparr>nx_alive := False, nx_reader := pool_continue n\<rparr>"
        using assms(3) by (cases "np_write_err (nx_conn s)") (auto simp: reader_pool_def Let_def split: if_splits)
      then show thesis by (rule no)
    next
      case True
      then obtain e es where e: "np_write_err (nx_conn s) = e # es" by (cases "np_write_err (nx_conn s)") auto
      show thesis
        by (rule wit [where w = es and ce = "if e \<noteq> None then nx_close_err s else NhKeepAlivesDisabled"])
          (use True e assms(3) in \<open>simp_all add: reader_pool_def Let_def nh_try_put_idle_def on_cn_def split: if_splits\<close>)
    qed
  qed
  note ok = nx_okD [OF assms(1)] assms(2)
  show ?thesis
  proof (rule reader_moves [OF assms(1)])
    show "reader_ok s'" using ok
      by (cases n) (auto simp: s' on_cn_def reader_ok_def pool_continue_def split: if_splits)
    show "body_ok s'" using ok
      by (cases n) (auto simp: s' on_cn_def body_ok_def pool_continue_def split: if_splits)
    show "limit_ok s'" by (cases n) (simp_all add: s' limit_ok_def pool_continue_def)
  qed (use ok(1) w in \<open>simp_all add: s' on_cn_def\<close>)
qed

lemma reader_no_body_keeps:
  assumes "nx_ok s" "nx_reader s = RdNoBody rc r"
  shows "nx_ok (reader_no_body rc r s)"
proof (rule reader_moves [OF assms(1)])
  show "reader_ok (reader_no_body rc r s)" using nx_okD(4) [OF assms(1)] assms(2)
    by (simp add: reader_no_body_def on_tr_def set_req_canceler_def reader_ok_def)
  show "body_ok (reader_no_body rc r s)" using nx_okD(5) [OF assms(1)] assms(2)
    by (simp add: reader_no_body_def on_tr_def set_req_canceler_def body_ok_def)
  show "limit_ok (reader_no_body rc r s)" by (simp add: reader_no_body_def limit_ok_def)
qed (use nx_okD(1) [OF assms(1)] in \<open>simp_all add: reader_no_body_def on_tr_def set_req_canceler_def\<close>)

lemma reader_next:
  assumes "nx_ok s" "rd_body (nx_reader s)" "alive = False"
  shows "nx_ok (s\<lparr>nx_alive := alive, nx_reader := RdNext\<rparr>)"
proof (rule reader_moves [OF assms(1)])
  show "reader_ok (s\<lparr>nx_alive := alive, nx_reader := RdNext\<rparr>)" using nx_okD(4) [OF assms(1)] assms(2,3)
    by (cases "nx_reader s") (simp_all add: reader_ok_def)
  show "body_ok (s\<lparr>nx_alive := alive, nx_reader := RdNext\<rparr>)" using nx_okD(5) [OF assms(1)]
    by (simp add: body_ok_def)
qed (use nx_okD(1) [OF assms(1)] in \<open>simp_all add: limit_ok_def\<close>)

lemma cancel_keeps:
  assumes "nx_ok s"
  shows "nx_ok (on_tr (cancel_request_with (nx_id s) e) s)"
  using nx_okD [OF assms] unfolding nx_ok_def by (intro conjI; simp add: step_simps)

lemma cancel_any_keeps:
  assumes "nx_ok s"
  shows "nx_ok (on_tr (cancel_request_with r e) s)"
  using nx_okD [OF assms] unfolding nx_ok_def by (intro conjI; simp add: step_simps)

lemma cancel_request_eq: "cancel_request r = cancel_request_with r NhRequestCanceled"
  by (rule ext) (simp add: cancel_request_def)

lemma reader_body_keeps:
  assumes "nx_ok s" "nx_reader s = RdBody rc" "s' \<in> set (reader_body rc s)"
  shows "nx_ok s'"
proof -
  let ?r = "hq_id (rc_req rc)"
  note ok = nx_okD [OF assms(1)] assms(2)
  consider b bs where "nx_wait s = b # bs" "s' = (on_tr (set_req_canceler ?r None) s)\<lparr>nx_wait := bs,
        nx_alive := (nx_alive s \<and> b), nx_reader := RdPool (ThenEof b)\<rparr>"
    | e where "s' = on_tr (cancel_request_with ?r e) (s\<lparr>nx_alive := False, nx_reader := RdNext\<rparr>)"
    | "s' = s\<lparr>nx_alive := False, nx_reader := RdNext\<rparr>"
    using assms(3) by (cases "nx_wait s"; cases "nx_ctx s") (auto simp: reader_body_def cancel_request_eq Let_def split: if_splits)
  then show ?thesis
  proof cases
    case 1
    show ?thesis
    proof (rule reader_moves [OF assms(1)])
      show "reader_ok s'" using ok(4,7) by (simp add: 1 on_tr_def set_req_canceler_def reader_ok_def)
      show "body_ok s'" using ok(5,7) 1(1)
        by (cases "nx_bpc s"; cases b) (simp_all add: 1(2) on_tr_def set_req_canceler_def body_ok_def)
    qed (use ok(1) in \<open>simp_all add: 1 on_tr_def set_req_canceler_def limit_ok_def\<close>)
  next
    case 2
    then show ?thesis using cancel_any_keeps [OF reader_next [OF assms(1) _ refl]] assms(2) by simp
  next
    case 3
    then show ?thesis using reader_next [OF assms(1) _ refl] assms(2) by simp
  qed
qed

lemma released_keeps:
  assumes "nx_ok s" "nx_bpc s = BoEof"
  shows "nx_reader s = RdEof \<Longrightarrow> nx_ok (body_released (s\<lparr>nx_reader := RdNext\<rparr>))"
    and "nx_eofc s \<Longrightarrow> nx_ok (body_released s)"
proof -
  note ok = nx_okD [OF assms(1)] assms(2)
  show "nx_ok (body_released (s\<lparr>nx_reader := RdNext\<rparr>))" if "nx_reader s = RdEof"
    using ok that unfolding nx_ok_def by (intro conjI; simp add: nx_ok_parts body_released_def)
  show "nx_ok (body_released s)" if "nx_eofc s"
  proof -
    have "nx_reader s = RdClose \<or> nx_reader s = RdDone" using ok(4) that by (simp add: reader_ok_def)
    then have "rd_ending (nx_reader s)" "\<not> rd_eof (nx_reader s)" "\<not> rd_body (nx_reader s)" by auto
    then show ?thesis using ok unfolding nx_ok_def by (intro conjI; simp add: nx_ok_parts body_released_def)
  qed
qed

lemma reader_ends:
  assumes "nx_ok s"
  shows "nx_reader s = RdExit \<Longrightarrow> nx_ok (reader_exit s)"
    and "nx_reader s = RdClose \<Longrightarrow> nx_ok (reader_close s)"
proof -
  note ok = nx_okD [OF assms]
  show "nx_ok (reader_exit s)" if "nx_reader s = RdExit"
    using ok that unfolding nx_ok_def by (intro conjI; simp add: nx_ok_parts reader_exit_def)
  show "nx_ok (reader_close s)" if "nx_reader s = RdClose"
    using ok that unfolding nx_ok_def by (intro conjI; simp add: step_simps reader_close_def nh_remove_idle_def)
qed

lemma reader_keeps:
  assumes "nx_ok s" "s' \<in> set (reader_steps xe s)"
  shows "nx_ok s'"
proof (cases "nx_reader s")
  case RdPeek
  then show ?thesis using assms reader_peeks by (simp add: reader_steps_def)
next
  case (RdPeeked e)
  then show ?thesis using assms reader_peeked_keeps by (simp add: reader_steps_def)
next
  case (RdTake e)
  then show ?thesis using assms reader_takes by (simp add: reader_steps_def)
next
  case (RdRead rc f)
  then show ?thesis using assms reader_read_keeps by (simp add: reader_steps_def)
next
  case (RdFail e)
  with assms(2) have "s' \<in> set (reader_sends \<lparr>re_res = None, re_err = Some e\<rparr> RdExit id s)"
    by (simp add: reader_steps_def)
  with reader_sends_keeps [OF assms(1)] handed_over(1) [OF assms(1)] RdFail show ?thesis
    by (simp add: caller_gets_def)
next
  case (RdNoBody rc r)
  then show ?thesis using assms reader_no_body_keeps by (simp add: reader_steps_def)
next
  case (RdPool n)
  then show ?thesis using assms reader_pool_keeps by (simp add: reader_steps_def)
next
  case (RdSend r)
  then have "\<not> nx_alive s" using nx_okD(4) [OF assms(1)] by (simp add: reader_ok_def)
  moreover from assms(2) RdSend have "s' \<in> set (reader_sends \<lparr>re_res = Some r, re_err = None\<rparr> RdNext id s)"
    by (simp add: reader_steps_def)
  ultimately show ?thesis
    using reader_sends_keeps [OF assms(1)] handed_over(2) [OF assms(1)] RdSend by (simp add: caller_gets_def)
next
  case (RdSendBody rc r)
  with assms(2) have "s' \<in> set (reader_sends \<lparr>re_res = Some (ungzip_header rc r), re_err = None\<rparr> (RdBody rc) open_body s)"
    by (simp add: reader_steps_def)
  with reader_sends_keeps [OF assms(1)] handed_over(3) [OF assms(1)] RdSendBody show ?thesis
    by (simp add: caller_gets_def open_body_def)
next
  case (RdBody rc)
  then show ?thesis using assms reader_body_keeps by (simp add: reader_steps_def)
next
  case RdEof
  then show ?thesis using assms released_keeps(1) by (simp add: reader_steps_def split: if_splits)
next
  case RdNext
  then have "\<not> nx_alive s" using nx_okD(4) [OF assms(1)] by (simp add: reader_ok_def)
  with RdNext show ?thesis using assms(2) reader_exits [OF assms(1)] by (simp add: reader_steps_def)
qed (use assms reader_ends in \<open>simp_all add: reader_steps_def\<close>)

text \<open>A call of the client on the body changes only what belongs to the body.\<close>

lemma body_moves:
  assumes "nx_ok s" "body_ok (s\<lparr>nx_body := b, nx_wait := w, nx_bpc := c, nx_body_res := r\<rparr>)"
  shows "nx_ok (s\<lparr>nx_body := b, nx_wait := w, nx_bpc := c, nx_body_res := r\<rparr>)"
proof (rule reader_moves [OF assms(1)])
  show "reader_ok (s\<lparr>nx_body := b, nx_wait := w, nx_bpc := c, nx_body_res := r\<rparr>)"
    using nx_okD(4) [OF assms(1)] by (simp add: reader_ok_def)
  show "limit_ok (s\<lparr>nx_body := b, nx_wait := w, nx_bpc := c, nx_body_res := r\<rparr>)"
    using nx_okD(6) [OF assms(1)] by (simp add: limit_ok_def)
qed (use nx_okD(1) [OF assms(1)] assms(2) in simp_all)

lemma body_result: "nx_ok s \<Longrightarrow> nx_ok (s\<lparr>nx_body_res := r\<rparr>)"
  using body_moves [where s = s and b = "nx_body s" and w = "nx_wait s" and c = "nx_bpc s" and r = r] nx_okD(5) [of s]
  by (simp add: body_ok_def)

lemma saw_eof_keeps:
  assumes "nx_ok s"
  shows "nx_ok (on_cn (np_saw_eof_update f) s)"
proof (rule reader_moves [OF assms])
  show "reader_ok (on_cn (np_saw_eof_update f) s)" using nx_okD(4) [OF assms] by (simp add: on_cn_def reader_ok_def)
  show "body_ok (on_cn (np_saw_eof_update f) s)" using nx_okD(5) [OF assms] by (simp add: on_cn_def body_ok_def)
  show "limit_ok (on_cn (np_saw_eof_update f) s)" using nx_okD(6) [OF assms] by (simp add: on_cn_def limit_ok_def)
qed (use nx_okD(1) [OF assms] in \<open>simp_all add: on_cn_def\<close>)

lemma open_body_facts:
  assumes "nx_ok s" "nx_bpc s = BoOpen"
  shows "bs_early (nx_body s)" "bs_rerr (nx_body s) \<noteq> None \<Longrightarrow> \<not> bs_fn (nx_body s)" "rd_after (nx_reader s)"
    "\<not> rd_eof (nx_reader s)" "rd_body (nx_reader s) \<Longrightarrow> True \<notin> set (nx_wait s)"
    "nx_reader s = RdPool (ThenEof b) \<Longrightarrow> \<not> b"
    "length (nx_wait s) \<le> (if bs_fn (nx_body s) then 0 else 1) + (if bs_closed (nx_body s) then 1 else 0)"
  using nx_okD(5) [OF assms(1)] assms(2) by (auto simp: body_ok_def split: if_splits)

lemma body_read_now:
  assumes "nx_ok s" "nx_bpc s = BoOpen" "\<not> bs_closed (nx_body s)" "bs_rerr (nx_body s) = None"
    "s' \<in> set (body_cond_fn (Some e) (s\<lparr>nx_body := (nx_body s)\<lparr>bs_rerr := Some e\<rparr>\<rparr>))"
  shows "nx_ok s'"
proof (cases "bs_fn (nx_body s)")
  case False
  with assms(5) have s': "s' = s\<lparr>nx_body := (nx_body s)\<lparr>bs_rerr := Some e\<rparr>, nx_wait := nx_wait s, nx_bpc := BoOpen, nx_body_res := Some e\<rparr>"
    using assms(2) by (simp add: body_cond_fn_def)
  show ?thesis unfolding s'
    by (rule body_moves [OF assms(1)])
      (use nx_okD(5) [OF assms(1)] assms(2) False in \<open>simp add: body_ok_def\<close>)
next
  case True
  then have w: "nx_wait s = []" using open_body_facts(7) [OF assms(1,2)] assms(3) by simp
  show ?thesis
  proof (cases "e = NhOther ErrEOF")
    case eof: True
    with assms(5) True w have s': "s' = s\<lparr>nx_body := (nx_body s)\<lparr>bs_rerr := Some e\<rparr>, nx_wait := [True], nx_bpc := BoEof, nx_body_res := nx_body_res s\<rparr>"
      by (simp add: body_cond_fn_def body_fn_def Let_def)
    show ?thesis unfolding s'
      by (rule body_moves [OF assms(1)])
        (use nx_okD(5) [OF assms(1)] assms(2,3) True w in \<open>simp add: body_ok_def\<close>)
  next
    case False
    let ?c = "nh_canceled (nx_p s) (nx_t s)"
    from False assms(5) True w have s': "s' = s\<lparr>nx_body := (nx_body s)\<lparr>bs_rerr := Some e, bs_fn := False\<rparr>,
        nx_wait := [False], nx_bpc := nx_bpc s, nx_body_res := (if ?c \<noteq> None then ?c else Some e)\<rparr>"
      by (simp add: body_cond_fn_def body_fn_def Let_def)
    show ?thesis unfolding s'
      by (rule body_moves [OF assms(1)])
        (use nx_okD(5) [OF assms(1)] assms(2,3) True w in \<open>simp add: body_ok_def\<close>)
  qed
qed

lemma body_read_keeps:
  assumes "nx_ok s" "nx_bpc s = BoOpen" "s' \<in> set (body_read err saw s)"
  shows "nx_ok s'"
proof -
  let ?s = "if saw then on_cn (np_saw_eof_update (\<lambda>_. True)) s else s"
  have s: "nx_ok ?s" "nx_bpc ?s = BoOpen" "nx_body ?s = nx_body s"
    using saw_eof_keeps [OF assms(1)] assms(1,2) by (simp_all add: on_cn_def)
  consider "bs_closed (nx_body s)" | "\<not> bs_closed (nx_body s)" "bs_rerr (nx_body s) \<noteq> None"
    | "\<not> bs_closed (nx_body s)" "bs_rerr (nx_body s) = None" by blast
  then show ?thesis
  proof cases
    case 1
    with assms(3) body_result [OF assms(1)] show ?thesis by (simp add: body_read_def)
  next
    case 2
    with assms(3) body_result [OF assms(1)] show ?thesis by (simp add: body_read_def)
  next
    case 3
    show ?thesis
    proof (cases err)
      case None
      with assms(3) 3 body_result [OF s(1)] show ?thesis by (simp add: body_read_def Let_def)
    next
      case (Some e)
      with assms(3) 3 have "s' \<in> set (body_cond_fn (Some e) (?s\<lparr>nx_body := (nx_body ?s)\<lparr>bs_rerr := Some e\<rparr>\<rparr>))"
        by (simp add: body_read_def Let_def)
      from body_read_now [OF s(1,2) _ _ this] 3 s(3) show ?thesis by simp
    qed
  qed
qed

lemma body_close_keeps:
  assumes "nx_ok s" "nx_bpc s = BoOpen" "s' \<in> set (body_close_signal err s)"
  shows "nx_ok s'"
proof (cases "bs_closed (nx_body s)")
  case True
  with assms(3) body_result [OF assms(1)] show ?thesis by (simp add: body_close_signal_def)
next
  case open_: False
  note facts = open_body_facts [OF assms(1,2)]
  show ?thesis
  proof (cases "bs_rerr (nx_body s) = Some (NhOther ErrEOF)")
    case True
    with facts(2) have "\<not> bs_fn (nx_body s)" by simp
    with assms(2,3) open_ True facts(1) have s': "s' = s\<lparr>nx_body := (nx_body s)\<lparr>bs_closed := True\<rparr>, nx_wait := nx_wait s,
        nx_bpc := BoOpen, nx_body_res := err\<rparr>"
      by (simp add: body_close_signal_def body_cond_fn_def Let_def)
    show ?thesis unfolding s'
      by (rule body_moves [OF assms(1)]) (use nx_okD(5) [OF assms(1)] assms(2) open_ in \<open>simp add: body_ok_def split: if_splits\<close>)
  next
    case False
    with facts(1,7) assms(2,3) open_ have s': "s' = s\<lparr>nx_body := (nx_body s)\<lparr>bs_closed := True\<rparr>, nx_wait := nx_wait s @ [False],
        nx_bpc := BoOpen, nx_body_res := None\<rparr>"
      by (simp add: body_close_signal_def Let_def split: if_splits)
    show ?thesis unfolding s'
      by (rule body_moves [OF assms(1)]) (use nx_okD(5) [OF assms(1)] assms(2) open_ in \<open>simp add: body_ok_def split: if_splits\<close>)
  qed
qed

lemma body_steps_keep: "nx_ok s \<Longrightarrow> s' \<in> set (body_steps s) \<Longrightarrow> nx_ok s'"
  using released_keeps(2) by (simp add: body_steps_def split: if_splits)

lemma nx_stepsE:
  assumes "s' \<in> set (nx_steps xe s)"
  obtains "s' \<in> set (caller_steps s)" | "s' \<in> set (writer_steps xe s)" | "s' \<in> set (reader_steps xe s)"
    | "s' \<in> set (body_steps s)"
  using assms by (auto simp: nx_steps_def)

lemma nx_steps_keep:
  assumes "nx_ok s" "s' \<in> set (nx_steps xe s)"
  shows "nx_ok s'"
proof -
  consider "s' \<in> set (caller_steps s)" | "s' \<in> set (writer_steps xe s)" | "s' \<in> set (reader_steps xe s)"
    | "s' \<in> set (body_steps s)"
    using assms(2) by (rule nx_stepsE)
  then show ?thesis
    by cases (fact caller_keeps [OF assms(1)] writer_keeps [OF assms(1)] reader_keeps [OF assms(1)]
        body_steps_keep [OF assms(1)])+
qed

lemma outside_keeps:
  assumes "nx_ok s"
  shows "nx_ok (s\<lparr>nx_in := i\<rparr>)" "nx_ok (s\<lparr>nx_cancel := b\<rparr>)" "nx_ok (s\<lparr>nx_ctx := e\<rparr>)"
proof -
  note ok = nx_okD [OF assms]
  show "nx_ok (s\<lparr>nx_in := i\<rparr>)" using ok unfolding nx_ok_def by (intro conjI; simp add: nx_ok_parts)
  show "nx_ok (s\<lparr>nx_cancel := b\<rparr>)" using ok unfolding nx_ok_def by (intro conjI; simp add: nx_ok_parts)
  show "nx_ok (s\<lparr>nx_ctx := e\<rparr>)" using ok unfolding nx_ok_def by (intro conjI; simp add: nx_ok_parts)
qed

lemma nx_step_keeps: "nx_step xe s s' \<Longrightarrow> nx_ok s \<Longrightarrow> nx_ok s'"
proof (induction rule: nx_step.induct)
  case (inner s' s)
  then show ?case by (rule_tac nx_steps_keep)
next
  case (cancel_called s)
  then show ?case using cancel_any_keeps by (simp add: cancel_request_eq)
next
  case (body_is_read s s' err saw)
  then show ?case by (rule_tac body_read_keeps)
next
  case (body_is_closed s s' err)
  then show ?case by (rule_tac body_close_keeps)
qed (simp_all add: outside_keeps)

lemma nx_reach_ok: "nx_reach xe s0 s \<Longrightarrow> nx_ok s0 \<Longrightarrow> nx_ok s"
  by (induction rule: nx_reach.induct) (auto intro: nx_step_keeps)

end
