(* ===== verification/Machines.thy ===== *)
theory Machines
  imports Go_Prelude
begin

text \<open>
  What the step relations of the components share. A component whose operations, or whose goroutines, take
  turns in any order is a relation from a state to the next one; the contracts here are what its invariant and
  its measure promise, and the lemmas what follows for runs of any length.
\<close>

section \<open>Invariants\<close>

locale kept_by_steps =
  fixes step :: "'s \<Rightarrow> 's \<Rightarrow> bool" and inv :: "'s \<Rightarrow> bool"
  assumes kept: "inv s \<Longrightarrow> step s t \<Longrightarrow> inv t"
begin

lemma kept_run: "step\<^sup>*\<^sup>* s t \<Longrightarrow> inv s \<Longrightarrow> inv t"
proof (induction rule: rtranclp_induct)
  case (step t u)
  show ?case by (rule kept [OF step.IH [OF step.prems] step.hyps(2)])
qed

lemma kept_steps: "(step ^^ n) s t \<Longrightarrow> inv s \<Longrightarrow> inv t"
  by (rule kept_run [OF relpowp_imp_rtranclp])

end

section \<open>Measures\<close>

locale measured_steps = kept_by_steps +
  fixes weight :: "'a \<Rightarrow> nat"
  assumes lighter: "inv s \<Longrightarrow> step s t \<Longrightarrow> weight t < weight s"
begin

lemma steps_bounded:
  assumes "inv s"
  shows "(step ^^ n) s t \<Longrightarrow> n + weight t \<le> weight s"
proof (induction n arbitrary: t)
  case (Suc n)
  then obtain u where u: "(step ^^ n) s u" "step u t" by auto
  have "weight t < weight u" by (rule lighter [OF kept_steps [OF u(1) assms] u(2)])
  with Suc.IH [OF u(1)] show ?case by simp
qed simp

text \<open>There is a run to a state from which no step is possible, and no run that never ends.\<close>

lemma reaches_end: "inv s \<Longrightarrow> \<exists>t. step\<^sup>*\<^sup>* s t \<and> (\<forall>u. \<not> step t u)"
proof (induction "weight s" arbitrary: s rule: less_induct)
  case less
  show ?case
  proof (cases "\<exists>u. step s u")
    case True
    then obtain u where u: "step s u" by blast
    obtain t where "step\<^sup>*\<^sup>* u t" "\<forall>v. \<not> step t v"
      using less.hyps [OF lighter [OF less.prems u] kept [OF less.prems u]] by blast
    with converse_rtranclp_into_rtranclp [of step, OF u] show ?thesis by blast
  qed auto
qed

lemma no_endless_run:
  assumes "inv (f 0)"
  shows "\<exists>i. \<not> step (f i) (f (Suc i))"
proof (rule ccontr)
  assume "\<not> ?thesis"
  then have s: "step (f i) (f (Suc i))" for i by blast
  have "(step ^^ n) (f 0) (f n)" for n
    by (induction n) (use s in auto)
  from steps_bounded [OF assms this] have "n + weight (f n) \<le> weight (f 0)" for n .
  from this [of "Suc (weight (f 0))"] show False by simp
qed

end

end
