(* ===== verification/Nonhttp_Live.thy ===== *)
theory Nonhttp_Live
  imports Nonhttp_Safety Machines
begin

text \<open>
  The exchange of \<open>Nonhttp_Exchange\<close> comes to an end: every step of a goroutine makes a measure
  smaller, so the goroutines do only so many steps between two events of the outside; and once the
  connection is closed, as long as one of them has not ended, one of them can go on.
\<close>

section \<open>The measure\<close>

fun rd_rank :: "reader_pc \<Rightarrow> nat" where
  "rd_rank RdPeek = 20"
| "rd_rank (RdPeeked e) = 19"
| "rd_rank (RdTake e) = 18"
| "rd_rank (RdRead rc f) = (if f then 17 else 16)"
| "rd_rank (RdFail e) = 10"
| "rd_rank (RdNoBody rc r) = 15"
| "rd_rank (RdPool (ThenSend r)) = 14"
| "rd_rank (RdSend r) = 13"
| "rd_rank (RdSendBody rc r) = 15"
| "rd_rank (RdBody rc) = 14"
| "rd_rank (RdPool (ThenEof b)) = 12"
| "rd_rank RdEof = 11"
| "rd_rank RdNext = 9"
| "rd_rank RdExit = 8"
| "rd_rank RdClose = 7"
| "rd_rank RdDone = 0"

fun wr_rank :: "writer_pc \<Rightarrow> nat" where
  "wr_rank WrSelect = 2"
| "wr_rank (WrWrite j k) = 12"
| "wr_rank (WrFlush j k e) = 11"
| "wr_rank (WrTell e) = 10"
| "wr_rank (WrReport e) = 9"
| "wr_rank (WrClose e) = 3"
| "wr_rank WrDone = 0"

fun cl_rank :: "caller_pc \<Rightarrow> nat" where
  "cl_rank ClStart = 40"
| "cl_rank ClWrite = 39"
| "cl_rank ClReq = 20"
| "cl_rank ClSelect = 15"
| "cl_rank (ClMap e) = 5"
| "cl_rank (ClPanic m) = 0"
| "cl_rank (ClDone r) = 0"

fun in_weight :: "incoming list \<Rightarrow> nat" where
  "in_weight [] = 0"
| "in_weight (InData d # r) = length d + 1 + in_weight r"
| "in_weight (InFail e # r) = 1 + in_weight r"

definition nx_measure :: "nx \<Rightarrow> nat" where
  "nx_measure s = rd_rank (nx_reader s) + in_weight (nx_in s) + wr_rank (nx_writer s) +
     12 * length (np_writech (nx_conn s)) + 2 * length (nx_werr s) + cl_rank (nx_caller s) +
     (if nx_watch_cancel s then 1 else 0) + (if nx_watch_ctx s then 1 else 0) + (if nx_bpc s = BoEof then 1 else 0)"

lemma caller_decreases:
  assumes "s' \<in> set (caller_steps s)"
  shows "nx_measure s' < nx_measure s"
proof (cases "nx_caller s")
  case ClStart
  with assms show ?thesis
    by (cases "nh_canceler (nx_t s) (nx_id s)")
      (simp_all add: caller_steps_def replace_req_canceler_def put_or_close_closes nx_measure_def on_cn_def)
next
  case ClWrite
  with assms show ?thesis by (simp add: caller_steps_def nx_measure_def on_cn_def split: if_splits)
next
  case ClReq
  with assms show ?thesis by (simp add: caller_steps_def nx_measure_def on_cn_def split: if_splits)
next
  case ClSelect
  with assms consider "s' \<in> set (select_write_err s)" | "s' \<in> set (select_closed s)" | "s' \<in> set (select_timer s)"
    | "s' \<in> set (select_cancel s)" | "s' \<in> set (select_ctx s)"
    by (auto simp: caller_steps_def caller_select_def)
  then show ?thesis
  proof cases
    case 1
    then obtain r es where w: "nx_werr s = r # es" by (cases "nx_werr s") (simp_all add: select_write_err_def)
    with 1 ClSelect show ?thesis
      by (cases r) (simp_all add: select_write_err_def nx_measure_def on_tr_def)
  next
    case 2
    with ClSelect show ?thesis by (simp add: select_closed_def nx_measure_def split: if_splits)
  next
    case 3
    with ClSelect show ?thesis
      by (simp add: select_timer_def caller_fails_def on_tr_def set_req_canceler_def nx_measure_def split: if_splits)
  next
    case 4
    with ClSelect show ?thesis
      by (simp add: select_cancel_def cancel_request_eq on_tr_def nx_measure_def split: if_splits)
  next
    case 5
    with ClSelect show ?thesis
      by (cases "nx_ctx s") (simp_all add: select_ctx_def on_tr_def nx_measure_def split: if_splits)
  qed
next
  case (ClMap err)
  with assms show ?thesis
    by (cases "map_round_trip_error err s")
      (simp_all add: caller_steps_def caller_fails_def on_tr_def set_req_canceler_def nx_measure_def)
qed (use assms in \<open>simp_all add: caller_steps_def\<close>)

text \<open>Writing leaves the measure alone.\<close>

lemma quiet_measure: "quiet s s' \<Longrightarrow> nx_measure s' = nx_measure s \<and> nx_writer s' = nx_writer s"
  unfolding quiet_def by (elim exE conjE) (simp add: nx_measure_def)

lemma note_body_measure:
  "nx_measure (snd (note_body_error e s)) = nx_measure s" "nx_writer (snd (note_body_error e s)) = nx_writer s"
  by (simp_all add: note_body_error_def nx_measure_def split: option.split nh_error.split)

lemma writer_rank_step:
  "wr_rank w < wr_rank (nx_writer s) \<Longrightarrow> nx_measure (s\<lparr>nx_writer := w\<rparr>) < nx_measure s"
  by (simp add: nx_measure_def)

lemma writer_decreases:
  assumes "s' \<in> set (writer_steps xe s)"
  shows "nx_measure s' < nx_measure s"
proof (cases "nx_writer s")
  case WrSelect
  show ?thesis
  proof (cases "s' = writer_done s")
    case True
    with WrSelect show ?thesis by (simp add: writer_done_def on_cn_def nx_measure_def)
  next
    case False
    with assms WrSelect show ?thesis
      by (cases "np_writech (nx_conn s)") (simp_all add: writer_steps_def on_cn_def nx_measure_def split: if_splits)
  qed
next
  case (WrWrite j start)
  let ?q = "nh_write_request xe (hq_http (tq_request (wj_req j))) (hq_original (tq_request (wj_req j))) s"
  let ?n = "note_body_error (map_option NhOther (fst ?q)) (snd ?q)"
  have q: "nx_measure (snd ?n) = nx_measure s" "nx_writer (snd ?n) = WrWrite j start"
    using quiet_measure [of s "snd ?q"] quiet_request WrWrite by (simp_all add: note_body_measure)
  from assms WrWrite have "s' = (snd ?n)\<lparr>nx_writer := WrFlush j start (fst ?n)\<rparr>"
    by (simp add: writer_steps_def writer_write_def case_prod_unfold)
  with q writer_rank_step [of "WrFlush j start (fst ?n)" "snd ?n"] show ?thesis by simp
next
  case (WrFlush j start err)
  have q: "nx_measure (snd (bw_flush s)) = nx_measure s" "nx_writer (snd (bw_flush s)) = WrFlush j start err"
    using quiet_measure [of s "snd (bw_flush s)"] quiet_flush WrFlush by simp_all
  obtain u e where "s' = u\<lparr>nx_writer := WrTell e\<rparr>" "u = s \<or> u = snd (bw_flush s)"
    using assms WrFlush
    by (cases err; cases "fst (bw_flush s)") (auto simp: writer_steps_def writer_flush_def case_prod_unfold)
  with q writer_rank_step [of "WrTell e" u] WrFlush show ?thesis by auto
next
  case (WrTell err)
  with assms show ?thesis by (simp add: writer_steps_def on_cn_def nx_measure_def split: if_splits)
next
  case (WrReport err)
  with assms show ?thesis
    by (cases err) (simp_all add: writer_steps_def nx_measure_def split: if_splits)
next
  case (WrClose e)
  with assms show ?thesis by (simp add: writer_steps_def writer_done_def on_cn_def on_tr_def nx_measure_def)
qed (use assms in \<open>simp add: writer_steps_def\<close>)

lemma pc_read_weight:
  assumes "pc_read k s = Some ((d, err), s')" "0 < k"
  shows "nx_measure s' \<le> nx_measure s" "err = None \<Longrightarrow> nx_measure s' < nx_measure s"
    "nx_reader s' = nx_reader s" "nx_caller s' = nx_caller s"
proof -
  let ?l = "np_read_limit (nx_conn s)"
  have *: "nx_measure s' \<le> nx_measure s \<and> (err = None \<longrightarrow> nx_measure s' < nx_measure s) \<and>
      nx_reader s' = nx_reader s \<and> nx_caller s' = nx_caller s"
  proof (cases "?l \<le> 0 \<or> nx_closed_conn s")
    case True
    with assms have "s' = s" "err \<noteq> None" by (auto simp: pc_read_def Let_def split: if_splits)
    then show ?thesis by simp
  next
    case False
    with assms obtain x r where x: "nx_in s = x # r"
      by (cases "nx_in s") (simp_all add: pc_read_def Let_def)
    show ?thesis
    proof (cases x)
      case (InFail g)
      with assms False x have "s' = (if g = ErrEOF then on_cn (np_saw_eof_update (\<lambda>_. True)) s else s)" "err \<noteq> None"
        by (auto simp: pc_read_def Let_def)
      then show ?thesis by (simp add: on_cn_def nx_measure_def)
    next
      case (InData w)
      let ?m = "if int k > ?l then nat ?l else k"
      from InData assms False x have s': "s' = on_cn (np_read_limit_update (\<lambda>l. l - int (length (take ?m w))))
          (s\<lparr>nx_in := (if length w \<le> ?m then r else InData (drop ?m w) # r)\<rparr>)"
        by (auto simp: pc_read_def Let_def simp del: length_take)
      have less: "0 < m \<Longrightarrow> in_weight (if length w \<le> m then r else InData (drop m w) # r) < in_weight (InData w # r)"
        for m by auto
      have "0 < ?m" using False assms(2) by simp
      then have "in_weight (if length w \<le> ?m then r else InData (drop ?m w) # r) < in_weight (nx_in s)"
        unfolding x InData by (rule less)
      then show ?thesis unfolding s' by (simp add: on_cn_def nx_measure_def del: length_take split del: if_split)
    qed
  qed
  then show "nx_measure s' \<le> nx_measure s" "err = None \<Longrightarrow> nx_measure s' < nx_measure s"
    "nx_reader s' = nx_reader s" "nx_caller s' = nx_caller s" by simp_all
qed

lemma reader_rank_step:
  "nx_measure u \<le> nx_measure s \<Longrightarrow> nx_reader u = nx_reader s \<Longrightarrow> rd_rank p < rd_rank (nx_reader s) \<Longrightarrow>
     nx_measure (u\<lparr>nx_reader := p\<rparr>) < nx_measure s"
  by (simp add: nx_measure_def)

lemma measure_conn [simp]:
  "nx_measure (on_cn (np_rbuf_update f) s) = nx_measure s"
  "nx_measure (on_cn (np_read_limit_update g) s) = nx_measure s"
  "nx_measure (on_cn (np_reqch_update h) s) = nx_measure s"
  "nx_measure (on_cn (np_write_err_update k) s) = nx_measure s"
  by (simp_all add: on_cn_def nx_measure_def)

lemma peek_decreases:
  assumes "nx_reader s = RdPeek" "s' \<in> set (reader_peek s)"
  shows "nx_measure s' < nx_measure s"
proof -
  let ?s = "on_cn (np_read_limit_update (\<lambda>_. nh_max_header_size (nx_t s))) s"
  show ?thesis
  proof (cases "np_rbuf (nx_conn ?s) \<noteq> []")
    case True
    with assms have "s' = ?s\<lparr>nx_reader := RdPeeked None\<rparr>" by (simp add: reader_peek_def Let_def)
    with assms(1) show ?thesis by (simp add: on_cn_def nx_measure_def)
  next
    case False
    with assms obtain d err s1 where r: "pc_read 4096 ?s = Some ((d, err), s1)"
      by (cases "pc_read 4096 ?s") (auto simp: reader_peek_def Let_def)
    with False assms have s': "s' = on_cn (np_rbuf_update (\<lambda>b. b @ d))
        (s1\<lparr>nx_reader := (if err = None \<and> d = [] then RdPeek else RdPeeked err)\<rparr>)"
      by (simp add: reader_peek_def Let_def)
    have w: "nx_measure s1 \<le> nx_measure s" "err = None \<Longrightarrow> nx_measure s1 < nx_measure s" "nx_reader s1 = RdPeek"
      using pc_read_weight [OF r] assms(1) by (simp_all add: on_cn_def nx_measure_def)
    show ?thesis
    proof (cases "err = None \<and> d = []")
      case True
      with w(3) have "s1\<lparr>nx_reader := RdPeek\<rparr> = s1" by (simp add: nx.equality)
      with True s' w show ?thesis by simp
    next
      case False
      with s' reader_rank_step [of s1 s "RdPeeked err"] w assms(1) show ?thesis by auto
    qed
  qed
qed

lemma fails_measure: "10 < rd_rank (nx_reader s) \<Longrightarrow> nx_measure (reader_fails e s) < nx_measure s"
  by (simp add: reader_fails_def nx_measure_def)

lemma read_decreases:
  assumes "nx_reader s = RdRead rc first" "s' \<in> set (reader_read xe rc first s)"
  shows "nx_measure s' < nx_measure s"
proof (cases "xe_parse xe (hq_http (rc_req rc)) (np_rbuf (nx_conn s))")
  case (PError e)
  with assms fails_measure [of s] show ?thesis by (simp add: reader_read_def)
next
  case (PResponse r k)
  with assms show ?thesis
    by (simp add: reader_read_def Let_def reader_response_def on_cn_def nx_measure_def split: if_splits)
next
  case PMore
  then obtain d err s1 where rd: "pc_read 4096 s = Some ((d, err), s1)"
    using assms(2) by (cases "pc_read 4096 s") (auto simp: reader_read_def)
  note w = pc_read_weight [OF rd]
  show ?thesis
  proof (cases err)
    case None
    with assms(2) PMore rd have "s' = on_cn (np_rbuf_update (\<lambda>b. b @ d)) s1" by (simp add: reader_read_def)
    with w None show ?thesis by simp
  next
    case (Some e)
    with assms(2) PMore rd obtain g where "s' = reader_fails g s1" by (simp add: reader_read_def)
    with w fails_measure [of s1 g] assms(1) show ?thesis by (cases first) simp_all
  qed
qed

lemma gets_decreases: "nx_caller u = ClSelect \<Longrightarrow> nx_measure (caller_gets re u) < nx_measure u"
  by (cases "re_err re"; cases "re_res re") (simp_all add: caller_gets_def nx_measure_def)

lemma sends_decrease:
  assumes "8 < rd_rank (nx_reader s)" "s' \<in> set (reader_sends re p f s)"
    "f = id \<or> f = open_body" "rd_rank p < rd_rank (nx_reader s)"
  shows "nx_measure s' < nx_measure s"
proof -
  let ?u = "f (s\<lparr>nx_reader := p\<rparr>)"
  have u: "nx_measure ?u < nx_measure s" "nx_caller ?u = nx_caller s"
    using assms(3,4) by (elim disjE; simp add: open_body_def nx_measure_def)+
  show ?thesis
  proof (cases "nx_caller s = ClSelect \<and> s' = caller_gets re ?u")
    case True
    with gets_decreases [of ?u re] u show ?thesis by simp
  next
    case False
    with assms(2) have "s' = s\<lparr>nx_reader := RdExit\<rparr>" by (simp add: reader_sends_def split: if_splits) blast
    with assms(1) show ?thesis by (simp add: nx_measure_def)
  qed
qed

lemma body_wait_decreases:
  assumes "nx_reader s = RdBody rc" "s' \<in> set (reader_body rc s)"
  shows "nx_measure s' < nx_measure s"
proof -
  let ?r = "hq_id (rc_req rc)"
  consider b bs where "nx_wait s = b # bs" "s' = (on_tr (set_req_canceler ?r None) s)\<lparr>nx_wait := bs,
        nx_alive := (nx_alive s \<and> b), nx_reader := RdPool (ThenEof b)\<rparr>"
    | e where "s' = on_tr (cancel_request_with ?r e) (s\<lparr>nx_alive := False, nx_reader := RdNext\<rparr>)"
    | "s' = s\<lparr>nx_alive := False, nx_reader := RdNext\<rparr>"
    using assms(2) by (cases "nx_wait s"; cases "nx_ctx s") (auto simp: reader_body_def cancel_request_eq Let_def split: if_splits)
  then show ?thesis
    by cases (use assms(1) in \<open>simp_all add: on_tr_def set_req_canceler_def nx_measure_def\<close>)
qed

lemma reader_decreases:
  assumes "nx_ok s" "s' \<in> set (reader_steps xe s)"
  shows "nx_measure s' < nx_measure s"
proof (cases "nx_reader s")
  case RdPeek
  then show ?thesis using assms peek_decreases by (simp add: reader_steps_def)
next
  case (RdPeeked e)
  then show ?thesis using assms
    by (simp add: reader_steps_def reader_peeked_def peek_fail_locked_def on_tr_def nx_measure_def split: if_splits)
next
  case (RdTake e)
  then show ?thesis using assms
    by (cases "np_reqch (nx_conn s)"; cases e)
      (simp_all add: reader_steps_def reader_take_def Let_def reader_fails_def on_cn_def nx_measure_def)
next
  case (RdRead rc f)
  then show ?thesis using assms read_decreases by (simp add: reader_steps_def)
next
  case (RdFail e)
  then show ?thesis using assms sends_decrease [of s s' _ RdExit id] by (simp add: reader_steps_def)
next
  case (RdNoBody rc r)
  then show ?thesis using assms
    by (simp add: reader_steps_def reader_no_body_def on_tr_def set_req_canceler_def nx_measure_def)
next
  case (RdPool n)
  then have "nx_measure (s\<lparr>nx_reader := pool_continue n\<rparr>) < nx_measure s"
    by (cases n) (simp_all add: pool_continue_def nx_measure_def)
  then show ?thesis using assms RdPool
    by (cases "np_write_err (nx_conn s)")
      (simp_all add: reader_steps_def reader_pool_def Let_def nh_try_put_idle_def on_cn_def nx_measure_def split: if_splits)
next
  case (RdSend r)
  then show ?thesis using assms sends_decrease [of s s' _ RdNext id] by (simp add: reader_steps_def)
next
  case (RdSendBody rc r)
  then show ?thesis using assms sends_decrease [of s s' _ "RdBody rc" open_body] by (simp add: reader_steps_def)
next
  case (RdBody rc)
  then show ?thesis using assms body_wait_decreases by (simp add: reader_steps_def)
next
  case RdEof
  then show ?thesis using assms
    by (simp add: reader_steps_def body_released_def nx_measure_def split: if_splits)
next
  case RdNext
  then have "\<not> nx_alive s" using nx_okD(4) [OF assms(1)] by (simp add: reader_ok_def)
  with RdNext show ?thesis using assms(2) by (simp add: reader_steps_def nx_measure_def)
qed (use assms(2) in \<open>simp_all add: reader_steps_def reader_exit_def reader_close_def nh_remove_idle_def on_tr_def nx_measure_def\<close>)

lemma body_decreases: "s' \<in> set (body_steps s) \<Longrightarrow> nx_measure s' < nx_measure s"
  by (simp add: body_steps_def body_released_def nx_measure_def split: if_splits)

section \<open>No goroutine is stuck once the connection is closed\<close>

definition nx_ended :: "nx \<Rightarrow> bool" where
  "nx_ended s \<longleftrightarrow> cl_done (nx_caller s) \<and> nx_writer s = WrDone \<and> nx_reader s = RdDone \<and> nx_bpc s \<noteq> BoEof"

lemma closed_read: "np_closech (nx_conn s) \<Longrightarrow> conn_ok (nx_conn s) (nh_net (nx_t s)) \<Longrightarrow> pc_read k s \<noteq> None"
  by (simp add: pc_read_def Let_def conn_ok_def nx_closed_conn_def)

lemma writer_stuck:
  assumes "nx_ok s" "np_closech (nx_conn s)" "writer_steps xe s = []"
  shows "nx_writer s = WrDone"
  using nx_okD(2) [OF assms(1)] assms(2,3)
  by (cases "nx_writer s") (simp_all add: writer_ok_def writer_steps_def)

lemma caller_stuck:
  assumes "nx_ok s" "np_closech (nx_conn s)" "nx_writer s = WrDone" "caller_steps s = []"
  shows "cl_done (nx_caller s)"
proof (cases "nx_caller s")
  case ClStart
  with assms(4) show ?thesis by (simp add: caller_steps_def split: prod.splits bool.splits)
next
  case ClWrite
  with assms nx_okD(2) [OF assms(1)] show ?thesis by (simp add: caller_steps_def writer_ok_def)
next
  case ClReq
  with assms nx_okD(3) [OF assms(1)] show ?thesis by (simp add: caller_steps_def caller_ok_def)
next
  case ClSelect
  with assms show ?thesis by (simp add: caller_steps_def caller_select_def select_closed_def)
next
  case (ClMap err)
  have "np_write_done (nx_conn s)" using nx_okD(2) [OF assms(1)] assms(3) by (simp add: writer_ok_def)
  then have "map_round_trip_error err s \<noteq> None"
    by (cases err; cases "the err") (simp_all add: map_round_trip_error_def split: option.split)
  with ClMap assms(4) show ?thesis by (cases "map_round_trip_error err s") (simp_all add: caller_steps_def)
next
  case (ClPanic m)
  with nx_okD(3) [OF assms(1)] show ?thesis by (simp add: caller_ok_def)
qed simp

lemma reader_stuck:
  assumes "nx_ok s" "np_closech (nx_conn s)" "cl_done (nx_caller s)" "reader_steps xe s = []"
  shows "nx_reader s = RdDone"
proof -
  have gone: "nx_gone s" if "rd_busy (nx_reader s)"
    using nx_okD(4) [OF assms(1)] assms(3) that by (simp add: reader_ok_def)
  show ?thesis
  proof (cases "nx_reader s")
    case RdPeek
    have "pc_read 4096 (on_cn (np_read_limit_update (\<lambda>_. nh_max_header_size (nx_t s))) s) \<noteq> None"
      by (rule closed_read) (use assms(2) nx_okD(1) [OF assms(1)] in \<open>simp_all add: on_cn_def\<close>)
    with RdPeek assms(4) show ?thesis
      by (auto simp: reader_steps_def reader_peek_def Let_def split: if_splits option.splits)
  next
    case (RdTake e)
    then have "np_reqch (nx_conn s) \<noteq> []"
      using nx_okD(4) [OF assms(1)] assms(3) by (cases "nx_caller s") (simp_all add: reader_ok_def)
    with RdTake assms(4) show ?thesis
      by (cases "np_reqch (nx_conn s)"; cases e) (simp_all add: reader_steps_def reader_take_def)
  next
    case (RdRead rc f)
    have "pc_read 4096 s \<noteq> None" using closed_read [OF assms(2) nx_okD(1) [OF assms(1)]] .
    with RdRead assms(4) show ?thesis
      by (auto simp: reader_steps_def reader_read_def Let_def split: parsed.splits if_splits option.splits prod.splits)
  next
    case (RdPool n)
    with assms(4) show ?thesis
      by (simp add: reader_steps_def reader_pool_def Let_def split: if_splits list.splits option.splits)
  next
    case (RdBody rc)
    with assms(2,4) show ?thesis by (simp add: reader_steps_def reader_body_def Let_def)
  next
    case RdEof
    with assms(4) nx_okD(5) [OF assms(1)] show ?thesis by (simp add: reader_steps_def body_ok_def)
  qed (use assms(4) gone in \<open>simp_all add: reader_steps_def reader_sends_def\<close>)
qed

lemma stuck_ended:
  assumes "nx_ok s" "np_closech (nx_conn s)" "nx_steps xe s = []"
  shows "nx_ended s"
proof -
  have none: "caller_steps s = []" "writer_steps xe s = []" "reader_steps xe s = []" "body_steps s = []"
    using assms(3) by (simp_all add: nx_steps_def)
  note w = writer_stuck [OF assms(1,2) none(2)]
  note c = caller_stuck [OF assms(1,2) w none(1)]
  note r = reader_stuck [OF assms(1,2) c none(3)]
  have "nx_eofc s" using nx_okD(4) [OF assms(1)] r by (simp add: reader_ok_def)
  with none(4) have "nx_bpc s \<noteq> BoEof" by (auto simp: body_steps_def)
  with w c r show ?thesis by (simp add: nx_ended_def)
qed

lemma steps_decrease:
  assumes "nx_ok s" "s' \<in> set (nx_steps xe s)"
  shows "nx_measure s' < nx_measure s"
proof -
  consider "s' \<in> set (caller_steps s)" | "s' \<in> set (writer_steps xe s)" | "s' \<in> set (reader_steps xe s)"
    | "s' \<in> set (body_steps s)"
    using assms(2) by (rule nx_stepsE)
  then show ?thesis
    by cases (fact caller_decreases writer_decreases reader_decreases [OF assms(1)] body_decreases)+
qed

section \<open>A closed connection stays closed\<close>

abbreviation nx_down :: "nx \<Rightarrow> bool" where
  "nx_down s \<equiv> np_closech (nx_conn s)"

lemma caller_down:
  assumes "s' \<in> set (caller_steps s)" "nx_down s"
  shows "nx_down s'"
proof (cases "nx_caller s")
  case ClStart
  with assms show ?thesis
    by (cases "nh_canceler (nx_t s) (nx_id s)")
      (simp_all add: caller_steps_def replace_req_canceler_def put_or_close_closes on_cn_def)
next
  case ClWrite
  with assms show ?thesis by (simp add: caller_steps_def on_cn_def split: if_splits)
next
  case ClReq
  with assms show ?thesis by (simp add: caller_steps_def on_cn_def split: if_splits)
next
  case ClSelect
  with assms consider "s' \<in> set (select_write_err s)" | "s' \<in> set (select_closed s)" | "s' \<in> set (select_timer s)"
    | "s' \<in> set (select_cancel s)" | "s' \<in> set (select_ctx s)"
    by (auto simp: caller_steps_def caller_select_def)
  then show ?thesis
  proof cases
    case 1
    then obtain r es where w: "nx_werr s = r # es" by (cases "nx_werr s") (simp_all add: select_write_err_def)
    with 1 assms(2) show ?thesis by (cases r) (simp_all add: select_write_err_def on_tr_def)
  next
    case 2
    with assms(2) show ?thesis by (simp add: select_closed_def)
  next
    case 3
    with assms(2) show ?thesis
      by (simp add: select_timer_def caller_fails_def on_tr_def set_req_canceler_def split: if_splits)
  next
    case 4
    with assms(2) show ?thesis by (simp add: select_cancel_def cancel_request_eq on_tr_def split: if_splits)
  next
    case 5
    with assms(2) show ?thesis by (cases "nx_ctx s") (simp_all add: select_ctx_def on_tr_def split: if_splits)
  qed
next
  case (ClMap err)
  with assms show ?thesis
    by (cases "map_round_trip_error err s") (simp_all add: caller_steps_def caller_fails_def on_tr_def set_req_canceler_def)
qed (use assms in \<open>simp_all add: caller_steps_def\<close>)

lemma quiet_down: "quiet s s' \<Longrightarrow> nx_down s' = nx_down s"
  unfolding quiet_def by (elim exE conjE) simp

lemma writer_down:
  assumes "s' \<in> set (writer_steps xe s)" "nx_down s"
  shows "nx_down s'"
proof (cases "nx_writer s")
  case WrSelect
  with assms show ?thesis
    by (cases "np_writech (nx_conn s)") (auto simp: writer_steps_def writer_done_def on_cn_def split: if_splits)
next
  case (WrWrite j start)
  let ?q = "nh_write_request xe (hq_http (tq_request (wj_req j))) (hq_original (tq_request (wj_req j))) s"
  have "nx_down (snd ?q)" using quiet_down [of s "snd ?q"] quiet_request assms(2) by simp
  then have "nx_down (snd (note_body_error e (snd ?q)))" for e
    by (simp add: note_body_error_def split: option.split nh_error.split)
  with assms WrWrite show ?thesis by (simp add: writer_steps_def writer_write_def case_prod_unfold)
next
  case (WrFlush j start err)
  have "nx_down (snd (bw_flush s))" using quiet_down [of s "snd (bw_flush s)"] quiet_flush assms(2) by simp
  with assms WrFlush show ?thesis
    by (cases err; cases "fst (bw_flush s)") (simp_all add: writer_steps_def writer_flush_def case_prod_unfold)
next
  case (WrTell err)
  with assms show ?thesis by (simp add: writer_steps_def on_cn_def split: if_splits)
next
  case (WrReport err)
  with assms show ?thesis by (simp add: writer_steps_def split: if_splits)
next
  case (WrClose e)
  with assms show ?thesis by (simp add: writer_steps_def writer_done_def on_cn_def on_tr_def)
qed (use assms in \<open>simp add: writer_steps_def\<close>)

lemma read_down:
  assumes "pc_read k s = Some ((d, err), s')"
  shows "nx_down s' = nx_down s"
proof -
  obtain i e l where "s' = on_cn (\<lambda>c. c\<lparr>np_saw_eof := e, np_read_limit := l\<rparr>) (s\<lparr>nx_in := i\<rparr>)"
    by (rule pc_read_result [OF assms], rule that)
  then show ?thesis by (simp add: on_cn_def)
qed

lemma reader_down:
  assumes "s' \<in> set (reader_steps xe s)" "nx_down s"
  shows "nx_down s'"
proof (cases "nx_reader s")
  case RdPeek
  let ?s = "on_cn (np_read_limit_update (\<lambda>_. nh_max_header_size (nx_t s))) s"
  have d: "nx_down ?s" using assms(2) by (simp add: on_cn_def)
  from RdPeek assms show ?thesis
  proof (cases "pc_read 4096 ?s")
    case (Some r)
    obtain a b s1 where r: "r = ((a, b), s1)" by (metis prod.exhaust)
    from read_down [OF Some [unfolded r]] d have "nx_down s1" by simp
    with RdPeek assms(1) d Some r show ?thesis
      by (simp add: reader_steps_def reader_peek_def Let_def on_cn_def split: if_splits)
  qed (simp add: reader_steps_def reader_peek_def Let_def on_cn_def split: if_splits)
next
  case (RdPeeked e)
  with assms show ?thesis
    by (simp add: reader_steps_def reader_peeked_def peek_fail_locked_def on_tr_def split: if_splits)
next
  case (RdTake e)
  with assms show ?thesis
    by (cases "np_reqch (nx_conn s)"; cases e)
      (simp_all add: reader_steps_def reader_take_def Let_def reader_fails_def on_cn_def)
next
  case (RdRead rc f)
  show ?thesis
  proof (cases "xe_parse xe (hq_http (rc_req rc)) (np_rbuf (nx_conn s))")
    case PMore
    then obtain d err s1 where rd: "pc_read 4096 s = Some ((d, err), s1)"
      using assms(1) RdRead by (cases "pc_read 4096 s") (auto simp: reader_steps_def reader_read_def)
    with read_down [OF rd] PMore RdRead assms show ?thesis
      by (cases err) (simp_all add: reader_steps_def reader_read_def reader_fails_def on_cn_def)
  qed (use RdRead assms in \<open>simp_all add: reader_steps_def reader_read_def reader_fails_def reader_response_def Let_def on_cn_def split: if_splits\<close>)
next
  case (RdPool n)
  with assms show ?thesis
    by (cases "np_write_err (nx_conn s)")
      (simp_all add: reader_steps_def reader_pool_def Let_def nh_try_put_idle_def on_cn_def split: if_splits)
next
  case (RdBody rc)
  with assms show ?thesis
    by (cases "nx_wait s"; cases "nx_ctx s")
      (auto simp: reader_steps_def reader_body_def Let_def cancel_request_eq on_tr_def set_req_canceler_def split: if_splits)
qed (use assms in \<open>auto simp: reader_steps_def reader_sends_def caller_gets_def open_body_def reader_no_body_def on_tr_def
    set_req_canceler_def body_released_def reader_exit_def reader_close_def nh_remove_idle_def split: if_splits option.splits\<close>)

lemma steps_down:
  assumes "s' \<in> set (nx_steps xe s)" "nx_down s"
  shows "nx_down s'"
proof -
  consider "s' \<in> set (caller_steps s)" | "s' \<in> set (writer_steps xe s)" | "s' \<in> set (reader_steps xe s)"
    | "s' \<in> set (body_steps s)"
    using assms(1) by (rule nx_stepsE)
  then show ?thesis
  proof cases
    case 1 then show ?thesis using caller_down assms(2) by blast
  next
    case 2 then show ?thesis using writer_down assms(2) by blast
  next
    case 3 then show ?thesis using reader_down assms(2) by blast
  next
    case 4 then show ?thesis using assms(2) by (simp add: body_steps_def body_released_def split: if_splits)
  qed
qed

section \<open>What an exchange promises\<close>

definition nx_inner :: "nx_env \<Rightarrow> nx \<Rightarrow> nx \<Rightarrow> bool" where
  "nx_inner xe s s' \<longleftrightarrow> s' \<in> set (nx_steps xe s)"

lemma inner_reach: "nx_reach xe s0 s \<Longrightarrow> nx_inner xe s s' \<Longrightarrow> nx_reach xe s0 s'"
  by (auto simp: nx_inner_def intro: nx_reach.step nx_step.inner)

text \<open>The goroutines of an exchange between two events of the outside, as a machine with a measure.\<close>

interpretation inner: measured_steps "nx_inner xe" nx_ok nx_measure for xe
  by unfold_locales (auto simp: nx_inner_def intro: nx_steps_keep steps_decrease)

interpretation reached: kept_by_steps "nx_inner xe" "nx_reach xe s0" for xe s0
  by unfold_locales (rule inner_reach)

interpretation down: kept_by_steps "nx_inner xe" nx_down for xe
  by unfold_locales (auto simp: nx_inner_def intro: steps_down)

lemma exchange_ok: "nx_fresh t p \<Longrightarrow> nx_reach xe (nx_init t p rq) s \<Longrightarrow> nx_ok s"
  by (rule nx_reach_ok [OF _ nx_ok_init])

lemma reach_fixed: "nx_reach xe s0 s \<Longrightarrow> nx_ok s0 \<Longrightarrow> nx_ok s"
  by (rule nx_reach_ok)

text \<open>
  C21. Between two events of the outside the goroutines of an exchange do at most as many steps as the
  measure of the state says: the loops of the reader, the writer and the caller cannot run forever.
\<close>

theorem exchange_terminates:
  assumes "nx_fresh t p" "nx_reach xe (nx_init t p rq) s" "(nx_inner xe ^^ n) s s'"
  shows "n + nx_measure s' \<le> nx_measure s"
  by (rule inner.steps_bounded [OF exchange_ok [OF assms(1,2)] assms(3)])

lemma runs_to_end: "nx_ok s \<Longrightarrow> \<exists>s'. (nx_inner xe)\<^sup>*\<^sup>* s s' \<and> nx_steps xe s' = []"
  using inner.reaches_end [of s xe] by (auto simp: nx_inner_def)

text \<open>
  C23. Once the connection of an exchange is closed, its goroutines run to an end without any help of
  the outside, and at the end each of them has returned: \<open>roundTrip\<close>, both loops, and a read of the body.
\<close>

theorem closed_exchange_ends:
  assumes "nx_fresh t p" "nx_reach xe (nx_init t p rq) s" "nx_down s"
  shows "(\<exists>s'. (nx_inner xe)\<^sup>*\<^sup>* s s' \<and> nx_ended s') \<and>
    (\<forall>s'. (nx_inner xe)\<^sup>*\<^sup>* s s' \<longrightarrow> nx_steps xe s' = [] \<longrightarrow> nx_ended s')"
proof -
  have "nx_ended s'" if "(nx_inner xe)\<^sup>*\<^sup>* s s'" "nx_steps xe s' = []" for s'
    using stuck_ended [OF exchange_ok [OF assms(1) reached.kept_run [OF that(1) assms(2)]] down.kept_run [OF that(1) assms(3)] that(2)] .
  with runs_to_end [OF exchange_ok [OF assms(1,2)]] show ?thesis by blast
qed

text \<open>
  C25. When \<open>readLoop\<close> has ended, for whatever reason, the connection is closed in every sense: its error
  is set, its channel and its network connection are closed. It never goes back into a pool.
\<close>

theorem reader_end_closes:
  assumes "nx_fresh t p" "nx_reach xe (nx_init t p rq) s" "nx_reader s = RdDone"
  shows "nh_down (nx_p s) (nx_t s)"
  using nx_okD(1,4) [OF exchange_ok [OF assms(1,2)]] assms(3)
  by (simp add: reader_ok_def nh_down_def conn_ok_def)

text \<open>
  C26. \<open>roundTrip\<close> never panics, and when it fails it has an error, and nothing is left in the registry to
  cancel the request.
\<close>

theorem failed_trip_unregisters:
  assumes "nx_fresh t p" "nx_reach xe (nx_init t p rq) s"
  shows "(\<forall>m. nx_caller s \<noteq> ClPanic m) \<and>
    (\<forall>e. nx_caller s = ClDone (Inl e) \<longrightarrow> e \<noteq> None \<and> nh_canceler (nx_t s) (nx_id s) = None)"
  using nx_okD(3) [OF exchange_ok [OF assms]] by (simp add: caller_ok_def)

text \<open>
  C27. While the header of a response is read, no more bytes are in memory than \<open>MaxResponseHeaderBytes\<close> (or its
  default) allows, whatever the server sends; and no more than twice as many while that of the response after a 100 is
  read, because the limit begins anew there and what arrived with the 100 is still in the buffer.
\<close>

theorem header_bounded:
  assumes "nx_fresh t p" "nx_reach xe (nx_init t p rq) s" "nx_reader s = RdRead rc first"
  shows "int (length (np_rbuf (nx_conn s))) \<le> (if first then 1 else 2) * max 0 (nh_max_header_size (nx_t s))"
proof -
  have lim: "limit_ok s" using nx_okD(6) [OF exchange_ok [OF assms(1,2)]] .
  show ?thesis
  proof (cases first)
    case True
    then show ?thesis using lim assms(3) by (cases "np_rbuf (nx_conn s) = []") (auto simp: limit_ok_def)
  next
    case False
    then have "int (length (np_rbuf (nx_conn s))) + np_read_limit (nx_conn s)
          \<le> max 0 (nh_max_header_size (nx_t s)) + nh_max_header_size (nx_t s)"
      "0 \<le> np_read_limit (nx_conn s) \<or> int (length (np_rbuf (nx_conn s))) \<le> max 0 (nh_max_header_size (nx_t s))"
      using lim assms(3) by (simp_all add: limit_ok_def)
    then show ?thesis using False by (simp add: max_def split: if_splits) linarith+
  qed
qed

lemma eof_goes_on:
  assumes "body_ok s" "reader_ok s" "nx_bpc s = BoEof"
  shows "reader_steps xe s \<noteq> [] \<or> body_steps s \<noteq> []"
proof -
  have after: "rd_after (nx_reader s)" and done_ok: "nx_reader s = RdDone \<longrightarrow> nx_eofc s"
    and waits: "rd_body (nx_reader s) \<longrightarrow> nx_wait s = [True]"
    using assms by (auto simp: body_ok_def reader_ok_def)
  show ?thesis
  proof (cases "nx_reader s")
    case (RdBody rc)
    then show ?thesis using waits by (simp add: reader_steps_def reader_body_def Let_def)
  next
    case (RdPool n)
    then show ?thesis by (simp add: reader_steps_def reader_pool_def Let_def split: list.split option.split)
  qed (use after done_ok assms(3) in \<open>simp_all add: reader_steps_def body_steps_def\<close>)
qed

text \<open>
  C24. The goroutines of an exchange fit together, in every reachable state: \<open>roundTrip\<close> never finds that its
  reader sent both a response and an error, or neither, so it does not panic; no send on a channel with a buffer ever
  blocks: not that of the request to the writer or to the reader, not those of the writer's result to the loop or to
  the caller, and not those of the body to the loop, so that reading or closing an open body is always possible; and a
  read that met the end of the body, which does wait for the loop, does not wait for good: while it waits, the loop or
  this read can take a step.
\<close>

theorem exchange_type_safe:
  assumes "nx_fresh t p" "nx_reach xe (nx_init t p rq) s"
  shows "(\<forall>m. nx_caller s \<noteq> ClPanic m) \<and>
    (nx_caller s = ClWrite \<longrightarrow> np_writech (nx_conn s) = []) \<and> (nx_caller s = ClReq \<longrightarrow> np_reqch (nx_conn s) = []) \<and>
    (\<forall>e. nx_writer s = WrTell e \<longrightarrow> np_write_err (nx_conn s) = []) \<and>
    (\<forall>e. nx_writer s = WrReport e \<longrightarrow> nx_werr s = []) \<and>
    (nx_bpc s = BoOpen \<longrightarrow> (\<forall>err saw. body_read err saw s \<noteq> [] \<and> body_close_signal err s \<noteq> [])) \<and>
    (nx_bpc s = BoEof \<longrightarrow> reader_steps xe s \<noteq> [] \<or> body_steps s \<noteq> [])"
proof -
  note ok = nx_okD [OF exchange_ok [OF assms]]
  have "body_read err saw s \<noteq> [] \<and> body_close_signal err s \<noteq> []" if "nx_bpc s = BoOpen" for err saw
    using ok(5) that
    by (auto simp: body_ok_def body_read_def body_close_signal_def body_cond_fn_def body_fn_def Let_def on_cn_def
        split: if_splits)
  moreover have "(nx_caller s = ClWrite \<longrightarrow> np_writech (nx_conn s) = []) \<and>
    (\<forall>e. nx_writer s = WrTell e \<longrightarrow> np_write_err (nx_conn s) = []) \<and> (\<forall>e. nx_writer s = WrReport e \<longrightarrow> nx_werr s = [])"
    using ok(2) by (simp add: writer_ok_def)
  moreover have "(\<forall>m. nx_caller s \<noteq> ClPanic m) \<and> (nx_caller s = ClReq \<longrightarrow> np_reqch (nx_conn s) = [])"
    using ok(3) by (simp add: caller_ok_def)
  ultimately show ?thesis using eof_goes_on [OF ok(5,4)] by blast
qed

text \<open>A failure of an exchange whose connection was cancelled is reported as the cancellation.\<close>

lemma cancellation_reported:
  "nh_canceled (nx_p s) (nx_t s) = Some c \<Longrightarrow> map_round_trip_error (Some e) s = Some (Some c)"
  by (simp add: map_round_trip_error_def)

text \<open>
  The error of reading the request's body is looked for under a type of this package, which
  \<open>Request.Write\<close> never returns: the error is never noted.
\<close>

lemma body_error_never_noted: "nx_tq (writer_write xe j start s) = nx_tq s"
proof -
  have "nx_tq (snd (nh_write_request xe rq orig s)) = nx_tq s" for rq orig
    using quiet_request [of s xe rq orig] unfolding quiet_def by (elim exE conjE) simp
  moreover have "note_body_error (map_option NhOther e) u = (map_option NhOther e, u)" for e u
    by (cases e) (simp_all add: note_body_error_def)
  ultimately show ?thesis by (simp add: writer_write_def case_prod_unfold)
qed

text \<open>The sniffed bytes make no difference to what is written.\<close>

lemma original_request_unused: "nh_write_request xe rq o1 s = nh_write_request xe rq o2 s"
  by (simp add: nh_write_request_def)

section \<open>A run\<close>

text \<open>A schedule names, for each step, which of the possible successors is taken.\<close>

primrec nx_run :: "nx_env \<Rightarrow> nat list \<Rightarrow> nx \<Rightarrow> nx" where
  "nx_run xe [] s = s"
| "nx_run xe (k # ks) s =
     (if k < length (nx_steps xe s) then nx_run xe ks (nx_steps xe s ! k) else s)"

lemma nx_run_inner: "(nx_inner xe)\<^sup>*\<^sup>* s (nx_run xe ks s)"
proof (induction ks arbitrary: s)
  case (Cons k ks)
  show ?case
  proof (cases "k < length (nx_steps xe s)")
    case True
    then have "nx_inner xe s (nx_steps xe s ! k)" by (simp add: nx_inner_def)
    from converse_rtranclp_into_rtranclp [of "nx_inner xe", OF this Cons.IH] True show ?thesis by simp
  qed simp
qed simp

lemma nx_run_reach: "nx_reach xe s0 s \<Longrightarrow> nx_reach xe s0 (nx_run xe ks s)"
  by (rule reached.kept_run [OF nx_run_inner])

text \<open>A transport with a connection that has just been dialled, and a request that is registered.\<close>

definition dialled :: nh_state where
  "dialled = nh_zero\<lparr>nh_canceler := [4 \<mapsto> CancelDial]\<rparr>"

definition example_rq :: nh_request where
  "example_rq = \<lparr>hq_id = 4, hq_http = empty_request\<lparr>rq_method := ''GET''\<rparr>, hq_original = CtxBytes ''x''\<rparr>"

definition example_xe :: nx_env where
  "example_xe = \<lparr>xe_request_text = (\<lambda>rq. (rq_method rq, None)),
     xe_parse = (\<lambda>rq b. if length b < 2 then PMore
       else PResponse (new_response empty_request 200 [] []) 2)\<rparr>"

lemma dialled_fresh: "nx_fresh dialled 0"
  by (simp add: nx_fresh_def dialled_def nh_zero_def new_nh_conn_def nh_close_ok_def conn_ok_def)

definition example_start :: nx where
  "example_start = (nx_init dialled 0 example_rq)\<lparr>nx_in := [InData ''OK'']\<rparr>"

lemma example_start_reach: "nx_reach xe (nx_init dialled 0 example_rq) example_start"
proof -
  have "nx_step xe (nx_init dialled 0 example_rq)
      ((nx_init dialled 0 example_rq)\<lparr>nx_in := nx_in (nx_init dialled 0 example_rq) @ [InData ''OK'']\<rparr>)"
    by (rule nx_step.server_sends) simp
  then show ?thesis
    by (auto simp: example_start_def nx_init_def intro: nx_reach.step nx_reach.start)
qed

text \<open>A request that is not registered: the connection is closed at once.\<close>

definition unregistered :: nx where
  "unregistered = nx_run example_xe [0] (nx_init nh_zero 0 example_rq)"

lemma unregistered_reach: "nx_reach example_xe (nx_init nh_zero 0 example_rq) unregistered"
  unfolding unregistered_def by (rule nx_run_reach) (rule nx_reach.start)

lemma zero_fresh: "nx_fresh nh_zero 0"
  by (simp add: nx_fresh_def nh_zero_def new_nh_conn_def nh_close_ok_def conn_ok_def)

lemma unregistered_down: "nx_down unregistered"
  by code_simp

text \<open>The request is registered, and has been given to the writer.\<close>

definition example_written :: nx where
  "example_written = nx_run example_xe [0, 0] example_start"

lemma example_written_reach: "nx_reach example_xe (nx_init dialled 0 example_rq) example_written"
  unfolding example_written_def by (rule nx_run_reach [OF example_start_reach])

lemma example_written_pc: "nx_caller example_written = ClReq"
  by code_simp

lemma example_enabled: "0 < length (nx_steps example_xe example_start)"
  by code_simp

definition example_end :: nx where
  "example_end = nx_run example_xe (replicate 6 0) (nx_init nh_zero 0 example_rq)"

lemma exchange_run: "nx_reader example_end = RdDone" "nx_writer example_end = WrDone"
  by code_simp+

theorem exchange_terminates_witness:
  "1 + nx_measure (nx_steps example_xe example_start ! 0) \<le> nx_measure example_start"
  by (rule exchange_terminates [where xe = example_xe, OF dialled_fresh example_start_reach])
    (simp only: relpowp_1 nx_inner_def, rule nth_mem, rule example_enabled)

theorem closed_exchange_ends_witness:
  "\<exists>s'. (nx_inner example_xe)\<^sup>*\<^sup>* unregistered s' \<and> nx_ended s'"
  using closed_exchange_ends [OF zero_fresh unregistered_reach unregistered_down] by (rule conjunct1)

theorem reader_end_closes_witness: "nh_down (nx_p example_end) (nx_t example_end)"
  by (rule reader_end_closes [OF zero_fresh _ exchange_run(1)])
    (unfold example_end_def, rule nx_run_reach, rule nx_reach.start)

lemma unregistered_failed: "nx_caller unregistered = ClDone (Inl (Some NhRequestCanceled))"
  by code_simp

theorem failed_trip_unregisters_witness: "nh_canceler (nx_t unregistered) (nx_id unregistered) = None"
  using failed_trip_unregisters [OF zero_fresh unregistered_reach] by (simp add: unregistered_failed)

theorem exchange_type_safe_witness:
  "(\<forall>m. nx_caller example_start \<noteq> ClPanic m) \<and> (nx_caller example_written = ClReq \<and> np_reqch (nx_conn example_written) = [])"
  using exchange_type_safe [OF dialled_fresh example_start_reach [of example_xe]]
    exchange_type_safe [OF dialled_fresh example_written_reach] example_written_pc by blast

definition example_reading :: nx where
  "example_reading = nx_run example_xe [0, 0, 0, 1, 1, 1] example_start"

lemma example_reading_pc:
  "nx_reader example_reading = RdRead \<lparr>rc_req = example_rq, rc_gzip = False, rc_continue = False\<rparr> True"
  by code_simp

theorem header_bounded_witness:
  "int (length (np_rbuf (nx_conn example_reading))) \<le> max 0 (nh_max_header_size (nx_t example_reading))"
proof -
  have "nx_reach example_xe (nx_init dialled 0 example_rq) example_reading"
    unfolding example_reading_def by (rule nx_run_reach [OF example_start_reach])
  from header_bounded [OF dialled_fresh this example_reading_pc] show ?thesis by simp
qed

end
