(* ===== verification/Nonhttp_Trip.thy ===== *)
theory Nonhttp_Trip
  imports Nonhttp_Live
begin

text \<open>
  \<open>nonhttproundtripper.go\<close>, last part: \<open>RoundTrip\<close> of the \<open>NonHTTPRoundTripper\<close>, which repeats
  \<open>getConn\<close> (\<open>Nonhttp_Dial\<close>) and \<open>roundTrip\<close> on the connection (\<open>Nonhttp_Exchange\<close>) as long as
  \<open>shouldRetryRequest\<close> says so. The loop need not end for arbitrary functions in the place of the two,
  so it is a partial function; that it ends with the ones of this program is a theorem.
\<close>

definition unwrap_server_error :: "nh_error \<Rightarrow> nh_error" where
  "unwrap_server_error e = (case e of NhReadFromServer g \<Rightarrow> g | _ \<Rightarrow> e)"

type_synonym trip_result = "(nh_error + http_response) gores"

partial_function (option) nh_attempts ::
  "(string \<Rightarrow> goerr + string) \<Rightarrow> (conn_method \<Rightarrow> nh_state \<Rightarrow> (nh_error + nat) \<times> nh_state)
     \<Rightarrow> (nat \<Rightarrow> nh_state \<Rightarrow> (nh_error + http_response) \<times> nh_state) \<Rightarrow> nh_request \<Rightarrow> nh_state
     \<Rightarrow> (trip_result \<times> nh_state) option" where
  "nh_attempts to_ascii getc trip rq t = (case rq_url (hq_http rq) of
     None \<Rightarrow> Some (Panic nil_deref, t)
   | Some u \<Rightarrow> (case nh_connect_method to_ascii u of
       Inl e \<Rightarrow> Some (Val (Inl e), t)
     | Inr cm \<Rightarrow> (case getc cm t of
         (Inl e, t1) \<Rightarrow> Some (Val (Inl e), set_req_canceler (hq_id rq) None t1)
       | (Inr p, t1) \<Rightarrow> (case trip p t1 of
           (Inr r, t2) \<Rightarrow> Some (Val (Inr r), t2)
         | (Inl e, t2) \<Rightarrow>
             (if nh_should_retry (nh_is_reused p t2) (hq_http rq) e
              then nh_attempts to_ascii getc trip rq t2
              else Some (Val (Inl (unwrap_server_error e)), t2))))))"

text \<open>The request must carry the bytes that were sniffed in its context, as a pointer to a byte slice.\<close>

definition nh_round_trip ::
  "(string \<Rightarrow> goerr + string) \<Rightarrow> (conn_method \<Rightarrow> nh_state \<Rightarrow> (nh_error + nat) \<times> nh_state)
     \<Rightarrow> (nat \<Rightarrow> nh_state \<Rightarrow> (nh_error + http_response) \<times> nh_state) \<Rightarrow> nh_request \<Rightarrow> nh_state
     \<Rightarrow> (trip_result \<times> nh_state) option" where
  "nh_round_trip to_ascii getc trip rq t = (case hq_original rq of
     CtxNone \<Rightarrow> Some (Val (Inl (nh_text ''No request provided for non-http protocol request'')), t)
   | CtxOther \<Rightarrow> Some (Panic ''interface conversion: interface {} is not *[]uint8'', t)
   | CtxBytes _ \<Rightarrow> nh_attempts to_ascii getc trip rq t)"

section \<open>A single attempt\<close>

text \<open>What an exchange on a connection returns, and the transport it leaves.\<close>

definition nx_returns :: "nx_env \<Rightarrow> nh_state \<Rightarrow> nat \<Rightarrow> nh_request \<Rightarrow> nh_error + http_response \<Rightarrow> nh_state \<Rightarrow> bool" where
  "nx_returns xe t p rq r t' \<longleftrightarrow> (\<exists>s. nx_reach xe (nx_init t p rq) s \<and> nx_p s = p \<and> nx_t s = t' \<and>
     nx_caller s = ClDone (case r of Inl e \<Rightarrow> Inl (Some e) | Inr x \<Rightarrow> Inr x))"

lemma dial_conn_fresh:
  assumes "nh_dial_conn ne cm t = (Inr p, t')"
  shows "nx_fresh t' p"
  using assms by (auto simp: nh_dial_conn_def Let_def nx_fresh_def nh_close_ok_def conn_ok_def new_nh_conn_def
      split: prod.splits sum.splits)

lemma select_conn:
  "(Inr p, pending) \<in> set (dial_select w) \<Longrightarrow> dw_dial w = Some (Inr p) \<and> \<not> pending"
  by (cases "dw_dial w"; cases "the (dw_dial w)") (auto simp: dial_select_def split: if_splits)

lemma get_conn_fresh:
  assumes "(Inr p, t') \<in> set (nh_get_conn ne cm r w t)"
  shows "nx_fresh t' p"
proof -
  from get_conn_cases [OF assms] obtain v t2 t3 pending where d:
    "nh_dial_conn ne cm (set_req_canceler r (Some CancelDial) (t\<lparr>nh_cancelc := (nh_cancelc t)(r := [])\<rparr>)) = (v, t2)"
    "t3 = fold (cancel_request_with r) (dr_cancels w) t2"
    and sel: "(Inr p, pending) \<in> set (dial_select \<lparr>dw_dial = (if dr_dialled w then Some v else None),
       dw_cancel = dr_cancel w, dw_ctx = dr_ctx w, dw_cancelc = nh_cancelc t3 r\<rparr>)"
    and t': "t' = (if pending then pending_dial v t3 else t3)" by blast
  from select_conn [OF sel] have "v = Inr p" "\<not> pending" by (auto split: if_splits)
  with d(1) t' dial_conn_fresh waiting_state [OF d] show ?thesis
    by (simp add: nx_fresh_def nh_close_ok_def)
qed

text \<open>The connection of an exchange is never marked as reused.\<close>

lemma returns_not_reused:
  assumes "nx_fresh t p" "nx_returns xe t p rq r t'"
  shows "\<not> nh_is_reused p t'"
  using assms nx_okD(4) [OF exchange_ok [OF assms(1)]]
  by (auto simp: nx_returns_def nh_is_reused_def reader_ok_def)

text \<open>
  C22. With the connections that \<open>getConn\<close> makes and the exchanges that \<open>roundTrip\<close> has, the method
  \<open>RoundTrip\<close> returns, after one attempt: a request is never sent twice, however the attempt fails.
\<close>

theorem round_trip_single_attempt:
  assumes "\<And>cm t. \<exists>w. getc cm t \<in> set (nh_get_conn ne cm (hq_id rq) w t)"
    and "\<And>p t. nx_fresh t p \<Longrightarrow> nx_returns xe t p rq (fst (trip p t)) (snd (trip p t))"
    and "hq_original rq = CtxBytes b" "rq_url (hq_http rq) = Some u" "nh_connect_method to_ascii u = Inr cm"
  shows "nh_round_trip to_ascii getc trip rq t =
    (case getc cm t of
       (Inl e, t1) \<Rightarrow> Some (Val (Inl e), set_req_canceler (hq_id rq) None t1)
     | (Inr p, t1) \<Rightarrow> (case trip p t1 of
         (Inr r, t2) \<Rightarrow> Some (Val (Inr r), t2)
       | (Inl e, t2) \<Rightarrow> Some (Val (Inl (unwrap_server_error e)), t2)))"
proof -
  have "\<not> nh_should_retry (nh_is_reused p t2) (hq_http rq) e"
    if g: "getc cm t = (Inr p, t1)" and x: "trip p t1 = (Inl e, t2)" for p t1 e t2
  proof -
    from assms(1) [of cm t] g obtain w where "(Inr p, t1) \<in> set (nh_get_conn ne cm (hq_id rq) w t)" by auto
    from assms(2) [OF get_conn_fresh [OF this]] x returns_not_reused [OF get_conn_fresh [OF this]]
    have "\<not> nh_is_reused p t2" by fastforce
    then show ?thesis by simp
  qed
  then show ?thesis
    using assms(3-5)
    by (auto simp: nh_round_trip_def nh_attempts.simps [of to_ascii getc trip rq t] split: prod.split sum.split)
qed

section \<open>An example\<close>

text \<open>
  An exchange that is cancelled as soon as the request is registered for the connection: the next
  steps of the caller, with the call of \<open>CancelRequest\<close> after the first.
\<close>

definition caller_next :: "nx \<Rightarrow> nx" where
  "caller_next s = hd (caller_steps s)"

definition cancelled_exchange :: "nh_request \<Rightarrow> nat \<Rightarrow> nh_state \<Rightarrow> nx" where
  "cancelled_exchange rq p t =
     (let s1 = caller_next (nx_init t p rq) in
      if nh_canceler t (hq_id rq) = None then s1
      else caller_next (caller_next (caller_next (caller_next (on_tr (cancel_request (hq_id rq)) s1)))))"

definition cancelled_trip :: "nh_request \<Rightarrow> nat \<Rightarrow> nh_state \<Rightarrow> (nh_error + http_response) \<times> nh_state" where
  "cancelled_trip rq p t = (Inl NhRequestCanceled, nx_t (cancelled_exchange rq p t))"

lemma caller_next_reach:
  "nx_reach xe s0 s \<Longrightarrow> caller_steps s \<noteq> [] \<Longrightarrow> nx_reach xe s0 (caller_next s)"
  by (rule nx_reach.step, assumption, rule nx_step.inner) (simp add: caller_next_def nx_steps_def)

lemma cancelled_select:
  assumes "nx_caller s = ClSelect" "nx_werr s = []" "np_closech (nx_conn s)"
    "np_closed (nx_conn s) = Some NhRequestCanceled" "nh_canceled (nx_p s) (nx_t s) = Some NhRequestCanceled"
  shows "caller_steps s \<noteq> []" "caller_steps (caller_next s) \<noteq> []"
    "nx_caller (caller_next (caller_next s)) = ClDone (Inl (Some NhRequestCanceled))"
    "nx_p (caller_next (caller_next s)) = nx_p s"
proof -
  have n: "caller_steps s \<noteq> []" "caller_next s = s\<lparr>nx_caller := ClMap (Some NhRequestCanceled)\<rparr>"
    using assms by (simp_all add: caller_next_def caller_steps_def caller_select_def
        select_write_err_def select_closed_def)
  show "caller_steps s \<noteq> []" by (rule n(1))
  show "caller_steps (caller_next s) \<noteq> []"
    "nx_caller (caller_next (caller_next s)) = ClDone (Inl (Some NhRequestCanceled))"
    "nx_p (caller_next (caller_next s)) = nx_p s"
    unfolding n(2) using assms
    by (simp_all add: caller_next_def caller_steps_def map_round_trip_error_def
        nh_canceled_def caller_fails_def on_tr_def)
qed

lemma cancelled_returns:
  assumes "nx_fresh t p"
  shows "nx_returns xe t p rq (fst (cancelled_trip rq p t)) (snd (cancelled_trip rq p t))"
proof -
  let ?s0 = "nx_init t p rq" let ?s1 = "caller_next ?s0"
  have e0: "caller_steps ?s0 \<noteq> []"
    by (cases "nh_canceler t (hq_id rq)") (simp_all add: caller_steps_def nx_init_def replace_req_canceler_def)
  have r1: "nx_reach xe ?s0 ?s1" by (rule caller_next_reach [OF nx_reach.start e0])
  show ?thesis
  proof (cases "nh_canceler t (hq_id rq)")
    case None
    then have "nx_caller ?s1 = ClDone (Inl (Some NhRequestCanceled))" "nx_p ?s1 = p"
      by (simp_all add: caller_next_def caller_steps_def nx_init_def replace_req_canceler_def)
    with r1 None show ?thesis
      by (auto simp: nx_returns_def cancelled_trip_def cancelled_exchange_def Let_def)
  next
    case (Some f)
    let ?t = "nh_close p NhRequestCanceled (upd_conn p (np_canceled_update (\<lambda>_. Some NhRequestCanceled))
      (upd_conn p (np_expected_update (\<lambda>n. n + 1)) (t\<lparr>nh_canceler := (nh_canceler t)(hq_id rq := None)\<rparr>)))"
    have s1: "?s1 = ?s0\<lparr>nx_t := upd_conn p (np_expected_update (\<lambda>n. n + 1))
        (t\<lparr>nh_canceler := (nh_canceler t)(hq_id rq := Some (CancelConn p))\<rparr>), nx_caller := ClWrite\<rparr>"
      using Some by (simp add: caller_next_def caller_steps_def nx_init_def replace_req_canceler_def on_cn_def)
    let ?s2 = "on_tr (cancel_request (hq_id rq)) ?s1"
    have id: "nx_id ?s1 = hq_id rq" unfolding s1 by (simp add: nx_init_def)
    have r2: "nx_reach xe ?s0 ?s2"
      using nx_reach.step [OF r1 nx_step.cancel_called [of xe ?s1]] id by simp
    have s2: "?s2 = ?s0\<lparr>nx_t := ?t, nx_caller := ClWrite\<rparr>"
      by (simp add: s1 on_tr_def cancel_request_eq cancel_with_cases)
    have t: "np_writech (nh_store ?t p) = []" "np_reqch (nh_store ?t p) = []" "np_closech (nh_store ?t p)"
      "nh_canceled p ?t = Some NhRequestCanceled" "np_closed (nh_store ?t p) = Some NhRequestCanceled"
      using assms by (simp_all add: nx_fresh_def nh_close_ok_def nh_canceled_def nh_close_first_error)
    let ?s3 = "caller_next ?s2" let ?s4 = "caller_next ?s3" let ?s5 = "caller_next ?s4" let ?s6 = "caller_next ?s5"
    have e2: "caller_steps ?s2 \<noteq> []" "?s3 = on_cn (np_writech_update (\<lambda>_. [\<lparr>wj_req = nx_tq ?s0, wj_continue = False\<rparr>]))
        (?s0\<lparr>nx_t := ?t, nx_start := np_nwrite (nh_store ?t p), nx_caller := ClReq\<rparr>)"
      unfolding s2 using t by (simp_all add: caller_next_def caller_steps_def nx_init_def)
    have e3: "caller_steps ?s3 \<noteq> []" "nx_caller ?s4 = ClSelect" "nx_werr ?s4 = []" "nx_p ?s4 = p"
        "np_closech (nx_conn ?s4)" "np_closed (nx_conn ?s4) = Some NhRequestCanceled"
        "nh_canceled p (nx_t ?s4) = Some NhRequestCanceled"
      unfolding e2(2) using t by (simp_all add: caller_next_def caller_steps_def nx_init_def on_cn_def nh_canceled_def)
    have "nh_canceled (nx_p ?s4) (nx_t ?s4) = Some NhRequestCanceled" by (simp only: e3)
    note e5 = cancelled_select [of ?s4, OF e3(2,3,5,6) this]
    have "nx_reach xe ?s0 ?s6"
      by (intro caller_next_reach r2 e2(1) e3(1) e5(1,2))
    with e5(3,4) e3(4) Some show ?thesis
      by (auto simp: nx_returns_def cancelled_trip_def cancelled_exchange_def Let_def)
  qed
qed

text \<open>A dial that always ends first, and an exchange that is always cancelled.\<close>

definition dial_first :: dial_race where
  "dial_first = \<lparr>dr_dialled = True, dr_cancel = False, dr_ctx = None, dr_cancels = []\<rparr>"

definition example_getc :: "conn_method \<Rightarrow> nh_state \<Rightarrow> (nh_error + nat) \<times> nh_state" where
  "example_getc cm t = hd (nh_get_conn example_ne cm 4 dial_first t)"

lemma example_getc_in: "example_getc cm t \<in> set (nh_get_conn example_ne cm 4 dial_first t)"
proof -
  have "dial_select \<lparr>dw_dial = Some v, dw_cancel = False, dw_ctx = None, dw_cancelc = c\<rparr> \<noteq> []" for v c
    by (cases v) (simp_all add: dial_select_def)
  then show ?thesis unfolding example_getc_def
    by (intro hd_in_set) (simp add: nh_get_conn_def nh_get_idle_conn_def Let_def dial_first_def split: prod.split)
qed

definition nonhttps_rq :: nh_request where
  "nonhttps_rq = \<lparr>hq_id = 4, hq_http = empty_request\<lparr>rq_url := Some (empty_url\<lparr>u_scheme := ''nonhttps'', u_host := ''a.org''\<rparr>)\<rparr>,
     hq_original = CtxBytes ''x''\<rparr>"

lemma nonhttps_method: "nh_connect_method Inr (empty_url\<lparr>u_scheme := ''nonhttps'', u_host := ''a.org''\<rparr>) = Inr (example_km ''a.org:443'')"
  by code_simp

theorem round_trip_single_attempt_witness:
  "nh_round_trip Inr example_getc (cancelled_trip nonhttps_rq) nonhttps_rq nh_zero =
    (case example_getc (example_km ''a.org:443'') nh_zero of
       (Inl e, t1) \<Rightarrow> Some (Val (Inl e), set_req_canceler (hq_id nonhttps_rq) None t1)
     | (Inr p, t1) \<Rightarrow> (case cancelled_trip nonhttps_rq p t1 of
         (Inr r, t2) \<Rightarrow> Some (Val (Inr r), t2)
       | (Inl e, t2) \<Rightarrow> Some (Val (Inl (unwrap_server_error e)), t2)))"
proof (rule round_trip_single_attempt [where ne = example_ne and xe = example_xe and b = "''x''"])
  show "\<exists>w. example_getc cm t \<in> set (nh_get_conn example_ne cm (hq_id nonhttps_rq) w t)" for cm t
    using example_getc_in by (auto simp: nonhttps_rq_def)
  show "nx_fresh t p \<Longrightarrow> nx_returns example_xe t p nonhttps_rq (fst (cancelled_trip nonhttps_rq p t))
      (snd (cancelled_trip nonhttps_rq p t))" for t p
    by (rule cancelled_returns)
  show "nh_connect_method Inr (empty_url\<lparr>u_scheme := ''nonhttps'', u_host := ''a.org''\<rparr>) = Inr (example_km ''a.org:443'')"
    by (rule nonhttps_method)
qed (simp_all add: nonhttps_rq_def)

end
