(* ===== verification/Nonhttp_Gzip.thy ===== *)
theory Nonhttp_Gzip
  imports Nonhttp_Exchange
begin

text \<open>
  \<open>nonhttproundtripper.go\<close>: \<open>gzipReader\<close>, the body of a response that is decompressed as it is read. The
  body underneath is a state, and reading a compressed stream from it is done by \<open>compress/gzip\<close>,
  which is a parameter. (\<open>addedGzip\<close> is false in every exchange, so no response gets such a body.)
\<close>

record ('z) gzip_reader =
  gz_zr :: "'z option"
  gz_err :: "nh_error option"

text \<open>
  What is used of the body and of the library: whether the body was closed, its \<open>Close\<close>, and making a
  reader of the compressed stream and reading from it, both of which may read the body.
\<close>

record ('b, 'z) gzip_lib =
  gl_closed :: "'b \<Rightarrow> bool"
  gl_close :: "'b \<Rightarrow> nh_error option \<times> 'b"
  gl_new :: "'b \<Rightarrow> (nh_error + 'z) \<times> 'b"
  gl_read :: "'z \<Rightarrow> nat \<Rightarrow> 'b \<Rightarrow> ((string \<times> nh_error option) \<times> 'z) \<times> 'b"

definition gz_start :: "'z gzip_reader" where
  "gz_start = \<lparr>gz_zr = None, gz_err = None\<rparr>"

definition gz_open :: "('b, 'z) gzip_lib \<Rightarrow> 'z gzip_reader \<Rightarrow> 'b \<Rightarrow> 'z gzip_reader \<times> 'b" where
  "gz_open lib gz b =
     (if gz_zr gz = None \<and> gz_err gz = None
      then (case gl_new lib b of
          (Inl e, b1) \<Rightarrow> (gz\<lparr>gz_err := Some e\<rparr>, b1)
        | (Inr z, b1) \<Rightarrow> (gz\<lparr>gz_zr := Some z\<rparr>, b1))
      else (gz, b))"

definition gz_read :: "('b, 'z) gzip_lib \<Rightarrow> nat \<Rightarrow> 'z gzip_reader \<Rightarrow> 'b \<Rightarrow>
    (string \<times> nh_error option) \<times> 'z gzip_reader \<times> 'b" where
  "gz_read lib k gz0 b0 = (case gz_open lib gz0 b0 of (gz, b) \<Rightarrow>
     (case gz_zr gz of
        None \<Rightarrow> (([], gz_err gz), gz, b)
      | Some z \<Rightarrow>
          (if gl_closed lib b then (([], Some NhReadOnClosedBody), gz, b)
           else case gl_read lib z k b of ((r, z1), b1) \<Rightarrow> (r, gz\<lparr>gz_zr := Some z1\<rparr>, b1))))"

definition gz_close :: "('b, 'z) gzip_lib \<Rightarrow> 'b \<Rightarrow> nh_error option \<times> 'b" where
  "gz_close lib b = gl_close lib b"

text \<open>
  A stream that does not begin like one of gzip fails once and for all: the first read asks the library, and every later
  read returns the same error and leaves the body alone.
\<close>

lemma gz_error_sticks:
  assumes "gl_new lib b = (Inl e, b1)"
  shows "gz_read lib k gz_start b = (([], Some e), \<lparr>gz_zr = None, gz_err = Some e\<rparr>, b1)"
    "gz_read lib j \<lparr>gz_zr = None, gz_err = Some e\<rparr> b2 = (([], Some e), \<lparr>gz_zr = None, gz_err = Some e\<rparr>, b2)"
  using assms by (simp_all add: gz_read_def gz_open_def gz_start_def)

text \<open>Once the stream was begun, a closed body is not read any more.\<close>

lemma gz_closed_not_read:
  "gz_zr gz = Some z \<Longrightarrow> gl_closed lib b \<Longrightarrow> gz_read lib k gz b = (([], Some NhReadOnClosedBody), gz, b)"
  by (simp add: gz_read_def gz_open_def)

text \<open>A reader never has both a stream and an error.\<close>

lemma gz_one_of_both:
  "gz_zr gz = None \<or> gz_err gz = None \<Longrightarrow> gz_read lib k gz b = (r, gz1, b1) \<Longrightarrow> gz_zr gz1 = None \<or> gz_err gz1 = None"
  by (auto simp: gz_read_def gz_open_def split: if_splits option.splits prod.splits sum.splits)

end
