(* ===== verification/Goroutines.thy ===== *)
theory Goroutines
  imports Go_Prelude
begin

text \<open>
  Goroutines that share memory and locks, for the parts of the program whose correctness is that of
  their locking (\<open>Cert_Race\<close>). A goroutine is the tree of its actions on what it shares; an access to a map or a
  field takes two steps, its beginning and its end, and two accesses to the same place that overlap,
  one of them a write, are a race: what the runtime of Go reports as concurrent map read and map
  write. A discipline, checked on the code of each goroutine alone, excludes races and deadlocks for
  any number of goroutines.
\<close>

section \<open>The code of a goroutine\<close>

datatype mode = NoLock | RdLock | WrLock

text \<open>A mode permits what a smaller one does.\<close>

primrec mode_rank :: "mode \<Rightarrow> nat" where
  "mode_rank NoLock = 0"
| "mode_rank RdLock = 1"
| "mode_rank WrLock = 2"

instantiation mode :: linorder
begin

definition less_eq_mode :: "mode \<Rightarrow> mode \<Rightarrow> bool" where
  "less_eq_mode m n \<longleftrightarrow> mode_rank m \<le> mode_rank n"

definition less_mode :: "mode \<Rightarrow> mode \<Rightarrow> bool" where
  "less_mode m n \<longleftrightarrow> mode_rank m < mode_rank n"

instance
proof
  fix m n :: mode
  show "m \<le> n \<Longrightarrow> n \<le> m \<Longrightarrow> m = n"
    by (cases m; cases n) (simp_all add: less_eq_mode_def)
qed (auto simp: less_eq_mode_def less_mode_def)

end

lemma mode_order [simp]:
  "RdLock \<le> m \<longleftrightarrow> m \<noteq> NoLock" "WrLock \<le> m \<longleftrightarrow> m = WrLock"
  by (cases m; simp add: less_eq_mode_def)+

text \<open>
  \<open>'l\<close> are the locks, \<open>'r\<close> the shared places, \<open>'v\<close> the values under the keys of a place, \<open>'a\<close> results. \<open>Put\<close> of \<open>None\<close>
  deletes the key; \<open>New\<close> makes a place that nobody else knows yet; \<open>Exit\<close> ends the program, as
  \<open>os.Exit\<close> or a panic does.
\<close>

datatype ('l, 'r, 'v, 'a) prog =
    Fin 'a
  | Exit string
  | Acquire 'l mode "('l, 'r, 'v, 'a) prog"
  | Release 'l mode "('l, 'r, 'v, 'a) prog"
  | Get 'r string "'v option \<Rightarrow> ('l, 'r, 'v, 'a) prog"
  | Put 'r string "'v option" "('l, 'r, 'v, 'a) prog"
  | New "nat \<Rightarrow> 'r" "string \<Rightarrow> 'v option" "nat \<Rightarrow> ('l, 'r, 'v, 'a) prog"

section \<open>The machine\<close>

record ('l, 'r, 'v, 'a) mach =
  mc_count :: nat
  mc_prog :: "nat \<Rightarrow> ('l, 'r, 'v, 'a) prog"
  mc_held :: "nat \<Rightarrow> 'l \<Rightarrow> mode"
  mc_access :: "nat \<Rightarrow> ('r \<times> bool) option"
  mc_heap :: "'r \<Rightarrow> string \<Rightarrow> 'v option"
  mc_fresh :: nat
  mc_races :: "'r list"
  mc_exit :: "string option"

text \<open>An RWMutex (or a Mutex, which is only ever taken for writing).\<close>

definition can_acquire :: "('l, 'r, 'v, 'a) mach \<Rightarrow> 'l \<Rightarrow> mode \<Rightarrow> bool" where
  "can_acquire s l m \<longleftrightarrow>
     list_all (\<lambda>j. mc_held s j l = NoLock \<or> (m = RdLock \<and> mc_held s j l = RdLock)) [0..<mc_count s]"

definition set_held :: "nat \<Rightarrow> 'l \<Rightarrow> mode \<Rightarrow> ('l, 'r, 'v, 'a) mach \<Rightarrow> ('l, 'r, 'v, 'a) mach" where
  "set_held i l m s = s\<lparr>mc_held := (mc_held s)(i := (mc_held s i)(l := m))\<rparr>"

definition goes_on :: "nat \<Rightarrow> ('l, 'r, 'v, 'a) prog \<Rightarrow> ('l, 'r, 'v, 'a) mach \<Rightarrow> ('l, 'r, 'v, 'a) mach" where
  "goes_on i p s = s\<lparr>mc_prog := (mc_prog s)(i := p)\<rparr>"

definition races_with :: "('r \<times> bool) option \<Rightarrow> 'r \<Rightarrow> bool \<Rightarrow> bool" where
  "races_with a r w \<longleftrightarrow> (case a of None \<Rightarrow> False | Some (q, v) \<Rightarrow> q = r \<and> (v \<or> w))"

definition begin_access :: "nat \<Rightarrow> 'r \<Rightarrow> bool \<Rightarrow> ('l, 'r, 'v, 'a) mach \<Rightarrow> ('l, 'r, 'v, 'a) mach" where
  "begin_access i r w s = s\<lparr>mc_access := (mc_access s)(i := Some (r, w)),
     mc_races := (if list_ex (\<lambda>j. j \<noteq> i \<and> races_with (mc_access s j) r w) [0..<mc_count s]
                  then r # mc_races s else mc_races s)\<rparr>"

definition end_access :: "nat \<Rightarrow> ('l, 'r, 'v, 'a) mach \<Rightarrow> ('l, 'r, 'v, 'a) mach" where
  "end_access i s = s\<lparr>mc_access := (mc_access s)(i := None)\<rparr>"

definition put_heap :: "'r \<Rightarrow> string \<Rightarrow> 'v option \<Rightarrow> ('l, 'r, 'v, 'a) mach \<Rightarrow> ('l, 'r, 'v, 'a) mach" where
  "put_heap r k v s = s\<lparr>mc_heap := (mc_heap s)(r := (mc_heap s r)(k := v))\<rparr>"

text \<open>A step of goroutine \<open>i\<close>; none when it has ended, waits for a lock, or the program has exited.\<close>

definition go_step :: "nat \<Rightarrow> ('l, 'r, 'v, 'a) mach \<Rightarrow> ('l, 'r, 'v, 'a) mach option" where
  "go_step i s =
     (if mc_exit s \<noteq> None then None
      else case mc_prog s i of
        Fin a \<Rightarrow> None
      | Exit m \<Rightarrow> Some (s\<lparr>mc_exit := Some m\<rparr>)
      | Acquire l m p \<Rightarrow> (if can_acquire s l m then Some (goes_on i p (set_held i l m s)) else None)
      | Release l m p \<Rightarrow>
          (if mc_held s i l = m then Some (goes_on i p (set_held i l NoLock s))
           else Some (s\<lparr>mc_exit := Some ''fatal error: unlock of unlocked mutex''\<rparr>))
      | Get r k c \<Rightarrow>
          (if mc_access s i = None then Some (begin_access i r False s)
           else Some (goes_on i (c (mc_heap s r k)) (end_access i s)))
      | Put r k v p \<Rightarrow>
          (if mc_access s i = None then Some (begin_access i r True s)
           else Some (goes_on i p (end_access i (put_heap r k v s))))
      | New mk f c \<Rightarrow>
          Some (goes_on i (c (mc_fresh s)) (s\<lparr>mc_heap := (mc_heap s)(mk (mc_fresh s) := f), mc_fresh := mc_fresh s + 1\<rparr>)))"

inductive go_run :: "('l, 'r, 'v, 'a) mach \<Rightarrow> ('l, 'r, 'v, 'a) mach \<Rightarrow> bool" for s0 where
  start: "go_run s0 s0"
| step: "go_run s0 s \<Longrightarrow> i < mc_count s \<Longrightarrow> go_step i s = Some s' \<Longrightarrow> go_run s0 s'"

text \<open>The goroutines \<open>ps\<close> at their beginning, on a heap.\<close>

definition start_all :: "('l, 'r, 'v, 'a) prog list \<Rightarrow> ('r \<Rightarrow> string \<Rightarrow> 'v option) \<Rightarrow> nat \<Rightarrow> ('l, 'r, 'v, 'a) mach" where
  "start_all ps heap fresh = \<lparr>mc_count = length ps, mc_prog = (\<lambda>i. ps ! i), mc_held = (\<lambda>i l. NoLock),
     mc_access = (\<lambda>i. None), mc_heap = heap, mc_fresh = fresh, mc_races = [], mc_exit = None\<rparr>"

text \<open>A run by a schedule: the goroutines whose turn it is; a turn of one that cannot go on is skipped.\<close>

primrec run_schedule :: "nat list \<Rightarrow> ('l, 'r, 'v, 'a) mach \<Rightarrow> ('l, 'r, 'v, 'a) mach" where
  "run_schedule [] s = s"
| "run_schedule (i # is) s = run_schedule is
     (if i < mc_count s then (case go_step i s of None \<Rightarrow> s | Some s' \<Rightarrow> s') else s)"

lemma run_schedule_run: "go_run s0 s \<Longrightarrow> go_run s0 (run_schedule is s)"
proof (induction "is" arbitrary: s)
  case (Cons i "is")
  show ?case
  proof (cases "i < mc_count s \<and> go_step i s \<noteq> None")
    case True
    then obtain s' where "i < mc_count s" "go_step i s = Some s'" by auto
    with Cons.IH [OF go_run.step [OF Cons.prems this]] show ?thesis by simp
  next
    case False
    with Cons show ?thesis by auto
  qed
qed simp

section \<open>The discipline\<close>

text \<open>
  Each place has a lock that guards it, or none when it never changes; locks have ranks. The code of
  a goroutine that holds \<open>h\<close> is disciplined when it reads a guarded place only while it holds the
  lock, writes it only while it holds it for writing, takes locks in the order of their ranks, gives back what it
  holds, and holds nothing at its end.
\<close>

definition may_read :: "('r \<Rightarrow> 'l option) \<Rightarrow> ('l \<Rightarrow> mode) \<Rightarrow> 'r \<Rightarrow> bool" where
  "may_read guard h r \<longleftrightarrow> (case guard r of None \<Rightarrow> True | Some l \<Rightarrow> RdLock \<le> h l)"

definition may_write :: "('r \<Rightarrow> 'l option) \<Rightarrow> ('l \<Rightarrow> mode) \<Rightarrow> 'r \<Rightarrow> bool" where
  "may_write guard h r \<longleftrightarrow> (case guard r of None \<Rightarrow> False | Some l \<Rightarrow> WrLock \<le> h l)"

primrec disciplined :: "('r \<Rightarrow> 'l option) \<Rightarrow> ('l \<Rightarrow> nat) \<Rightarrow> ('l \<Rightarrow> mode) \<Rightarrow> ('l, 'r, 'v, 'a) prog \<Rightarrow> bool" where
  "disciplined guard rank h (Fin a) \<longleftrightarrow> h = (\<lambda>l. NoLock)"
| "disciplined guard rank h (Exit m) \<longleftrightarrow> True"
| "disciplined guard rank h (Acquire l m p) \<longleftrightarrow> m \<noteq> NoLock \<and> h l = NoLock \<and>
     (\<forall>l'. h l' \<noteq> NoLock \<longrightarrow> rank l' < rank l) \<and> disciplined guard rank (h(l := m)) p"
| "disciplined guard rank h (Release l m p) \<longleftrightarrow> m \<noteq> NoLock \<and> h l = m \<and> disciplined guard rank (h(l := NoLock)) p"
| "disciplined guard rank h (Get r k c) \<longleftrightarrow> may_read guard h r \<and> (\<forall>v. disciplined guard rank h (c v))"
| "disciplined guard rank h (Put r k v p) \<longleftrightarrow> may_write guard h r \<and> disciplined guard rank h p"
| "disciplined guard rank h (New mk f c) \<longleftrightarrow> (\<forall>n. disciplined guard rank h (c n))"

text \<open>A goroutine that is in the middle of an access is at that access.\<close>

definition access_fits :: "('r \<times> bool) option \<Rightarrow> ('l, 'r, 'v, 'a) prog \<Rightarrow> bool" where
  "access_fits a p \<longleftrightarrow> (case a of None \<Rightarrow> True
     | Some (r, False) \<Rightarrow> (case p of Get q k c \<Rightarrow> q = r | _ \<Rightarrow> False)
     | Some (r, True) \<Rightarrow> (case p of Put q k v p' \<Rightarrow> q = r | _ \<Rightarrow> False))"

definition mach_ok :: "('r \<Rightarrow> 'l option) \<Rightarrow> ('l \<Rightarrow> nat) \<Rightarrow> ('l, 'r, 'v, 'a) mach \<Rightarrow> bool" where
  "mach_ok guard rank s \<longleftrightarrow> mc_races s = [] \<and>
     (\<forall>i<mc_count s. disciplined guard rank (mc_held s i) (mc_prog s i) \<and> access_fits (mc_access s i) (mc_prog s i)) \<and>
     (\<forall>i<mc_count s. \<forall>j<mc_count s. \<forall>l. i \<noteq> j \<longrightarrow> mc_held s i l = WrLock \<longrightarrow> mc_held s j l = NoLock)"

lemma mach_okD:
  assumes "mach_ok guard rank s"
  shows "mc_races s = []"
    "i < mc_count s \<Longrightarrow> disciplined guard rank (mc_held s i) (mc_prog s i)"
    "i < mc_count s \<Longrightarrow> access_fits (mc_access s i) (mc_prog s i)"
    "i < mc_count s \<Longrightarrow> j < mc_count s \<Longrightarrow> i \<noteq> j \<Longrightarrow> mc_held s i l = WrLock \<Longrightarrow> mc_held s j l = NoLock"
  using assms by (auto simp: mach_ok_def)

lemma start_all_ok:
  "(\<And>p. p \<in> set ps \<Longrightarrow> disciplined guard rank (\<lambda>l. NoLock) p) \<Longrightarrow> mach_ok guard rank (start_all ps heap fresh)"
  by (simp add: mach_ok_def start_all_def access_fits_def)

section \<open>No races\<close>

text \<open>The lock a goroutine holds while it is in the middle of an access.\<close>

lemma access_held:
  assumes "access_fits (Some (r, w)) p" "disciplined guard rank h p"
  shows "case guard r of None \<Rightarrow> \<not> w | Some l \<Rightarrow> h l \<noteq> NoLock \<and> (w \<longrightarrow> h l = WrLock)"
  using assms
  by (cases w; cases p) (auto simp: access_fits_def may_read_def may_write_def split: option.splits)

lemma no_conflict:
  assumes ok: "mach_ok guard rank s" and i: "i < mc_count s" "j < mc_count s" "j \<noteq> i"
    and at: "access_fits (Some (r, w)) (mc_prog s i)"
  shows "\<not> races_with (mc_access s j) r w"
proof
  assume "races_with (mc_access s j) r w"
  then obtain v where v: "mc_access s j = Some (r, v)" "v \<or> w"
    by (auto simp: races_with_def split: option.splits prod.splits)
  note mine = access_held [OF at mach_okD(2) [OF ok i(1)]]
  note other = access_held [OF mach_okD(3) [OF ok i(2), unfolded v(1)] mach_okD(2) [OF ok i(2)]]
  show False
  proof (cases "guard r")
    case None
    with mine other v(2) show False by simp
  next
    case (Some l)
    with mine other v(2) mach_okD(4) [OF ok i(1,2), of l] mach_okD(4) [OF ok i(2,1), of l] i(3)
    show False by auto
  qed
qed

lemma begin_access_ok:
  assumes ok: "mach_ok guard rank s" and i: "i < mc_count s"
    and at: "access_fits (Some (r, w)) (mc_prog s i)"
  shows "mach_ok guard rank (begin_access i r w s)"
proof -
  have "\<not> list_ex (\<lambda>j. j \<noteq> i \<and> races_with (mc_access s j) r w) [0..<mc_count s]"
    using no_conflict [OF ok i _ _ at] by (auto simp: list_ex_iff)
  with assms show ?thesis by (auto simp: mach_ok_def begin_access_def)
qed

text \<open>A step that moves one goroutine on, and leaves the others their locks.\<close>

lemma goes_on_ok:
  assumes ok: "mach_ok guard rank s" and i: "i < mc_count s"
    and p: "disciplined guard rank h p"
    and s': "mc_count s' = mc_count s" "mc_races s' = mc_races s" "mc_prog s' = (mc_prog s)(i := p)"
      "mc_held s' = (mc_held s)(i := h)" "mc_access s' = (mc_access s)(i := None)"
    and free: "\<And>j l. j < mc_count s \<Longrightarrow> j \<noteq> i \<Longrightarrow> h l \<noteq> NoLock \<Longrightarrow>
      h l = mc_held s i l \<or> mc_held s j l = NoLock \<or> h l = RdLock \<and> mc_held s j l = RdLock"
  shows "mach_ok guard rank s'"
proof -
  have "mc_held s' j l = NoLock" if "mc_held s' k l = WrLock" "k < mc_count s" "j < mc_count s" "k \<noteq> j" for k j l
  proof -
    consider "k = i" | "j = i" "k \<noteq> i" | "k \<noteq> i" "j \<noteq> i" by blast
    then show ?thesis
    proof cases
      case 1
      with that s' free [of j l] mach_okD(4) [OF ok, of i j l] show ?thesis by auto
    next
      case 2
      with that s' free [of k l] mach_okD(4) [OF ok, of k i l] show ?thesis by force
    next
      case 3
      with that s' mach_okD(4) [OF ok, of k j l] show ?thesis by auto
    qed
  qed
  with ok i p s' show ?thesis by (auto simp: mach_ok_def access_fits_def)
qed

lemma access_none: "access_fits a p \<Longrightarrow> (\<And>r k c. p \<noteq> Get r k c) \<Longrightarrow> (\<And>r k v p'. p \<noteq> Put r k v p') \<Longrightarrow> a = None"
  by (cases p; cases a) (auto simp: access_fits_def split: bool.splits)

lemma mach_ok_exit: "mach_ok guard rank s \<Longrightarrow> mach_ok guard rank (s\<lparr>mc_exit := e\<rparr>)"
  by (simp add: mach_ok_def)

lemma go_step_ok:
  assumes ok: "mach_ok guard rank s" and i: "i < mc_count s" and step: "go_step i s = Some s'"
  shows "mach_ok guard rank s'"
proof -
  note d = mach_okD(2) [OF ok i] and a = mach_okD(3) [OF ok i]
  have e: "mc_exit s = None" using step by (auto simp: go_step_def split: if_splits)
  have same: "mc_access s = (mc_access s)(i := None)"
    if "\<And>r k c. mc_prog s i \<noteq> Get r k c" "\<And>r k v p. mc_prog s i \<noteq> Put r k v p"
    using access_none [OF a that] by (metis fun_upd_triv)
  show ?thesis
  proof (cases "mc_prog s i")
    case (Fin x)
    with step e show ?thesis by (simp add: go_step_def)
  next
    case (Exit m)
    with step e ok show ?thesis by (auto simp: go_step_def mach_ok_exit)
  next
    case (Acquire l m p)
    with step e have c: "can_acquire s l m" "s' = goes_on i p (set_held i l m s)"
      by (auto simp: go_step_def split: if_splits)
    show ?thesis
    proof (rule goes_on_ok [OF ok i, of "(mc_held s i)(l := m)" p])
      show "disciplined guard rank ((mc_held s i)(l := m)) p" using d Acquire by simp
    qed (use c same Acquire in \<open>auto simp: goes_on_def set_held_def can_acquire_def list_all_iff\<close>)
  next
    case (Release l m p)
    with d have "disciplined guard rank ((mc_held s i)(l := NoLock)) p" "mc_held s i l = m" by simp_all
    with step e Release same show ?thesis
      by (intro goes_on_ok [OF ok i, of "(mc_held s i)(l := NoLock)" p])
        (auto simp: go_step_def goes_on_def set_held_def)
  next
    case (Get r k c)
    show ?thesis
    proof (cases "mc_access s i")
      case None
      with step e Get begin_access_ok [OF ok i, of r False] show ?thesis
        by (simp add: go_step_def access_fits_def)
    next
      case (Some x)
      with step e Get d show ?thesis
        by (intro goes_on_ok [OF ok i, of "mc_held s i" "c (mc_heap s r k)"])
          (auto simp: go_step_def goes_on_def end_access_def)
    qed
  next
    case (Put r k v p)
    show ?thesis
    proof (cases "mc_access s i")
      case None
      with step e Put begin_access_ok [OF ok i, of r True] show ?thesis
        by (simp add: go_step_def access_fits_def)
    next
      case (Some x)
      with step e Put d show ?thesis
        by (intro goes_on_ok [OF ok i, of "mc_held s i" p])
          (auto simp: go_step_def goes_on_def end_access_def put_heap_def)
    qed
  next
    case (New mk f c)
    with step e d same show ?thesis
      by (intro goes_on_ok [OF ok i, of "mc_held s i" "c (mc_fresh s)"])
        (auto simp: go_step_def goes_on_def)
  qed
qed

lemma go_step_count: "go_step i s = Some s' \<Longrightarrow> mc_count s' = mc_count s"
  by (auto simp: go_step_def goes_on_def set_held_def begin_access_def end_access_def put_heap_def
      split: if_splits prog.splits)

lemma go_run_ok:
  "go_run s0 s \<Longrightarrow> mach_ok guard rank s0 \<Longrightarrow> mach_ok guard rank s \<and> mc_count s = mc_count s0"
  by (induction rule: go_run.induct) (auto simp: go_step_ok go_step_count)

text \<open>The discipline excludes races.\<close>

lemma disciplined_race_free:
  assumes "\<And>p. p \<in> set ps \<Longrightarrow> disciplined guard rank (\<lambda>l. NoLock) p" "go_run (start_all ps heap fresh) s"
  shows "mc_races s = []"
  using go_run_ok [OF assms(2) start_all_ok [OF assms(1)]] by (simp add: mach_ok_def)

section \<open>No deadlocks\<close>

definition ended :: "('l, 'r, 'v, 'a) prog \<Rightarrow> bool" where
  "ended p \<longleftrightarrow> (case p of Fin a \<Rightarrow> True | _ \<Rightarrow> False)"

lemma go_step_none: "go_step i s = None \<longleftrightarrow> mc_exit s \<noteq> None \<or>
    (case mc_prog s i of Fin a \<Rightarrow> True | Acquire l m p \<Rightarrow> \<not> can_acquire s l m | _ \<Rightarrow> False)"
  by (cases "mc_prog s i") (simp_all add: go_step_def)

definition result_of :: "('l, 'r, 'v, 'a) prog \<Rightarrow> 'a option" where
  "result_of p = (case p of Fin a \<Rightarrow> Some a | _ \<Rightarrow> None)"

text \<open>A goroutine that has not ended and cannot go on waits for a lock that another one holds.\<close>

lemma blocked_waits:
  assumes "mach_ok guard rank s" "i < mc_count s" "mc_exit s = None" "go_step i s = None" "\<not> ended (mc_prog s i)"
  obtains l m p j where "mc_prog s i = Acquire l m p" "j < mc_count s" "mc_held s j l \<noteq> NoLock"
    "\<And>l'. mc_held s i l' \<noteq> NoLock \<Longrightarrow> rank l' < rank l"
proof -
  from assms(3-5) obtain l m p where a: "mc_prog s i = Acquire l m p" "\<not> can_acquire s l m"
    by (cases "mc_prog s i") (simp_all add: go_step_none ended_def)
  from a(2) obtain j where j: "j < mc_count s" "mc_held s j l \<noteq> NoLock"
    unfolding can_acquire_def list_all_iff by auto
  have "rank l' < rank l" if "mc_held s i l' \<noteq> NoLock" for l'
    using mach_okD(2) [OF assms(1,2)] that by (simp add: a(1))
  with a(1) j show thesis by (rule that)
qed

text \<open>The goroutine that waits for the lock of the highest rank would wait for one that waits for a higher one.\<close>

lemma disciplined_progress:
  assumes ok: "mach_ok guard rank s" and e: "mc_exit s = None" and i: "i < mc_count s" "\<not> ended (mc_prog s i)"
  shows "\<exists>j<mc_count s. go_step j s \<noteq> None"
proof (rule ccontr)
  assume "\<not> (\<exists>j<mc_count s. go_step j s \<noteq> None)"
  then have stuck: "go_step j s = None" if "j < mc_count s" for j using that by blast
  define W where "W = {rank l |j l m p. j < mc_count s \<and> mc_prog s j = Acquire l m p}"
  have "W \<subseteq> (\<lambda>j. case mc_prog s j of Acquire l m p \<Rightarrow> rank l | _ \<Rightarrow> 0) ` {..<mc_count s}"
    by (force simp: W_def image_iff)
  then have fin: "finite W" by (rule finite_subset) simp
  obtain l m p where "mc_prog s i = Acquire l m p"
    using blocked_waits [OF ok i(1) e stuck [OF i(1)] i(2)] by metis
  then have "rank l \<in> W" using i(1) by (auto simp: W_def)
  then have ne: "W \<noteq> {}" by blast
  from Max_in [OF fin ne] obtain j l m p where j: "j < mc_count s" "mc_prog s j = Acquire l m p" "rank l = Max W"
    by (auto simp: W_def)
  have "\<not> ended (mc_prog s j)" using j(2) by (simp add: ended_def)
  from blocked_waits [OF ok j(1) e stuck [OF j(1)] this] j(2)
  obtain k where k: "k < mc_count s" "mc_held s k l \<noteq> NoLock" by auto
  have "\<not> ended (mc_prog s k)"
    using mach_okD(2) [OF ok k(1)] k(2) by (auto simp: ended_def split: prog.splits)
  from blocked_waits [OF ok k(1) e stuck [OF k(1)] this] k(2)
  obtain l' m' p' where "mc_prog s k = Acquire l' m' p'" "rank l < rank l'" by metis
  with k(1) have "rank l' \<in> W" "Max W < rank l'" using j(3) by (auto simp: W_def)
  with Max_ge [OF fin, of "rank l'"] show False by simp
qed

section \<open>One goroutine alone\<close>

text \<open>What a goroutine does when no other one runs: its result, the heap it leaves and the next free place.\<close>

primrec alone :: "('l, 'r, 'v, 'a) prog \<Rightarrow> ('r \<Rightarrow> string \<Rightarrow> 'v option) \<Rightarrow> nat
    \<Rightarrow> (string + 'a) \<times> ('r \<Rightarrow> string \<Rightarrow> 'v option) \<times> nat" where
  "alone (Fin a) hp n = (Inr a, hp, n)"
| "alone (Exit m) hp n = (Inl m, hp, n)"
| "alone (Acquire l m p) hp n = alone p hp n"
| "alone (Release l m p) hp n = alone p hp n"
| "alone (Get r k c) hp n = alone (c (hp r k)) hp n"
| "alone (Put r k v p) hp n = alone p (hp(r := (hp r)(k := v))) n"
| "alone (New mk f c) hp n = alone (c n) (hp(mk n := f)) (n + 1)"

definition at_rest :: "('l, 'r, 'v, 'a) mach \<Rightarrow> bool" where
  "at_rest s \<longleftrightarrow> mc_count s = 1 \<and> mc_exit s = None \<and> mc_access s 0 = None"

lemma one_step: "go_run s0 s \<Longrightarrow> at_rest s \<Longrightarrow> go_step 0 s = Some s' \<Longrightarrow> go_run s0 s'"
  by (rule go_run.step [of _ s 0]) (simp_all add: at_rest_def)

lemma two_steps:
  "go_run s0 s \<Longrightarrow> at_rest s \<Longrightarrow> go_step 0 s = Some u \<Longrightarrow> go_step 0 u = Some s' \<Longrightarrow> go_run s0 s'"
  by (rule go_run.step [of _ u 0]) (simp_all add: one_step go_step_count at_rest_def)

text \<open>The machine with the one goroutine gets there.\<close>

lemma alone_runs:
  assumes "go_run s0 s" "at_rest s" "disciplined guard rank (mc_held s 0) p" "mc_prog s 0 = p"
    "alone p (mc_heap s) (mc_fresh s) = (r, hp, n)"
  shows "\<exists>s'. go_run s0 s' \<and> mc_heap s' = hp \<and> mc_fresh s' = n \<and>
    (case r of Inl m \<Rightarrow> mc_exit s' = Some m | Inr a \<Rightarrow> mc_exit s' = None \<and> mc_prog s' 0 = Fin a)"
  using assms
proof (induction p arbitrary: s)
  case (Fin a)
  then show ?case by (auto simp: at_rest_def)
next
  case (Exit m)
  then have "go_step 0 s = Some (s\<lparr>mc_exit := Some m\<rparr>)" by (simp add: go_step_def at_rest_def)
  from one_step [OF Exit.prems(1,2) this] Exit.prems(5) show ?case by auto
next
  case (Acquire l m p)
  then have "go_step 0 s = Some (goes_on 0 p (set_held 0 l m s))"
    by (simp add: go_step_def at_rest_def can_acquire_def)
  from Acquire.IH [OF one_step [OF Acquire.prems(1,2) this]] Acquire.prems show ?case
    by (simp add: at_rest_def goes_on_def set_held_def fun_upd_def)
next
  case (Release l m p)
  then have "go_step 0 s = Some (goes_on 0 p (set_held 0 l NoLock s))"
    by (simp add: go_step_def at_rest_def)
  from Release.IH [OF one_step [OF Release.prems(1,2) this]] Release.prems show ?case
    by (simp add: at_rest_def goes_on_def set_held_def fun_upd_def)
next
  case (Get r k c)
  let ?u = "begin_access 0 r False s"
  let ?s = "goes_on 0 (c (mc_heap s r k)) (end_access 0 ?u)"
  have "go_step 0 s = Some ?u" "go_step 0 ?u = Some ?s"
    using Get.prems by (simp_all add: go_step_def at_rest_def begin_access_def)
  from Get.IH [OF rangeI two_steps [OF Get.prems(1,2) this]] Get.prems show ?case
    by (simp add: at_rest_def goes_on_def begin_access_def end_access_def)
next
  case (Put r k v p)
  let ?u = "begin_access 0 r True s"
  let ?s = "goes_on 0 p (end_access 0 (put_heap r k v ?u))"
  have "go_step 0 s = Some ?u" "go_step 0 ?u = Some ?s"
    using Put.prems by (simp_all add: go_step_def at_rest_def begin_access_def)
  from Put.IH [OF two_steps [OF Put.prems(1,2) this]] Put.prems show ?case
    by (simp add: at_rest_def goes_on_def begin_access_def end_access_def put_heap_def fun_upd_def)
next
  case (New mk f c)
  let ?s = "goes_on 0 (c (mc_fresh s)) (s\<lparr>mc_heap := (mc_heap s)(mk (mc_fresh s) := f), mc_fresh := mc_fresh s + 1\<rparr>)"
  have "go_step 0 s = Some ?s" using New.prems by (simp add: go_step_def at_rest_def)
  from New.IH [OF rangeI one_step [OF New.prems(1,2) this]] New.prems show ?case
    by (simp add: at_rest_def goes_on_def fun_upd_def)
qed

end
