(* ===== verification/Cert_Race.thy ===== *)
theory Cert_Race
  imports Goroutines Signer
begin

text \<open>
  \<open>signer.go\<close> under concurrency: every connection has its own goroutine, and they share the map of
  hosts under the lock \<open>certmu\<close>, and the entry of each host under a lock of its own. The code of
  \<open>Signer\<close> is given again as the sequence of what it does to shared memory; run alone it is that of
  \<open>Signer\<close>, and any number of goroutines run without races and without deadlocks.
\<close>

section \<open>What is shared\<close>

text \<open>
  \<open>Hosts\<close> is the map \<open>c.Host\<close>; \<open>Info n\<close> an entry, with its fields as keys; \<open>Conf n\<close> a \<open>tls.Config\<close>. \<open>Names\<close> and \<open>Certs\<close>
  are the map \<open>NameToCertificate\<close> and the slice \<open>Certificates\<close> of the one configuration that
  \<open>signerpanic\<close> has. A nil pointer that is stored is \<open>VNil\<close>.
\<close>

datatype ref = Hosts | Names | Certs | Info nat | Conf nat

datatype lock = Certmu | Mu nat

datatype hval = VInfo nat | VTime gotime | VPtr nat | VConfig tls_config | VCert cert | VCerts "cert list" | VNil

type_synonym 'a cert_prog = "(lock, ref, hval, 'a) prog"

type_synonym cert_heap = "ref \<Rightarrow> string \<Rightarrow> hval option"

text \<open>The lock of each place, and the order of the locks. A configuration never changes once it is made.\<close>

fun cert_guard :: "ref \<Rightarrow> lock option" where
  "cert_guard (Info n) = Some (Mu n)"
| "cert_guard (Conf n) = None"
| "cert_guard r = Some Certmu"

fun cert_rank :: "lock \<Rightarrow> nat" where
  "cert_rank Certmu = 1"
| "cert_rank (Mu n) = 0"

abbreviation cert_disciplined :: "(lock \<Rightarrow> mode) \<Rightarrow> 'a cert_prog \<Rightarrow> bool" where
  "cert_disciplined \<equiv> disciplined cert_guard cert_rank"

abbreviation no_locks :: "lock \<Rightarrow> mode" where
  "no_locks \<equiv> (\<lambda>l. NoLock)"

definition as_info :: "hval option \<Rightarrow> nat option" where
  "as_info v = (case v of Some (VInfo n) \<Rightarrow> Some n | _ \<Rightarrow> None)"

definition as_time :: "hval option \<Rightarrow> gotime option" where
  "as_time v = (case v of Some (VTime t) \<Rightarrow> Some t | _ \<Rightarrow> None)"

definition as_ptr :: "hval option \<Rightarrow> nat option" where
  "as_ptr v = (case v of Some (VPtr n) \<Rightarrow> Some n | _ \<Rightarrow> None)"

definition as_config :: "hval option \<Rightarrow> tls_config option" where
  "as_config v = (case v of Some (VConfig g) \<Rightarrow> Some g | _ \<Rightarrow> None)"

definition config_cell :: "tls_config \<Rightarrow> string \<Rightarrow> hval option" where
  "config_cell g = (\<lambda>k. if k = [] then Some (VConfig g) else None)"

section \<open>Making and finding certificates\<close>

text \<open>
  The part of \<open>certWithCommonName\<close> that asks the host; the entry is read and written under its lock.
  What is done with the certificate of the host, or the error, comes as a continuation.
\<close>

definition fetch_go ::
  "signer_env \<Rightarrow> gotime \<Rightarrow> string \<Rightarrow> string \<Rightarrow> nat \<Rightarrow> (goerr + (cert option \<times> bool) \<Rightarrow> 'a cert_prog) \<Rightarrow> 'a cert_prog" where
  "fetch_go env now host port n k =
     (if contains host ''winston.conf'' then k (Inr (None, False))
      else Get (Info n) ''NextAttempt'' (\<lambda>na.
        if \<not> go_before (as_time na) now then k (Inr (None, False))
        else case dial_upstream env (host @ '':'' @ (if port = [] then ''443'' else port)) of
          Inl e \<Rightarrow> k (Inl e)
        | Inr [] \<Rightarrow> k (Inr (None, False))
        | Inr (orig # rest) \<Rightarrow> Get (Info n) ''LastVerify'' (\<lambda>lv.
            if go_before (as_time lv) (now - 60 * 60 * second) \<and> se_chain env (orig # rest) \<noteq> None
            then Put (Info n) ''NextAttempt'' (Some (VTime (now + 24 * hour))) (k (Inr (Some orig, True)))
            else k (Inr (Some orig, False)))))"

text \<open>The rest of it; a configuration is filled before anybody else can know it.\<close>

definition issue_go ::
  "signer_env \<Rightarrow> gotime \<Rightarrow> config_server \<Rightarrow> string \<Rightarrow> string \<Rightarrow> string \<Rightarrow> nat \<Rightarrow> bool
     \<Rightarrow> (goerr + nat option \<Rightarrow> 'a cert_prog) \<Rightarrow> 'a cert_prog" where
  "issue_go env now c common_name host port n found k =
     (let fails = (\<lambda>e. Release (Mu n) WrLock (k (Inl e)))
      in fetch_go env now host port n (\<lambda>up. case up of
           Inl e \<Rightarrow> fails e
         | Inr (orig, bad) \<Rightarrow> (case se_serial env of
             Inl e \<Rightarrow> fails e
           | Inr serial \<Rightarrow> (case sign_cert env (template_for env now c common_name host orig bad serial) of
               Inl e \<Rightarrow> fails e
             | Inr leaf \<Rightarrow>
                 Acquire Certmu WrLock (Put (Info n) ''LastVerify'' (Some (VTime now))
                   (if \<not> found \<or> bad
                    then New Conf (config_cell (new_config host leaf)) (\<lambda>m.
                      Put (Info n) ''Config'' (Some (VPtr m)) (Put Hosts host (Some (VInfo n))
                        (Release Certmu WrLock (Release (Mu n) WrLock (k (Inr (Some m)))))))
                    else Get (Info n) ''Config'' (\<lambda>g.
                      Release Certmu WrLock (Release (Mu n) WrLock (k (Inr (as_ptr g)))))))))))"

text \<open>The entry of a host that was found, under its lock.\<close>

definition found_go ::
  "signer_env \<Rightarrow> gotime \<Rightarrow> config_server \<Rightarrow> string \<Rightarrow> string \<Rightarrow> string \<Rightarrow> nat
     \<Rightarrow> (goerr + nat option \<Rightarrow> 'a cert_prog) \<Rightarrow> 'a cert_prog" where
  "found_go env now c common_name host port n k =
     (let hit = Get (Info n) ''Config'' (\<lambda>g. Release (Mu n) WrLock (k (Inr (as_ptr g))))
      in Get (Info n) ''LastVerify'' (\<lambda>lv.
        if \<not> go_before (as_time lv) (now - 60 * 60 * second) then hit
        else Get (Info n) ''Config'' (\<lambda>g. case as_ptr g of
            None \<Rightarrow> Exit nil_deref
          | Some m \<Rightarrow> Get (Conf m) [] (\<lambda>cf. case as_config cf of
              None \<Rightarrow> Exit nil_deref
            | Some cfg \<Rightarrow> (case verify_cached env now host cfg of
                Panic e \<Rightarrow> Exit e
              | Val None \<Rightarrow> Put (Info n) ''LastVerify'' (Some (VTime now)) hit
              | Val (Some e) \<Rightarrow> issue_go env now c common_name host port n True k)))))"

definition cert_go ::
  "signer_env \<Rightarrow> gotime \<Rightarrow> config_server \<Rightarrow> string \<Rightarrow> string \<Rightarrow> (goerr + nat option \<Rightarrow> 'a cert_prog) \<Rightarrow> 'a cert_prog" where
  "cert_go env now c hostname common_name k = (case split_hostname hostname of (host, port) \<Rightarrow>
     Acquire Certmu RdLock (Get Hosts host (\<lambda>v. Release Certmu RdLock (case as_info v of
         None \<Rightarrow> New Info (\<lambda>f. None) (\<lambda>n. Acquire (Mu n) WrLock (issue_go env now c common_name host port n False k))
       | Some n \<Rightarrow> Acquire (Mu n) WrLock (found_go env now c common_name host port n k)))))"

text \<open>\<open>FlushCert\<close> and \<open>GetTestCertificate\<close>.\<close>

definition flush_go :: "string \<Rightarrow> 'a cert_prog \<Rightarrow> 'a cert_prog" where
  "flush_go hostname k =
     Acquire Certmu WrLock (Put Hosts (fst (split_hostname hostname)) None (Release Certmu WrLock k))"

definition test_go ::
  "signer_env \<Rightarrow> gotime \<Rightarrow> config_server \<Rightarrow> string \<Rightarrow> (goerr + nat option \<Rightarrow> 'a cert_prog) \<Rightarrow> 'a cert_prog" where
  "test_go env now c host k = Acquire Certmu WrLock (case se_serial env of
     Inl e \<Rightarrow> Release Certmu WrLock (k (Inl e))
   | Inr serial \<Rightarrow>
      (case sign_cert env (own_template env serial host host (sg_key_id c) 37 (now - sg_validity c, now + sg_validity c)) of
         Inl e \<Rightarrow> Release Certmu WrLock (k (Inl e))
       | Inr leaf \<Rightarrow>
          New Conf (config_cell ((new_config host leaf)\<lparr>tg_min_version := 0, tg_max_version := 0, tg_renegotiate := False\<rparr>))
            (\<lambda>m. New Info (\<lambda>f. if f = ''Config'' then Some (VPtr m) else None)
              (\<lambda>n. Put Hosts host (Some (VInfo n)) (Release Certmu WrLock (k (Inr (Some m))))))))"

section \<open>What goroutines do with them\<close>

text \<open>
  The certificate \<open>crypto/tls\<close> takes for a client that asks for \<open>sni\<close>: the only one, one of the name
  or of the name with its first labels replaced, or the first.
\<close>

fun wild_names :: "string list \<Rightarrow> string list \<Rightarrow> string list" where
  "wild_names stars [] = []"
| "wild_names stars (l # ls) = join_with ''.'' (stars @ [''*''] @ ls) # wild_names (stars @ [''*'']) ls"

definition candidate_names :: "string \<Rightarrow> string list" where
  "candidate_names sni =
     (let name = rev (dropWhile (\<lambda>c. c = CHR ''.'') (rev (to_lower sni)))
      in name # wild_names [] (split_byte name (CHR ''.'')))"

definition tls_certificate :: "tls_config \<Rightarrow> string \<Rightarrow> cert option" where
  "tls_certificate g sni = (case tg_certs g of
     [] \<Rightarrow> None
   | [c] \<Rightarrow> Some c
   | c # _ \<Rightarrow> (case List.map_filter (map_of (tg_names g)) (candidate_names sni) of [] \<Rightarrow> Some c | d # _ \<Rightarrow> Some d))"

text \<open>A handshake reads the configuration without any lock.\<close>

definition handshake_go :: "nat \<Rightarrow> string \<Rightarrow> (cert option \<Rightarrow> 'a cert_prog) \<Rightarrow> 'a cert_prog" where
  "handshake_go m sni k = Get (Conf m) [] (\<lambda>cf. k (Option.bind (as_config cf) (\<lambda>g. tls_certificate g sni)))"

text \<open>A goroutine makes calls in any order; a certificate it gets it uses for a handshake.\<close>

datatype signer_call =
    AskCert signer_env gotime string string string
  | TestCert signer_env gotime string string
  | FlushHost string

fun session :: "config_server \<Rightarrow> signer_call list \<Rightarrow> cert option list \<Rightarrow> cert option list cert_prog" where
  "session c [] rs = Fin rs"
| "session c (AskCert env now hostname cn sni # cs) rs =
     cert_go env now c hostname cn (\<lambda>r. case r of
       Inr (Some m) \<Rightarrow> handshake_go m sni (\<lambda>x. session c cs (x # rs)) | _ \<Rightarrow> session c cs (None # rs))"
| "session c (TestCert env now host sni # cs) rs =
     test_go env now c host (\<lambda>r. case r of
       Inr (Some m) \<Rightarrow> handshake_go m sni (\<lambda>x. session c cs (x # rs)) | _ \<Rightarrow> session c cs (None # rs))"
| "session c (FlushHost hostname # cs) rs = flush_go hostname (session c cs rs)"

section \<open>The discipline holds\<close>

named_theorems locking "the rules of the discipline and the code they are applied to"

lemmas may_rules [locking] = may_read_def may_write_def

lemma none_held [locking]: "(\<lambda>l. NoLock)(l := NoLock) = (\<lambda>l. NoLock)"
  by auto

lemma fetch_disciplined:
  assumes "h (Mu n) = WrLock" "\<And>r. cert_disciplined h (k r)"
  shows "cert_disciplined h (fetch_go env now host port n k)"
  using assms by (simp add: fetch_go_def locking split: sum.split list.split)

lemma issue_disciplined:
  assumes "\<And>r. cert_disciplined no_locks (k r)"
  shows "cert_disciplined (no_locks(Mu n := WrLock)) (issue_go env now c cn host port n found k)"
  unfolding issue_go_def Let_def
  by (rule fetch_disciplined) (simp_all add: assms locking fun_upd_twist split: sum.split)

lemma found_disciplined:
  assumes "\<And>r. cert_disciplined no_locks (k r)"
  shows "cert_disciplined (no_locks(Mu n := WrLock)) (found_go env now c cn host port n k)"
  using issue_disciplined [of k n env now c cn host port True, OF assms] assms
  by (simp add: found_go_def Let_def locking split: option.split gores.split)

lemma cert_go_disciplined:
  assumes "\<And>r. cert_disciplined no_locks (k r)"
  shows "cert_disciplined no_locks (cert_go env now c hostname cn k)"
  using issue_disciplined [of k _ env now c cn _ _ False, OF assms] found_disciplined [of k _ env now c cn, OF assms]
  by (simp add: cert_go_def locking split: prod.split option.split)

lemma session_disciplined: "cert_disciplined no_locks (session c cs rs)"
proof (induction c cs rs rule: session.induct)
  case (2 c env now hostname cn sni cs rs)
  then show ?case by (auto intro!: cert_go_disciplined simp: handshake_go_def locking split: sum.split option.split)
next
  case (3 c env now host sni cs rs)
  then show ?case by (auto simp: test_go_def handshake_go_def locking split: sum.split option.split)
qed (simp_all add: flush_go_def locking)

text \<open>
  C17. However many goroutines ask for certificates, make test certificates, flush hosts and shake
  hands, and however their steps interleave, no access to the map of hosts, to an entry or to a
  configuration overlaps with a write to it.
\<close>

theorem signer_race_free:
  assumes "go_run (start_all (map (\<lambda>cs. session c cs []) css) heap fresh) s"
  shows "mc_races s = []"
  by (rule disciplined_race_free [of _ cert_guard cert_rank, OF _ assms]) (auto simp: session_disciplined)

text \<open>
  C18. And as long as one of them has not come to its end, and none has panicked, one of them can go on:
  the lock of an entry is only ever held while at most the lock of the map is waited for.
\<close>

theorem signer_no_deadlock:
  assumes "go_run (start_all (map (\<lambda>cs. session c cs []) css) heap fresh) s" "mc_exit s = None"
    "i < length css" "\<not> ended (mc_prog s i)"
  shows "\<exists>j<length css. go_step j s \<noteq> None"
proof -
  let ?s0 = "start_all (map (\<lambda>cs. session c cs []) css) heap fresh"
  have "mach_ok cert_guard cert_rank ?s0" by (rule start_all_ok) (auto simp: session_disciplined)
  from go_run_ok [OF assms(1) this] have "mach_ok cert_guard cert_rank s" "mc_count s = length css"
    by (simp_all add: start_all_def)
  with disciplined_progress [of cert_guard cert_rank s i] assms(2-4) show ?thesis by simp
qed

section \<open>One goroutine does what \<open>Signer\<close> says\<close>

text \<open>The entries a heap holds, and the map of hosts as \<open>Signer\<close> has it.\<close>

definition deref :: "cert_heap \<Rightarrow> nat option \<Rightarrow> tls_config option" where
  "deref hp p = Option.bind p (\<lambda>m. as_config (hp (Conf m) []))"

definition entry_of :: "cert_heap \<Rightarrow> nat \<Rightarrow> host_info" where
  "entry_of hp n = \<lparr>hi_last_verify = as_time (hp (Info n) ''LastVerify''),
     hi_next_attempt = as_time (hp (Info n) ''NextAttempt''), hi_config = deref hp (as_ptr (hp (Info n) ''Config''))\<rparr>"

definition hosts_of :: "cert_heap \<Rightarrow> string \<Rightarrow> host_info option" where
  "hosts_of hp h = map_option (entry_of hp) (as_info (hp Hosts h))"

text \<open>No two hosts share an entry, and pointers lead to what has been made.\<close>

definition hosts_apart :: "cert_heap \<Rightarrow> nat \<Rightarrow> bool" where
  "hosts_apart hp f \<longleftrightarrow>
     (\<forall>h i. as_info (hp Hosts h) = Some i \<longrightarrow> i < f \<and> (\<forall>h'. as_info (hp Hosts h') = Some i \<longrightarrow> h' = h))"

definition ptrs_ok :: "cert_heap \<Rightarrow> nat \<Rightarrow> bool" where
  "ptrs_ok hp f \<longleftrightarrow> (\<forall>i m. as_ptr (hp (Info i) ''Config'') = Some m \<longrightarrow> m < f \<and> as_config (hp (Conf m) []) \<noteq> None)"

definition heap_ok :: "cert_heap \<Rightarrow> nat \<Rightarrow> bool" where
  "heap_ok hp f \<longleftrightarrow> hosts_apart hp f \<and> ptrs_ok hp f"

definition set_info :: "nat \<Rightarrow> string \<Rightarrow> hval \<Rightarrow> cert_heap \<Rightarrow> cert_heap" where
  "set_info n k v hp = hp(Info n := (hp (Info n))(k := Some v))"

text \<open>What \<open>Signer\<close> says of a call and what the goroutine did: the same panic, or the same answer and the same map.\<close>

definition agrees :: "(goerr + tls_config option) gores \<times> config_server
    \<Rightarrow> (string + (goerr + nat option)) \<times> cert_heap \<times> nat \<Rightarrow> bool" where
  "agrees spec run \<longleftrightarrow> (case (spec, run) of ((res, c'), (x, hp', f')) \<Rightarrow>
     (case res of
        Panic e \<Rightarrow> x = Inl e
      | Val r \<Rightarrow> (\<exists>r'. x = Inr r' \<and> r = map_sum id (deref hp') r') \<and> heap_ok hp' f' \<and> sg_hosts c' = hosts_of hp'))"

lemma as_simps [simp]:
  "as_info (Some (VInfo n)) = Some n" "as_info None = None"
  "as_time (Some (VTime t)) = Some t" "as_time None = None"
  "as_ptr (Some (VPtr m)) = Some m" "as_ptr None = None"
  "as_config (Some (VConfig g)) = Some g" "as_config None = None"
  by (simp_all add: as_info_def as_time_def as_ptr_def as_config_def)

lemma set_info_at [simp]:
  "set_info n k v hp Hosts = hp Hosts" "set_info n k v hp (Conf m) = hp (Conf m)"
  "set_info n k v hp (Info n) = (hp (Info n))(k \<mapsto> v)" "i \<noteq> n \<Longrightarrow> set_info n k v hp (Info i) = hp (Info i)"
  by (simp_all add: set_info_def)

lemma deref_set_info [simp]: "deref (set_info n k v hp) p = deref hp p"
  by (simp add: deref_def)

lemma entry_set_other: "i \<noteq> n \<Longrightarrow> entry_of (set_info n k v hp) i = entry_of hp i"
  by (simp add: entry_of_def)

lemma entry_set_info:
  "entry_of (set_info n ''LastVerify'' (VTime t) hp) n = (entry_of hp n)\<lparr>hi_last_verify := Some t\<rparr>"
  "entry_of (set_info n ''NextAttempt'' (VTime t) hp) n = (entry_of hp n)\<lparr>hi_next_attempt := Some t\<rparr>"
  "entry_of (set_info n ''Config'' (VPtr m) hp) n = (entry_of hp n)\<lparr>hi_config := deref hp (Some m)\<rparr>"
  by (simp_all add: entry_of_def)

text \<open>An entry that belongs to a host, or to none yet.\<close>

definition entry_for :: "cert_heap \<Rightarrow> nat \<Rightarrow> string \<Rightarrow> nat \<Rightarrow> bool" where
  "entry_for hp f host n \<longleftrightarrow> heap_ok hp f \<and> n < f \<and> (\<forall>h. as_info (hp Hosts h) = Some n \<longrightarrow> h = host)"

lemma ptrs_okD: "ptrs_ok hp f \<Longrightarrow> as_ptr (hp (Info i) ''Config'') = Some m \<Longrightarrow> m < f \<and> as_config (hp (Conf m) []) \<noteq> None"
  by (simp add: ptrs_ok_def)

lemma hosts_apartD:
  "hosts_apart hp f \<Longrightarrow> as_info (hp Hosts h) = Some i \<Longrightarrow> i < f"
  "hosts_apart hp f \<Longrightarrow> as_info (hp Hosts h) = Some i \<Longrightarrow> as_info (hp Hosts h') = Some i \<Longrightarrow> h' = h"
  by (simp_all add: hosts_apart_def)

lemma entry_for_set:
  assumes "entry_for hp f host n" "k = ''Config'' \<longrightarrow> (\<forall>m. as_ptr (Some v) = Some m \<longrightarrow> m < f \<and> as_config (hp (Conf m) []) \<noteq> None)"
  shows "entry_for (set_info n k v hp) f host n"
proof -
  have "m < f \<and> as_config (hp (Conf m) []) \<noteq> None"
    if p: "as_ptr (set_info n k v hp (Info i) ''Config'') = Some m" for i m
  proof (cases "i = n \<and> k = ''Config''")
    case True
    with assms(2) p show ?thesis by simp
  next
    case False
    with p have "as_ptr (hp (Info i) ''Config'') = Some m" by (cases "i = n") simp_all
    with assms(1) show ?thesis unfolding entry_for_def heap_ok_def by (blast dest: ptrs_okD)
  qed
  with assms(1) show ?thesis by (simp add: entry_for_def heap_ok_def ptrs_ok_def hosts_apart_def)
qed

lemma hosts_of_set:
  assumes "entry_for hp f host n"
  shows "hosts_of (set_info n k v hp) = (if as_info (hp Hosts host) = Some n
    then (hosts_of hp)(host \<mapsto> entry_of (set_info n k v hp) n) else hosts_of hp)"
proof
  fix h
  show "hosts_of (set_info n k v hp) h = (if as_info (hp Hosts host) = Some n
    then (hosts_of hp)(host \<mapsto> entry_of (set_info n k v hp) n) else hosts_of hp) h"
  proof (cases "as_info (hp Hosts h) = Some n")
    case True
    with assms have "h = host" by (simp add: entry_for_def)
    with True show ?thesis by (simp add: hosts_of_def)
  next
    case False
    then show ?thesis
      by (cases "as_info (hp Hosts h)") (auto simp: hosts_of_def entry_set_other)
  qed
qed

text \<open>A new configuration, and a new entry, change nothing that is there.\<close>

definition with_conf :: "nat \<Rightarrow> tls_config \<Rightarrow> cert_heap \<Rightarrow> cert_heap" where
  "with_conf f g hp = hp(Conf f := config_cell g)"

lemma with_conf_at [simp]:
  "with_conf f g hp Hosts = hp Hosts" "with_conf f g hp (Info i) = hp (Info i)"
  "m \<noteq> f \<Longrightarrow> with_conf f g hp (Conf m) = hp (Conf m)" "with_conf f g hp (Conf f) [] = Some (VConfig g)"
  by (simp_all add: with_conf_def config_cell_def)

lemma deref_with_conf: "p \<noteq> Some f \<Longrightarrow> deref (with_conf f g hp) p = deref hp p"
  by (cases p) (simp_all add: deref_def)

lemma entry_with_conf:
  assumes "ptrs_ok hp f"
  shows "entry_of (with_conf f g hp) i = entry_of hp i"
proof -
  have "as_ptr (hp (Info i) ''Config'') \<noteq> Some f" using ptrs_okD [OF assms, of i f] by auto
  then show ?thesis by (simp add: entry_of_def deref_with_conf)
qed

lemma entry_for_conf:
  assumes "entry_for hp f host n"
  shows "entry_for (with_conf f g hp) (f + 1) host n"
proof -
  have o: "ptrs_ok hp f" "hosts_apart hp f" using assms by (simp_all add: entry_for_def heap_ok_def)
  have "m < f + 1 \<and> as_config (with_conf f g hp (Conf m) []) \<noteq> None"
    if "as_ptr (hp (Info i) ''Config'') = Some m" for i m
    using ptrs_okD [OF o(1) that] by simp
  with assms show ?thesis
    by (auto simp: entry_for_def heap_ok_def ptrs_ok_def hosts_apart_def less_Suc_eq)
qed

text \<open>A new entry.\<close>

definition with_info :: "nat \<Rightarrow> cert_heap \<Rightarrow> cert_heap" where
  "with_info f hp = hp(Info f := (\<lambda>k. None))"

lemma with_info_at [simp]:
  "with_info f hp Hosts = hp Hosts" "with_info f hp (Conf m) = hp (Conf m)"
  "with_info f hp (Info f) = (\<lambda>k. None)" "i \<noteq> f \<Longrightarrow> with_info f hp (Info i) = hp (Info i)"
  by (simp_all add: with_info_def)

lemma entry_with_info: "entry_of (with_info f hp) f = new_host_info" "i \<noteq> f \<Longrightarrow> entry_of (with_info f hp) i = entry_of hp i"
  by (simp_all add: entry_of_def new_host_info_def deref_def)

lemma new_info:
  assumes "heap_ok hp f" "as_info (hp Hosts host) = None"
  shows "entry_for (with_info f hp) (f + 1) host f" "hosts_of (with_info f hp) = hosts_of hp"
proof -
  have o: "ptrs_ok hp f" "hosts_apart hp f" using assms(1) by (simp_all add: heap_ok_def)
  have "m < f + 1 \<and> as_config (hp (Conf m) []) \<noteq> None"
    if "as_ptr (with_info f hp (Info i) ''Config'') = Some m" for i m
    using that ptrs_okD [OF o(1), of i m] by (cases "i = f") auto
  moreover have n: "as_info (hp Hosts h) \<noteq> Some f" for h using hosts_apartD(1) [OF o(2), of h f] by auto
  ultimately show "entry_for (with_info f hp) (f + 1) host f"
    using o(2) by (auto simp: entry_for_def heap_ok_def ptrs_ok_def hosts_apart_def less_Suc_eq)
  show "hosts_of (with_info f hp) = hosts_of hp"
  proof
    fix h
    show "hosts_of (with_info f hp) h = hosts_of hp h"
      using n [of h] by (cases "as_info (hp Hosts h)") (auto simp: hosts_of_def entry_with_info(2))
  qed
qed

text \<open>The certificate of the host.\<close>

lemma fetch_alone:
  assumes "fetch_upstream env now host port (entry_of hp n) = (r, hi1)"
  shows "\<exists>hp1. (\<forall>k. alone (fetch_go env now host port n k) hp f = alone (k r) hp1 f) \<and> entry_of hp1 n = hi1 \<and>
    (hp1 = hp \<or> hp1 = set_info n ''NextAttempt'' (VTime (now + 24 * hour)) hp)"
proof -
  let ?hp1 = "if \<exists>x. r = Inr (x, True) then set_info n ''NextAttempt'' (VTime (now + 24 * hour)) hp else hp"
  have a: "alone (fetch_go env now host port n k) hp f = alone (k r) ?hp1 f" for k
    using assms
    by (auto simp: fetch_go_def fetch_upstream_def set_info_def [symmetric] entry_of_def
        split: if_splits sum.splits list.splits)
  have b: "entry_of ?hp1 n = hi1"
    using assms
    by (auto simp: fetch_upstream_def entry_set_info entry_of_def split: if_splits sum.splits list.splits)
  show ?thesis
  proof (intro exI [of _ ?hp1] conjI allI)
    show "alone (fetch_go env now host port n k) hp f = alone (k r) ?hp1 f" for k by (rule a)
    show "entry_of ?hp1 n = hi1" by (rule b)
  qed simp
qed

lemma hosts_with_conf: "ptrs_ok hp f \<Longrightarrow> hosts_of (with_conf f g hp) = hosts_of hp"
  by (simp add: hosts_of_def entry_with_conf fun_eq_iff map_option_case split: option.split)

text \<open>An entry under its host.\<close>

definition publish :: "string \<Rightarrow> nat \<Rightarrow> cert_heap \<Rightarrow> cert_heap" where
  "publish host n hp = hp(Hosts := (hp Hosts)(host := Some (VInfo n)))"

lemma publish_at [simp]:
  "publish host n hp (Info i) = hp (Info i)" "publish host n hp (Conf m) = hp (Conf m)"
  "publish host n hp Hosts = (hp Hosts)(host \<mapsto> VInfo n)"
  by (simp_all add: publish_def)

lemma entry_publish [simp]: "entry_of (publish host n hp) i = entry_of hp i" "deref (publish host n hp) p = deref hp p"
  by (simp_all add: entry_of_def deref_def)

lemma publish_ok:
  assumes "entry_for hp f host n"
  shows "heap_ok (publish host n hp) f" "hosts_of (publish host n hp) = (hosts_of hp)(host \<mapsto> entry_of hp n)"
proof -
  have "hosts_apart (publish host n hp) f"
    using assms unfolding hosts_apart_def entry_for_def heap_ok_def by auto
  then show "heap_ok (publish host n hp) f"
    using assms by (simp add: entry_for_def heap_ok_def ptrs_ok_def)
  show "hosts_of (publish host n hp) = (hosts_of hp)(host \<mapsto> entry_of hp n)"
    by (auto simp: hosts_of_def fun_eq_iff map_option_case split: option.split)
qed

lemma issue_alone:
  assumes e: "entry_for hp f host n"
    and found: "as_info (hp Hosts host) = (if found then Some n else None)"
    and c: "sg_hosts c = hosts_of hp"
  shows "agrees (issue_cert env now cn host port found (entry_of hp n) c)
    (alone (issue_go env now c cn host port n found Fin) hp f)"
proof -
  obtain r hi1 where fe: "fetch_upstream env now host port (entry_of hp n) = (r, hi1)" by fastforce
  obtain hp1 where k: "\<And>k :: goerr + (cert option \<times> bool) \<Rightarrow> (goerr + nat option) cert_prog.
      alone (fetch_go env now host port n k) hp f = alone (k r) hp1 f"
    and hi1: "entry_of hp1 n = hi1" and hp1: "hp1 = hp \<or> hp1 = set_info n ''NextAttempt'' (VTime (now + 24 * hour)) hp"
    using fetch_alone [OF fe, of f] by metis
  have e1: "entry_for hp1 f host n" using hp1 e entry_for_set [OF e, of "''NextAttempt''"] by auto
  have f1: "as_info (hp1 Hosts host) = (if found then Some n else None)" using hp1 found by auto
  have "found \<Longrightarrow> hosts_of hp host = Some (entry_of hp n)" using found by (simp add: hosts_of_def)
  then have h1: "hosts_of hp1 = (if found then (hosts_of hp)(host \<mapsto> hi1) else hosts_of hp)"
    using hp1 hi1 hosts_of_set [OF e] found by (auto simp: fun_upd_idem)
  let ?hp2 = "set_info n ''LastVerify'' (VTime now) hp1" let ?hi2 = "hi1\<lparr>hi_last_verify := Some now\<rparr>"
  have e2: "entry_for ?hp2 f host n" and hi2: "entry_of ?hp2 n = ?hi2"
    and h2: "hosts_of ?hp2 = (if found then (hosts_of hp1)(host \<mapsto> ?hi2) else hosts_of hp1)"
    using entry_for_set [OF e1, of "''LastVerify''"] hi1 entry_set_info(1) [of n now hp1] hosts_of_set [OF e1] f1 by auto
  let ?hp3 = "\<lambda>g. with_conf f g ?hp2" let ?hp4 = "\<lambda>g. set_info n ''Config'' (VPtr f) (?hp3 g)"
  have p2: "ptrs_ok ?hp2 f" using e2 by (simp add: entry_for_def heap_ok_def)
  have e3: "entry_for (?hp3 g) (f + 1) host n" for g by (rule entry_for_conf [OF e2])
  have hi4: "entry_of (?hp4 g) n = ?hi2\<lparr>hi_config := Some g\<rparr>" for g
    using entry_with_conf [OF p2, of g n] hi2 by (simp add: entry_set_info deref_def)
  have e4: "entry_for (?hp4 g) (f + 1) host n" for g by (rule entry_for_set [OF e3]) simp
  have h4: "hosts_of (?hp4 g) = (if found then (hosts_of ?hp2)(host \<mapsto> ?hi2\<lparr>hi_config := Some g\<rparr>) else hosts_of ?hp2)" for g
    using hosts_of_set [OF e3, of "''Config''" "VPtr f" g] hi4 hosts_with_conf [OF p2, of g] f1 by simp
  have cfg: "deref hp1 (as_ptr (hp1 (Info n) ''Config'')) = hi_config hi1"
    using hi1 by (auto simp: entry_of_def)
  note ok = e1 [unfolded entry_for_def] e2 [unfolded entry_for_def] publish_ok [OF e4] h1 h2 h4 hi4 c
  show ?thesis
  proof (cases r)
    case (Inl er)
    then show ?thesis using ok by (simp add: issue_go_def issue_cert_def k fe agrees_def Let_def)
  next
    case (Inr x)
    then obtain orig bad where r: "r = Inr (orig, bad)" by (cases x) simp
    show ?thesis
    proof (cases "se_serial env")
      case (Inl er)
      then show ?thesis using ok r by (simp add: issue_go_def issue_cert_def k fe agrees_def Let_def)
    next
      case (Inr serial)
      note ser = this
      show ?thesis
      proof (cases "sign_cert env (template_for env now c cn host orig bad serial)")
        case (Inl er)
        then show ?thesis using ok r ser by (simp add: issue_go_def issue_cert_def k fe agrees_def Let_def)
      next
        case (Inr leaf)
        note leaf = this
        show ?thesis
        proof (cases "\<not> found \<or> bad")
          case True
          let ?g = "new_config host leaf"
          have "alone (issue_go env now c cn host port n found Fin) hp f =
              (Inr (Inr (Some f)), publish host n (?hp4 ?g), f + 1)"
            using True leaf r ser
            by (simp add: issue_go_def k Let_def publish_def set_info_def with_conf_def fun_upd_def)
          moreover have "issue_cert env now cn host port found (entry_of hp n) c =
              (Val (Inr (Some ?g)), c\<lparr>sg_hosts := (hosts_of hp)(host \<mapsto> ?hi2\<lparr>hi_config := Some ?g\<rparr>)\<rparr>)"
            using True leaf r ser c by (simp add: issue_cert_def fe Let_def)
          moreover have "hosts_of (publish host n (?hp4 ?g)) = (hosts_of hp)(host \<mapsto> ?hi2\<lparr>hi_config := Some ?g\<rparr>)"
            using publish_ok(2) [OF e4, of ?g] h4 [of ?g] h2 h1 hi4 [of ?g] by simp
          ultimately show ?thesis
            using publish_ok(1) [OF e4, of ?g] by (simp add: agrees_def) (simp add: deref_def)
        next
          case False
          with leaf ok r ser cfg show ?thesis
            by (simp add: issue_go_def issue_cert_def k fe agrees_def Let_def set_info_def [symmetric])
        qed
      qed
    qed
  qed
qed

lemma found_alone:
  assumes e: "entry_for hp f host n" and found: "as_info (hp Hosts host) = Some n" and c: "sg_hosts c = hosts_of hp"
  shows "agrees (case lookup_cached env now host (entry_of hp n) of
       (Panic m, _) \<Rightarrow> (Panic m, c)
     | (Val (Hit g), hi1) \<Rightarrow> (Val (Inr g), c\<lparr>sg_hosts := (sg_hosts c)(host \<mapsto> hi1)\<rparr>)
     | (Val Miss, hi1) \<Rightarrow> issue_cert env now cn host port True hi1 c)
    (alone (found_go env now c cn host port n Fin) hp f)"
proof -
  have hit: "agrees (Val (Inr (hi_config (entry_of h n))), c\<lparr>sg_hosts := (sg_hosts c)(host \<mapsto> entry_of h n)\<rparr>)
      (Inr (Inr (as_ptr (h (Info n) ''Config''))), h, f)"
    if "entry_for h f host n" "hosts_of h = (hosts_of hp)(host \<mapsto> entry_of h n)" for h
    using that c by (simp add: agrees_def entry_for_def entry_of_def)
  have "hosts_of hp host = Some (entry_of hp n)" using found by (simp add: hosts_of_def)
  then have h0: "hosts_of hp = (hosts_of hp)(host \<mapsto> entry_of hp n)" by (simp add: fun_upd_idem)
  let ?hp1 = "set_info n ''LastVerify'' (VTime now) hp"
  have e1: "entry_for ?hp1 f host n" by (rule entry_for_set [OF e]) simp
  have h1: "hosts_of ?hp1 = (hosts_of hp)(host \<mapsto> entry_of ?hp1 n)"
    using hosts_of_set [OF e, of "''LastVerify''" "VTime now"] found by simp
  note cfg = ptrs_okD [of hp f n]
  note miss = issue_alone [OF e, of True c env now cn port] found c
  show ?thesis
  proof (cases "go_before (as_time (hp (Info n) ''LastVerify'')) (now - 60 * 60 * second)")
    case False
    then show ?thesis using hit [OF e h0] by (simp add: found_go_def Let_def lookup_cached_def entry_of_def)
  next
    case old: True
    show ?thesis
    proof (cases "as_ptr (hp (Info n) ''Config'')")
      case None
      then show ?thesis using old by (simp add: found_go_def Let_def lookup_cached_def entry_of_def deref_def agrees_def)
    next
      case (Some m)
      with e have "as_config (hp (Conf m) []) \<noteq> None" by (auto simp: entry_for_def heap_ok_def dest: ptrs_okD)
      then obtain g where g: "as_config (hp (Conf m) []) = Some g" by auto
      then have d: "hi_config (entry_of hp n) = Some g" using Some by (simp add: entry_of_def deref_def)
      show ?thesis
      proof (cases "verify_cached env now host g")
        case (Panic x)
        then show ?thesis using old Some g by (simp add: found_go_def Let_def lookup_cached_def entry_of_def deref_def agrees_def)
      next
        case (Val v)
        show ?thesis
        proof (cases v)
          case None
          with Val hit [OF e1 h1] old Some g d entry_set_info(1) [of n now hp] show ?thesis
            by (simp add: found_go_def Let_def lookup_cached_def entry_of_def deref_def set_info_def [symmetric])
        next
          case (Some er)
          with Val miss old g \<open>as_ptr _ = Some m\<close> show ?thesis
            by (simp add: found_go_def Let_def lookup_cached_def entry_of_def deref_def)
        qed
      qed
    qed
  qed
qed

text \<open>
  C16. A goroutine that asks for a certificate while no other one runs does what \<open>Signer\<close> says of the call:
  it panics when the call panics, and otherwise it comes back with the same configuration or error and leaves the same
  map of hosts.
\<close>

theorem signer_alone_refines:
  assumes "heap_ok hp f" "sg_hosts c = hosts_of hp"
  shows "agrees (cert_with_common_name env now hostname cn c) (alone (cert_go env now c hostname cn Fin) hp f)"
proof -
  obtain host port where h: "split_hostname hostname = (host, port)" by fastforce
  show ?thesis
  proof (cases "as_info (hp Hosts host)")
    case None
    have "sg_hosts c host = None" using None assms(2) by (simp add: hosts_of_def)
    moreover have "sg_hosts c = hosts_of (with_info f hp)" using new_info(2) [OF assms(1) None] assms(2) by simp
    ultimately show ?thesis
      using issue_alone [OF new_info(1) [OF assms(1) None], of False c env now cn port] None h
      by (simp add: cert_go_def cert_with_common_name_def with_info_def entry_with_info(1) [unfolded with_info_def])
  next
    case (Some n)
    have e: "entry_for hp f host n"
      using assms(1) Some by (auto simp: entry_for_def heap_ok_def dest: hosts_apartD)
    have "sg_hosts c host = Some (entry_of hp n)" using Some assms(2) by (simp add: hosts_of_def)
    with found_alone [OF e Some assms(2), of env now cn port] Some h show ?thesis
      by (simp add: cert_go_def cert_with_common_name_def)
  qed
qed

section \<open>Examples\<close>

definition empty_heap :: cert_heap where
  "empty_heap = (\<lambda>r k. None)"

definition two_sessions :: "(lock, ref, hval, cert option list) mach" where
  "two_sessions = start_all (map (\<lambda>cs. session empty_signer cs [])
     [[AskCert example_signer_env 0 ''a.com:443'' [] ''a.com''], [FlushHost ''a.com'', TestCert example_signer_env 0 ''b.com'' ''b.com'']])
     empty_heap 0"

definition some_schedule :: "nat list" where
  "some_schedule = [0, 0, 1, 1, 0, 0, 1, 1, 0, 0, 1, 0, 0, 1, 0, 1, 0, 0]"

theorem signer_race_free_witness: "mc_races (run_schedule some_schedule two_sessions) = []"
  by (rule signer_race_free [of empty_signer "[[AskCert example_signer_env 0 ''a.com:443'' [] ''a.com''],
      [FlushHost ''a.com'', TestCert example_signer_env 0 ''b.com'' ''b.com'']]" empty_heap 0])
    (fold two_sessions_def, rule run_schedule_run, rule go_run.start)

lemma two_sessions_running:
  "mc_exit (run_schedule some_schedule two_sessions) = None" "\<not> ended (mc_prog (run_schedule some_schedule two_sessions) 0)"
  by code_simp+

theorem signer_no_deadlock_witness: "\<exists>j<2. go_step j (run_schedule some_schedule two_sessions) \<noteq> None"
proof -
  let ?css = "[[AskCert example_signer_env 0 ''a.com:443'' [] ''a.com''],
      [FlushHost ''a.com'', TestCert example_signer_env 0 ''b.com'' ''b.com'']]"
  have "go_run (start_all (map (\<lambda>cs. session empty_signer cs []) ?css) empty_heap 0) (run_schedule some_schedule two_sessions)"
    unfolding two_sessions_def by (rule run_schedule_run, rule go_run.start)
  from signer_no_deadlock [OF this two_sessions_running(1) _ two_sessions_running(2)] show ?thesis
    by (simp add: numeral_2_eq_2)
qed

theorem signer_alone_refines_witness:
  "agrees (cert_with_common_name example_signer_env 0 ''a.com:443'' [] empty_signer)
     (alone (cert_go example_signer_env 0 empty_signer ''a.com:443'' [] Fin) empty_heap 0)"
  by (rule signer_alone_refines)
    (simp_all add: empty_heap_def heap_ok_def hosts_apart_def ptrs_ok_def empty_signer_def hosts_of_def fun_eq_iff)

text \<open>
  A goroutine that found no entry at its lookup replaces the one another goroutine may have made
  since: it does not look again. The comment in the code says that an existing
  certificate is only overwritten when it is invalid.
\<close>

lemma issue_replaces_entry:
  assumes "alone (issue_go env now c cn host port n False Fin) hp f = (Inr (Inr p), hp', f')"
  shows "as_info (hp' Hosts host) = Some n \<and> p = Some f"
proof -
  obtain r hi1 where fe: "fetch_upstream env now host port (entry_of hp n) = (r, hi1)" by fastforce
  obtain hp1 where k: "\<And>k :: goerr + (cert option \<times> bool) \<Rightarrow> (goerr + nat option) cert_prog.
      alone (fetch_go env now host port n k) hp f = alone (k r) hp1 f"
    using fetch_alone [OF fe, of f] by metis
  show ?thesis
    using assms by (auto simp: issue_go_def k Let_def split: sum.splits prod.splits)
qed

end
