(* ===== verification/Cert_Demo.thy ===== *)
theory Cert_Demo
  imports Cert_Race
begin

text \<open>
  \<open>signerpanic/\<close> and \<open>signerpanicfixed/\<close>: two programs that show a crash of an earlier signer and its
  cure. The first keeps the certificates of all hosts in one \<open>tls.Config\<close>, whose map the TLS library
  reads without a lock while other goroutines write it; the second gives each host a configuration
  of its own that does not change. Both have a simpler signer than \<open>signer.go\<close>: a certificate in the
  cache is not checked again. The hosts picked at random are lists; the loops that never end are given with
  as many turns as their list has.
\<close>

section \<open>Setting up\<close>

text \<open>
  \<open>rootCAs\<close> (the roots of the system apart), \<open>NewConfig\<close> and \<open>NewConfigServer\<close>, \<open>LoadCAConfig\<close> and
  \<open>LoadDefaultConfig\<close>, with the parsing of keys and certificates as parameters.
\<close>

definition demo_root_cas :: tls_config where
  "demo_root_cas = \<lparr>tg_certs = [], tg_names = [], tg_min_version = 770, tg_max_version = 771, tg_renegotiate = True\<rparr>"

definition fixed_new_config :: "goerr + 'k \<Rightarrow> ('k \<Rightarrow> goerr + string) \<Rightarrow> (string \<Rightarrow> string) \<Rightarrow> goerr + config_server" where
  "fixed_new_config key marshal sha1 = (case key of
     Inl e \<Rightarrow> Inl e
   | Inr priv \<Rightarrow> (case marshal priv of
       Inl e \<Rightarrow> Inl e
     | Inr pub \<Rightarrow> Inr \<lparr>sg_hosts = (\<lambda>h. None), sg_validity = hour * 24 * 3650, sg_key_id = sha1 pub\<rparr>))"

definition demo_new_config ::
  "goerr + 'k \<Rightarrow> ('k \<Rightarrow> goerr + string) \<Rightarrow> (string \<Rightarrow> string) \<Rightarrow> goerr + (config_server \<times> tls_config)" where
  "demo_new_config key marshal sha1 = (case key of
     Inl e \<Rightarrow> Inl e
   | Inr priv \<Rightarrow> (case marshal priv of
       Inl e \<Rightarrow> Inl e
     | Inr pub \<Rightarrow> Inr (\<lparr>sg_hosts = (\<lambda>h. None), sg_validity = hour * 24 * 3650, sg_key_id = sha1 pub\<rparr>,
         demo_root_cas\<lparr>tg_certs := [], tg_names := []\<rparr>)))"

definition load_ca_config :: "goerr + 'p \<Rightarrow> ('p \<Rightarrow> goerr + 'x) \<Rightarrow> ('x \<Rightarrow> goerr + 'c) \<Rightarrow> goerr + 'c" where
  "load_ca_config pair parse mk = (case pair of
     Inl e \<Rightarrow> Inl e
   | Inr ca \<Rightarrow> (case parse ca of Inl e \<Rightarrow> Inl e | Inr ca509 \<Rightarrow> mk ca509))"

definition load_default_config :: "goerr + 'c \<Rightarrow> goerr + 'c" where
  "load_default_config loaded = (case loaded of
     Inl e \<Rightarrow> Inl (ErrText (''Error parsing builtin CA: '' @ error_text e))
   | Inr c \<Rightarrow> Inr c)"

text \<open>The same in the second program, whose certificates all belong to one configuration server.\<close>

definition fixed_load_default ::
  "goerr + 'p \<Rightarrow> ('p \<Rightarrow> goerr + 'x) \<Rightarrow> goerr + 'k \<Rightarrow> ('k \<Rightarrow> goerr + string) \<Rightarrow> (string \<Rightarrow> string) \<Rightarrow> goerr + config_server" where
  "fixed_load_default pair parse key marshal sha1 =
     (let failed = (\<lambda>e. Inl (ErrText (''Error parsing builtin CA: '' @ error_text e))) in
      case pair of
        Inl e \<Rightarrow> failed e
      | Inr ca \<Rightarrow> (case parse ca of
          Inl e \<Rightarrow> failed e
        | Inr ca509 \<Rightarrow> (case fixed_new_config key marshal sha1 of Inl e \<Rightarrow> failed e | Inr c \<Rightarrow> Inr c)))"

lemma fixed_load_default_same:
  "fixed_load_default pair parse key marshal sha1 =
     load_default_config (load_ca_config pair parse (\<lambda>ca509. fixed_new_config key marshal sha1))"
  by (simp add: fixed_load_default_def load_default_config_def load_ca_config_def Let_def split: sum.splits)

section \<open>Making a certificate\<close>

definition demo_template :: "config_server \<Rightarrow> gotime \<Rightarrow> int \<Rightarrow> string \<Rightarrow> string \<Rightarrow> cert" where
  "demo_template c now serial common_name host =
     \<lparr>ce_serial = serial, ce_common_name = (if common_name \<noteq> [] then common_name else host),
      ce_organization = [''Winston Privacy''], ce_key_id = sg_key_id c, ce_authority_key_id = [], ce_key_usage = 5,
      ce_server_auth = True, ce_not_before = now - sg_validity c, ce_not_after = now + sg_validity c,
      ce_dns_names = [host], ce_ips = []\<rparr>"

text \<open>What is copied from the certificate of the host: in the first program also its names, as they are.\<close>

definition copy_subject :: "cert \<Rightarrow> cert \<Rightarrow> cert" where
  "copy_subject orig t = t\<lparr>ce_common_name := ce_common_name orig, ce_organization := ce_organization orig,
     ce_key_usage := ce_key_usage orig, ce_authority_key_id := ce_authority_key_id orig, ce_ips := ce_ips orig\<rparr>"

definition demo_copy :: "cert \<Rightarrow> cert \<Rightarrow> cert" where
  "demo_copy orig t = (copy_subject orig t)\<lparr>ce_dns_names := ce_dns_names orig\<rparr>"

definition fixed_copy :: "string \<Rightarrow> cert option \<Rightarrow> cert \<Rightarrow> cert" where
  "fixed_copy host orig t = (case orig of
     None \<Rightarrow> t
   | Some o' \<Rightarrow> (copy_subject o' t)\<lparr>ce_dns_names :=
       (if ce_dns_names o' \<noteq> [] \<and> hd (ce_dns_names o') \<noteq> ''winston.conf'' then ce_dns_names o' else [host])\<rparr>)"

section \<open>One configuration for all hosts\<close>

text \<open>
  \<open>certWithCommonName\<close> of \<open>signerpanic\<close>. The certificate is looked for again under the lock before it is
  entered; the slice is appended to under the same lock.
\<close>

definition shared_cert_go ::
  "signer_env \<Rightarrow> gotime \<Rightarrow> config_server \<Rightarrow> string \<Rightarrow> string \<Rightarrow> (goerr option \<Rightarrow> 'a cert_prog) \<Rightarrow> 'a cert_prog" where
  "shared_cert_go env now c host common_name k =
     Acquire Certmu RdLock (Get Names host (\<lambda>t. Release Certmu RdLock
       (if t \<noteq> None then k None
        else case fst (se_dial env (host @ '':443'') 0) of
          Inl e \<Rightarrow> k (Some e)
        | Inr [] \<Rightarrow> Exit ''exit status 1''
        | Inr (orig # rest) \<Rightarrow> (case se_serial env of
            Inl e \<Rightarrow> k (Some e)
          | Inr serial \<Rightarrow> (case sign_cert env (demo_copy orig (demo_template c now serial common_name host)) of
              Inl e \<Rightarrow> k (Some e)
            | Inr leaf \<Rightarrow> Acquire Certmu WrLock (Get Names host (\<lambda>t2.
                if t2 = None
                then Put Names host (Some (VCert leaf)) (Get Certs [] (\<lambda>cs.
                  Put Certs [] (Some (VCerts ((case cs of Some (VCerts l) \<Rightarrow> l | _ \<Rightarrow> []) @ [leaf])))
                    (Release Certmu WrLock (k None))))
                else Release Certmu WrLock (k None))))))))"

text \<open>The handshake of \<open>crypto/tls\<close> with the shared configuration: neither the slice nor the map is read under the lock.\<close>

primrec try_names :: "string list \<Rightarrow> cert option \<Rightarrow> (cert option \<Rightarrow> 'a cert_prog) \<Rightarrow> 'a cert_prog" where
  "try_names [] d k = k d"
| "try_names (x # xs) d k = Get Names x (\<lambda>v. case v of
     None \<Rightarrow> try_names xs d k
   | Some w \<Rightarrow> k (case w of VCert c \<Rightarrow> Some c | _ \<Rightarrow> None))"

definition shared_handshake_go :: "string \<Rightarrow> (cert option \<Rightarrow> 'a cert_prog) \<Rightarrow> 'a cert_prog" where
  "shared_handshake_go sni k = Get Certs [] (\<lambda>cs. case cs of
     Some (VCerts [c]) \<Rightarrow> k (Some c)
   | Some (VCerts (c # d # l)) \<Rightarrow> try_names (candidate_names sni) (Some c) k
   | _ \<Rightarrow> k None)"

text \<open>The goroutines: one copies entries of the map, one serves clients, one after the other; before, all hosts are fetched.\<close>

fun copier_go :: "nat \<Rightarrow> string list \<Rightarrow> cert option list cert_prog" where
  "copier_go i [] = Fin []"
| "copier_go i (h # hs) = Acquire Certmu RdLock (Get Names h (\<lambda>t. Release Certmu RdLock
     (Acquire Certmu WrLock (Put Names (''fakehost'' @ itoa (int i)) (Some (case t of None \<Rightarrow> VNil | Some v \<Rightarrow> v))
       (Release Certmu WrLock (copier_go (i + 1) hs))))))"

fun listener_go :: "signer_env \<Rightarrow> gotime \<Rightarrow> config_server \<Rightarrow> string list \<Rightarrow> cert option list \<Rightarrow> cert option list cert_prog" where
  "listener_go env now c [] rs = Fin rs"
| "listener_go env now c (h # hs) rs = shared_cert_go env now c h [] (\<lambda>e. case e of
     None \<Rightarrow> shared_handshake_go h (\<lambda>r. listener_go env now c hs (r # rs))
   | Some e' \<Rightarrow> listener_go env now c hs (None # rs))"

fun prefetch_go :: "signer_env \<Rightarrow> gotime \<Rightarrow> config_server \<Rightarrow> string list \<Rightarrow> unit cert_prog" where
  "prefetch_go env now c [] = Fin ()"
| "prefetch_go env now c (d # ds) = shared_cert_go env now c d [] (\<lambda>e.
     Acquire Certmu RdLock (Get Names d (\<lambda>v. Release Certmu RdLock (prefetch_go env now c ds))))"

text \<open>The program once it has fetched the hosts \<open>ds\<close>; nothing when fetching has ended it.\<close>

definition shared_program ::
  "signer_env \<Rightarrow> gotime \<Rightarrow> config_server \<Rightarrow> string list \<Rightarrow> string list \<Rightarrow> string list
     \<Rightarrow> (lock, ref, hval, cert option list) mach option" where
  "shared_program env now c ds copied served = (case alone (prefetch_go env now c ds) (\<lambda>r k. None) 0 of
     (Inl m, hp, f) \<Rightarrow> None
   | (Inr u, hp, f) \<Rightarrow> Some (start_all [copier_go 0 copied, listener_go env now c served []] hp f))"

section \<open>The crash\<close>

text \<open>The listener checks its certificate and begins its handshake; the copier gets to the middle of its write.\<close>

definition racy_schedule :: "nat list" where
  "racy_schedule = [1, 1, 1, 1, 1, 1, 0, 0, 0, 0, 0, 0, 1]"

lemma candidates_Cons: "\<exists>n ns. candidate_names sni = n # ns"
  by (simp add: candidate_names_def Let_def)

text \<open>
  As soon as the cache holds the certificate of a host and one more, there is a run in which a
  handshake with that host reads the map while the other goroutine writes it.
\<close>

theorem shared_config_races:
  assumes "hp Names host = Some v" "hp Certs [] = Some (VCerts (a # b # l))"
  shows "\<exists>s. go_run (start_all [copier_go i (h # hs), listener_go env now c (host # served) []] hp f) s \<and>
    Names \<in> set (mc_races s)"
proof -
  obtain n ns where n: "candidate_names host = n # ns" using candidates_Cons by blast
  let ?s0 = "start_all [copier_go i (h # hs), listener_go env now c (host # served) []] hp f"
  have "Names \<in> set (mc_races (run_schedule racy_schedule ?s0))"
    using assms n
    by (simp add: racy_schedule_def start_all_def go_step_def begin_access_def end_access_def goes_on_def set_held_def
        can_acquire_def races_with_def shared_cert_go_def shared_handshake_go_def upt_rec)
  with run_schedule_run [OF go_run.start] show ?thesis by blast
qed

text \<open>The handshake is the only cause: the accesses of the program itself keep to the lock.\<close>

lemma shared_cert_disciplined:
  assumes "\<And>e. cert_disciplined no_locks (k e)"
  shows "cert_disciplined no_locks (shared_cert_go env now c host cn k)"
  using assms by (simp add: shared_cert_go_def locking split: sum.split list.split)

lemma copier_disciplined: "cert_disciplined no_locks (copier_go i hs)"
  by (induction i hs rule: copier_go.induct) (simp_all add: locking)

lemma prefetch_disciplined: "cert_disciplined no_locks (prefetch_go env now c ds)"
  by (induction env now c ds rule: prefetch_go.induct) (auto intro!: shared_cert_disciplined simp: locking)

section \<open>A configuration for each host\<close>

text \<open>
  \<open>certWithCommonName\<close> of \<open>signerpanicfixed\<close>: a new entry is filled before it is put into the map of
  hosts, and neither the entry nor its configuration changes afterwards; so what is found is read
  without a lock. (The lock of the entry is only taken while nobody else knows the entry.)
\<close>

definition fixed_cert_go ::
  "signer_env \<Rightarrow> gotime \<Rightarrow> config_server \<Rightarrow> string \<Rightarrow> string \<Rightarrow> (goerr + nat option \<Rightarrow> 'a cert_prog) \<Rightarrow> 'a cert_prog" where
  "fixed_cert_go env now c host common_name k =
     Acquire Certmu RdLock (Get Hosts host (\<lambda>v. Release Certmu RdLock (case as_info v of
         Some n \<Rightarrow> Get (Info n) ''Config'' (\<lambda>g. k (Inr (as_ptr g)))
       | None \<Rightarrow> (case fst (se_dial env (host @ '':443'') 0) of
           Inl e \<Rightarrow> k (Inl e)
         | Inr cs \<Rightarrow> (case se_serial env of
             Inl e \<Rightarrow> k (Inl e)
           | Inr serial \<Rightarrow>
               (case sign_cert env (fixed_copy host (case cs of [] \<Rightarrow> None | o' # _ \<Rightarrow> Some o')
                   (demo_template c now serial common_name host)) of
                 Inl e \<Rightarrow> k (Inl e)
               | Inr leaf \<Rightarrow> Acquire Certmu WrLock
                   (New Conf (config_cell \<lparr>tg_certs = [leaf], tg_names = [(host, leaf)], tg_min_version = 0,
                        tg_max_version = 0, tg_renegotiate = False\<rparr>)
                     (\<lambda>m. New Info [''LastVerify'' \<mapsto> VTime now, ''Config'' \<mapsto> VPtr m]
                       (\<lambda>n. Put Hosts host (Some (VInfo n)) (Release Certmu WrLock (k (Inr (Some m)))))))))))))"

fun fixed_fetcher_go :: "signer_env \<Rightarrow> gotime \<Rightarrow> config_server \<Rightarrow> string list \<Rightarrow> cert option list cert_prog" where
  "fixed_fetcher_go env now c [] = Fin []"
| "fixed_fetcher_go env now c (h # hs) = fixed_cert_go env now c h [] (\<lambda>r. fixed_fetcher_go env now c hs)"

fun fixed_listener_go ::
  "signer_env \<Rightarrow> gotime \<Rightarrow> config_server \<Rightarrow> string list \<Rightarrow> cert option list \<Rightarrow> cert option list cert_prog" where
  "fixed_listener_go env now c [] rs = Fin rs"
| "fixed_listener_go env now c (h # hs) rs = fixed_cert_go env now c h [] (\<lambda>r. case r of
     Inr (Some m) \<Rightarrow> handshake_go m h (\<lambda>x. fixed_listener_go env now c hs (x # rs))
   | _ \<Rightarrow> fixed_listener_go env now c hs (None # rs))"

fun fixed_guard :: "ref \<Rightarrow> lock option" where
  "fixed_guard (Info n) = None"
| "fixed_guard (Conf n) = None"
| "fixed_guard r = Some Certmu"

lemma fixed_cert_disciplined:
  assumes "\<And>r. disciplined fixed_guard cert_rank no_locks (k r)"
  shows "disciplined fixed_guard cert_rank no_locks (fixed_cert_go env now c host cn k)"
  using assms by (simp add: fixed_cert_go_def locking split: sum.split option.split)

lemma fetcher_disciplined: "disciplined fixed_guard cert_rank no_locks (fixed_fetcher_go env now c hs)"
  by (induction env now c hs rule: fixed_fetcher_go.induct) (auto intro!: fixed_cert_disciplined)

lemma listener_disciplined: "disciplined fixed_guard cert_rank no_locks (fixed_listener_go env now c hs rs)"
  by (induction env now c hs rs rule: fixed_listener_go.induct)
    (auto intro!: fixed_cert_disciplined simp: handshake_go_def locking split: sum.split option.split)

text \<open>
  The repaired program has no race, with any number of goroutines that fetch and of goroutines
  that serve, whatever the hosts.
\<close>

theorem fixed_race_free:
  assumes "go_run (start_all (map (fixed_fetcher_go env now c) hss @ map (\<lambda>hs. fixed_listener_go env now c hs []) lss) hp f) s"
  shows "mc_races s = []"
  by (rule disciplined_race_free [of _ fixed_guard cert_rank, OF _ assms])
    (auto simp: fetcher_disciplined listener_disciplined)

section \<open>Examples\<close>

definition two_cached :: cert_heap where
  "two_cached = (\<lambda>r k. if r = Names \<and> k = ''a.com'' then Some (VCert example_leaf)
     else if r = Certs \<and> k = [] then Some (VCerts [example_leaf, example_leaf]) else None)"

theorem shared_config_races_witness:
  "\<exists>s. go_run (start_all [copier_go 0 [''a.com''], listener_go example_signer_env 0 empty_signer [''a.com''] []] two_cached 0) s \<and>
     Names \<in> set (mc_races s)"
  by (rule shared_config_races) (simp_all add: two_cached_def)

theorem fixed_race_free_witness:
  "mc_races (run_schedule [0, 1, 0, 1, 1, 0] (start_all [fixed_fetcher_go example_signer_env 0 empty_signer [''a.com''],
     fixed_listener_go example_signer_env 0 empty_signer [''a.com''] []] empty_heap 0)) = []"
  by (rule fixed_race_free [of example_signer_env 0 empty_signer "[[''a.com'']]" "[[''a.com'']]" empty_heap 0])
    (simp only: list.map append.simps, rule run_schedule_run, rule go_run.start)

end
