(* ===== verification/Tunnel.thy ===== *)
theory Tunnel
  imports Idle_Timeout Machines
begin

text \<open>
  \<open>copyAndClose\<close> and \<open>closeTogether\<close> of \<open>ctx.go\<close>: two goroutines copy between a client and a
  destination, one in each direction, and a third closes both connections when both have ended. Every
  read or write goes through an \<open>IdleTimeoutConn\<close> of the goroutine's own, but the sockets underneath are
  shared, so one direction moves the deadlines of the other. The goroutines take turns in any order;
  one step is one call on a connection or on the channel. The source declares the two functions and calls neither:
  its tunnels are joined by \<open>fitter.Fit\<close>, a library. That the three goroutines run together, one \<open>copyAndClose\<close> for
  each direction and one \<open>closeTogether\<close>, is what their channel is made for, and is an assumption of this model.
\<close>

section \<open>State\<close>

datatype side = Client | Target

primrec other :: "side \<Rightarrow> side" where
  "other Client = Target"
| "other Target = Client"

lemma other_other [simp]: "other (other x) = x"
  by (cases x) simp_all

lemma other_neq [simp]: "other x \<noteq> x" "x \<noteq> other x"
  by (cases x; simp)+

lemma all_sides: "(\<forall>y. P y) \<longleftrightarrow> P x \<and> P (other x)"
  by (cases x) (auto, (metis side.exhaust)+)

text \<open>
  Where a call of \<open>copyAndClose\<close> is: before each of the two deadlines it sets, before a read or in
  it, with data to write and the error that came with it, after \<open>io.Copy\<close>, and after the connection
  was sent to \<open>toClose\<close>.
\<close>

datatype copy_phase = Starting | HalfReady | ToRead | Reading | ToWrite string "goerr option"
  | CopyEnded "goerr option" | HandedOver

text \<open>
  One direction. \<open>cp_r\<close> and \<open>cp_w\<close> are \<open>ridle\<close> and \<open>widle\<close>; the socket they point to is shared, so
  it is loaded into them before a call and stored back after it. \<open>cp_bytes\<close> is the count of
  \<open>io.Copy\<close>; \<open>cp_taken\<close> holds what the reads returned, for the statements only.
\<close>

record copier =
  cp_phase :: copy_phase
  cp_r :: idle_conn
  cp_w :: idle_conn
  cp_bytes :: nat
  cp_taken :: string

text \<open>\<open>closeTogether\<close>: what it has received, then what it has yet to close.\<close>

datatype closer = Receiving "side list" | Closing "side list"

record tunnel =
  tn_socket :: "side \<Rightarrow> socket"
  tn_copier :: "side \<Rightarrow> copier"
  tn_to_close :: "side list"
  tn_closer :: closer

definition put_copier :: "side \<Rightarrow> copier \<Rightarrow> tunnel \<Rightarrow> tunnel" where
  "put_copier x c t = t\<lparr>tn_copier := (tn_copier t)(x := c)\<rparr>"

definition loaded :: "tunnel \<Rightarrow> side \<Rightarrow> idle_conn \<Rightarrow> idle_conn" where
  "loaded t x c = c\<lparr>ic_conn := tn_socket t x\<rparr>"

definition stored :: "side \<Rightarrow> idle_conn \<Rightarrow> tunnel \<Rightarrow> tunnel" where
  "stored x c t = t\<lparr>tn_socket := (tn_socket t)(x := ic_conn c)\<rparr>"

lemma tunnel_updates [simp]:
  "tn_socket (put_copier x c t) = tn_socket t"
  "tn_copier (put_copier x c t) = (tn_copier t)(x := c)"
  "tn_to_close (put_copier x c t) = tn_to_close t" "tn_closer (put_copier x c t) = tn_closer t"
  "tn_socket (stored x i t) = (tn_socket t)(x := ic_conn i)"
  "tn_copier (stored x i t) = tn_copier t"
  "tn_to_close (stored x i t) = tn_to_close t" "tn_closer (stored x i t) = tn_closer t"
  by (simp_all add: put_copier_def stored_def)

lemma loaded_fields [simp]:
  "ic_conn (loaded t x c) = tn_socket t x" "ic_deadline (loaded t x c) = ic_deadline c"
  "ic_idle_timeout (loaded t x c) = ic_idle_timeout c"
  by (simp_all add: loaded_def)

section \<open>The calls\<close>

text \<open>\<open>300 * time.Second\<close>.\<close>

definition timeout_duration :: int where
  "timeout_duration = 300 * second"

definition copy_start :: "gotime \<Rightarrow> side \<Rightarrow> tunnel \<Rightarrow> tunnel" where
  "copy_start now x t =
     (let c = tn_copier t x;
          r = idle_set_read_deadline (Some (now + timeout_duration)) (loaded t x (cp_r c))
      in stored x r (put_copier x (c\<lparr>cp_r := r, cp_phase := HalfReady\<rparr>) t))"

definition copy_ready :: "gotime \<Rightarrow> side \<Rightarrow> tunnel \<Rightarrow> tunnel" where
  "copy_ready now x t =
     (let c = tn_copier t x;
          w = idle_set_write_deadline (Some (now + timeout_duration)) (loaded t (other x) (cp_w c))
      in stored (other x) w (put_copier x (c\<lparr>cp_w := w, cp_phase := ToRead\<rparr>) t))"

text \<open>
  The loop of \<open>io.Copy\<close>: a read sets the deadlines and waits; what it returned is written; an error
  ends the loop, and \<open>io.EOF\<close> is no error of the copy.
\<close>

definition copy_read :: "gotime \<Rightarrow> side \<Rightarrow> tunnel \<Rightarrow> tunnel" where
  "copy_read now x t =
     (let c = tn_copier t x; r = settimeout now (loaded t x (cp_r c))
      in stored x r (put_copier x (c\<lparr>cp_r := r, cp_phase := Reading\<rparr>) t))"

definition after_turn :: "goerr option \<Rightarrow> copy_phase" where
  "after_turn err =
     (case err of None \<Rightarrow> ToRead | Some e \<Rightarrow> CopyEnded (if e = ErrEOF then None else Some e))"

definition copy_got :: "string \<Rightarrow> goerr option \<Rightarrow> side \<Rightarrow> tunnel \<Rightarrow> tunnel" where
  "copy_got data err x t =
     (let c = tn_copier t x
      in put_copier x (c\<lparr>cp_taken := cp_taken c @ data,
           cp_phase := (if data \<noteq> [] then ToWrite data err else after_turn err)\<rparr>) t)"

definition timeout_error :: goerr where
  "timeout_error = ErrText ''i/o timeout''"

text \<open>A write, which fails when the deadline that it sets itself has passed.\<close>

definition timed_write :: "gotime \<Rightarrow> string \<Rightarrow> idle_conn \<Rightarrow> write_res \<times> idle_conn" where
  "timed_write now data c =
     (if idle_limit now c \<le> now \<and> \<not> tc_closed (so_conn (ic_conn c))
      then ((0, Some timeout_error), settimeout now c)
      else idle_write now data c)"

definition after_write :: "nat \<Rightarrow> write_res \<Rightarrow> goerr option \<Rightarrow> copy_phase" where
  "after_write len r err =
     (if snd r \<noteq> None then CopyEnded (snd r)
      else if fst r \<noteq> len then CopyEnded (Some ErrShortWrite)
      else after_turn err)"

definition copy_write :: "gotime \<Rightarrow> string \<Rightarrow> goerr option \<Rightarrow> side \<Rightarrow> tunnel \<Rightarrow> tunnel" where
  "copy_write now data err x t =
     (let c = tn_copier t x
      in case timed_write now data (loaded t (other x) (cp_w c)) of
           (r, w) \<Rightarrow> stored (other x) w (put_copier x
              (c\<lparr>cp_w := w, cp_bytes := cp_bytes c + fst r,
                cp_phase := after_write (length data) r err\<rparr>) t))"

definition copy_hand_over :: "side \<Rightarrow> tunnel \<Rightarrow> tunnel" where
  "copy_hand_over x t =
     put_copier x ((tn_copier t x)\<lparr>cp_phase := HandedOver\<rparr>) (t\<lparr>tn_to_close := tn_to_close t @ [x]\<rparr>)"

text \<open>\<open>closeTogether\<close>. An error of a close is only logged.\<close>

definition closer_receives :: "side list \<Rightarrow> side \<Rightarrow> side list \<Rightarrow> tunnel \<Rightarrow> tunnel" where
  "closer_receives got x rest t =
     t\<lparr>tn_to_close := rest,
       tn_closer := (if got = [] then Receiving [x] else Closing (got @ [x]))\<rparr>"

definition closer_closes :: "side \<Rightarrow> side list \<Rightarrow> tunnel \<Rightarrow> tunnel" where
  "closer_closes x rest t =
     (case idle_close (loaded t x (cp_r (tn_copier t x))) of
        (_, r) \<Rightarrow> (stored x r t)\<lparr>tn_closer := Closing rest\<rparr>)"

section \<open>The steps\<close>

text \<open>
  What a read may return at a time: nothing but an error once the connection is closed or its
  deadline has passed. Before that the peer decides.
\<close>

definition read_may :: "gotime \<Rightarrow> socket \<Rightarrow> string \<Rightarrow> goerr option \<Rightarrow> bool" where
  "read_may now s data err \<longleftrightarrow>
     (if tc_closed (so_conn s) then data = [] \<and> err = Some ErrNetClosed
      else case so_read_deadline s of
             Some d \<Rightarrow> d \<le> now \<longrightarrow> data = [] \<and> err = Some timeout_error
           | None \<Rightarrow> True)"

inductive tunnel_step :: "gotime \<Rightarrow> tunnel \<Rightarrow> tunnel \<Rightarrow> bool" where
  starts: "cp_phase (tn_copier t x) = Starting \<Longrightarrow> tunnel_step now t (copy_start now x t)"
| readies: "cp_phase (tn_copier t x) = HalfReady \<Longrightarrow> tunnel_step now t (copy_ready now x t)"
| reads: "cp_phase (tn_copier t x) = ToRead \<Longrightarrow> tunnel_step now t (copy_read now x t)"
| got: "cp_phase (tn_copier t x) = Reading \<Longrightarrow> read_may now (tn_socket t x) data err \<Longrightarrow>
    tunnel_step now t (copy_got data err x t)"
| writes: "cp_phase (tn_copier t x) = ToWrite data err \<Longrightarrow>
    tunnel_step now t (copy_write now data err x t)"
| hand_over: "cp_phase (tn_copier t x) = CopyEnded e \<Longrightarrow> tunnel_step now t (copy_hand_over x t)"
| receives: "tn_closer t = Receiving got \<Longrightarrow> tn_to_close t = x # rest \<Longrightarrow>
    tunnel_step now t (closer_receives got x rest t)"
| closes: "tn_closer t = Closing (x # rest) \<Longrightarrow> tunnel_step now t (closer_closes x rest t)"

inductive tunnel_run :: "tunnel \<Rightarrow> tunnel \<Rightarrow> bool" for t0 where
  here: "tunnel_run t0 t0"
| more: "tunnel_run t0 t \<Longrightarrow> tunnel_step now t t' \<Longrightarrow> tunnel_run t0 t'"

definition new_copier :: copier where
  "new_copier = (let c = \<lparr>ic_conn = \<lparr>so_conn = fresh_conn, so_read_deadline = None, so_write_deadline = None\<rparr>,
                        ic_idle_timeout = 0, ic_deadline = None\<rparr>
     in \<lparr>cp_phase = Starting, cp_r = c, cp_w = c, cp_bytes = 0, cp_taken = []\<rparr>)"

definition new_tunnel :: "socket \<Rightarrow> socket \<Rightarrow> tunnel" where
  "new_tunnel client target =
     \<lparr>tn_socket = (\<lambda>x. if x = Client then client else target), tn_copier = (\<lambda>x. new_copier),
      tn_to_close = [], tn_closer = Receiving []\<rparr>"

section \<open>What the calls do\<close>

lemma copy_start_fields [simp]:
  "tn_copier (copy_start now x t) = (tn_copier t)(x := (tn_copier t x)\<lparr>
     cp_r := idle_set_read_deadline (Some (now + timeout_duration)) (loaded t x (cp_r (tn_copier t x))),
     cp_phase := HalfReady\<rparr>)"
  "tn_socket (copy_start now x t) =
     (tn_socket t)(x := so_set_read (tn_socket t x) (Some (now + timeout_duration)))"
  "tn_to_close (copy_start now x t) = tn_to_close t" "tn_closer (copy_start now x t) = tn_closer t"
  by (simp_all add: copy_start_def Let_def idle_set_read_deadline_def)

lemma copy_ready_fields [simp]:
  "tn_copier (copy_ready now x t) = (tn_copier t)(x := (tn_copier t x)\<lparr>
     cp_w := idle_set_write_deadline (Some (now + timeout_duration)) (loaded t (other x) (cp_w (tn_copier t x))),
     cp_phase := ToRead\<rparr>)"
  "tn_socket (copy_ready now x t) =
     (tn_socket t)(other x := so_set_write (tn_socket t (other x)) (Some (now + timeout_duration)))"
  "tn_to_close (copy_ready now x t) = tn_to_close t" "tn_closer (copy_ready now x t) = tn_closer t"
  by (simp_all add: copy_ready_def Let_def idle_set_write_deadline_def)

lemma copy_read_fields [simp]:
  "tn_copier (copy_read now x t) = (tn_copier t)(x := (tn_copier t x)\<lparr>
     cp_r := settimeout now (loaded t x (cp_r (tn_copier t x))), cp_phase := Reading\<rparr>)"
  "tn_socket (copy_read now x t) = (tn_socket t)(x := so_set_deadline (tn_socket t x)
     (Some (idle_limit now (loaded t x (cp_r (tn_copier t x))))))"
  "tn_to_close (copy_read now x t) = tn_to_close t" "tn_closer (copy_read now x t) = tn_closer t"
  by (simp_all add: copy_read_def Let_def settimeout_def)

lemma copy_got_fields [simp]:
  "tn_copier (copy_got data err x t) = (tn_copier t)(x := (tn_copier t x)\<lparr>
     cp_taken := cp_taken (tn_copier t x) @ data,
     cp_phase := (if data \<noteq> [] then ToWrite data err else after_turn err)\<rparr>)"
  "tn_socket (copy_got data err x t) = tn_socket t"
  "tn_to_close (copy_got data err x t) = tn_to_close t" "tn_closer (copy_got data err x t) = tn_closer t"
  by (simp_all add: copy_got_def Let_def)

lemma hand_over_fields [simp]:
  "tn_copier (copy_hand_over x t) = (tn_copier t)(x := (tn_copier t x)\<lparr>cp_phase := HandedOver\<rparr>)"
  "tn_socket (copy_hand_over x t) = tn_socket t"
  "tn_to_close (copy_hand_over x t) = tn_to_close t @ [x]" "tn_closer (copy_hand_over x t) = tn_closer t"
  by (simp_all add: copy_hand_over_def)

lemma receives_fields [simp]:
  "tn_copier (closer_receives got x rest t) = tn_copier t"
  "tn_socket (closer_receives got x rest t) = tn_socket t"
  "tn_to_close (closer_receives got x rest t) = rest"
  "tn_closer (closer_receives got x rest t) = (if got = [] then Receiving [x] else Closing (got @ [x]))"
  by (simp_all add: closer_receives_def)

definition closed_socket :: "socket \<Rightarrow> socket" where
  "closed_socket s = s\<lparr>so_conn := (so_conn s)\<lparr>tc_closed := True\<rparr>\<rparr>"

lemma tcp_close_snd: "snd (tcp_close c) = c\<lparr>tc_closed := True\<rparr>"
  by (cases c) (simp add: tcp_close_def)

lemma closes_fields [simp]:
  "tn_copier (closer_closes x rest t) = tn_copier t"
  "tn_socket (closer_closes x rest t) = (tn_socket t)(x := closed_socket (tn_socket t x))"
  "tn_to_close (closer_closes x rest t) = tn_to_close t"
  "tn_closer (closer_closes x rest t) = Closing rest"
  by (simp_all add: closer_closes_def idle_close_def closed_socket_def tcp_close_snd case_prod_unfold)

text \<open>A write, whatever it returns: a prefix of the data is delivered and both deadlines are set.\<close>

lemma timed_write_result:
  assumes "timed_write now d c = (r, w)"
  shows "fst r \<le> length d"
    and "tc_sent (so_conn (ic_conn w)) = tc_sent (so_conn (ic_conn c)) @ take (fst r) d"
    and "tc_closed (so_conn (ic_conn w)) = tc_closed (so_conn (ic_conn c))"
    and "ic_deadline w = ic_deadline c"
    and "so_read_deadline (ic_conn w) = Some (idle_limit now c)"
    and "so_write_deadline (ic_conn w) = Some (idle_limit now c)"
proof -
  have *: "fst r \<le> length d \<and> tc_sent (so_conn (ic_conn w)) = tc_sent (so_conn (ic_conn c)) @ take (fst r) d
    \<and> tc_closed (so_conn (ic_conn w)) = tc_closed (so_conn (ic_conn c)) \<and> ic_deadline w = ic_deadline c
    \<and> so_read_deadline (ic_conn w) = Some (idle_limit now c)
    \<and> so_write_deadline (ic_conn w) = Some (idle_limit now c)"
  proof (cases "idle_limit now c \<le> now \<and> \<not> tc_closed (so_conn (ic_conn c))")
    case True
    then show ?thesis using assms by (auto simp: timed_write_def)
  next
    case False
    obtain n e cc where wr: "tcp_write (so_conn (ic_conn c)) d = ((n, e), cc)"
      by (metis prod.collapse)
    have "tc_closed cc = tc_closed (so_conn (ic_conn c))"
      using wr by (auto simp: tcp_write_def split: if_splits option.splits)
    moreover have "r = (n, e)" "w = (settimeout now c)\<lparr>ic_conn := (ic_conn (settimeout now c))\<lparr>so_conn := cc\<rparr>\<rparr>"
      using assms False wr by (auto simp: timed_write_def idle_write_def Let_def)
    ultimately show ?thesis using tcp.sent_write [OF wr] tcp.write_count [OF wr] by simp
  qed
  then show "fst r \<le> length d"
    and "tc_sent (so_conn (ic_conn w)) = tc_sent (so_conn (ic_conn c)) @ take (fst r) d"
    and "tc_closed (so_conn (ic_conn w)) = tc_closed (so_conn (ic_conn c))"
    and "ic_deadline w = ic_deadline c"
    and "so_read_deadline (ic_conn w) = Some (idle_limit now c)"
    and "so_write_deadline (ic_conn w) = Some (idle_limit now c)"
    by blast+
qed

lemma timed_write_late:
  "timed_write now d c = (r, w) \<Longrightarrow> idle_limit now c \<le> now \<Longrightarrow> snd r \<noteq> None"
  by (auto simp: timed_write_def idle_write_def Let_def split: if_splits prod.splits)

lemma idle_limit_le: "ic_deadline c = Some d \<Longrightarrow> idle_limit now c \<le> d"
  by (simp add: idle_limit_min)

lemma copy_write_cases:
  obtains r w where "timed_write now data (loaded t (other x) (cp_w (tn_copier t x))) = (r, w)"
    "tn_copier (copy_write now data err x t) = (tn_copier t)(x := (tn_copier t x)\<lparr>cp_w := w,
       cp_bytes := cp_bytes (tn_copier t x) + fst r, cp_phase := after_write (length data) r err\<rparr>)"
    "tn_socket (copy_write now data err x t) = (tn_socket t)(other x := ic_conn w)"
    "tn_to_close (copy_write now data err x t) = tn_to_close t"
    "tn_closer (copy_write now data err x t) = tn_closer t"
  by (cases "timed_write now data (loaded t (other x) (cp_w (tn_copier t x)))")
     (simp add: copy_write_def Let_def)

section \<open>What is relayed\<close>

text \<open>
  Of one direction: what the other side was sent is the part of what was read that the count says,
  and outside a write and before a failure that is all of it.
\<close>

definition sent_to :: "tunnel \<Rightarrow> side \<Rightarrow> string" where
  "sent_to t y = tc_sent (so_conn (tn_socket t y))"

definition direction_ok :: "copier \<Rightarrow> string \<Rightarrow> string \<Rightarrow> bool" where
  "direction_ok c before after \<longleftrightarrow> cp_bytes c \<le> length (cp_taken c) \<and>
     after = before @ take (cp_bytes c) (cp_taken c) \<and>
     (case cp_phase c of
        ToWrite d e \<Rightarrow> cp_taken c = take (cp_bytes c) (cp_taken c) @ d
      | CopyEnded (Some e) \<Rightarrow> True
      | HandedOver \<Rightarrow> True
      | _ \<Rightarrow> cp_bytes c = length (cp_taken c))"

lemma after_turn_cases:
  obtains "after_turn err = ToRead" | e where "after_turn err = CopyEnded e"
  by (cases err) (auto simp: after_turn_def)

lemma direction_write:
  assumes "direction_ok c before mid" and "cp_phase c = ToWrite d e"
    and "fst r \<le> length d" and "after = mid @ take (fst r) d"
  shows "direction_ok (c\<lparr>cp_w := w, cp_bytes := cp_bytes c + fst r,
           cp_phase := after_write (length d) r e\<rparr>) before after"
proof -
  let ?n = "cp_bytes c"
  have len: "?n \<le> length (cp_taken c)" and taken: "cp_taken c = take ?n (cp_taken c) @ d"
    and mid: "mid = before @ take ?n (cp_taken c)"
    using assms(1,2) by (simp_all add: direction_ok_def)
  have "take ?n (cp_taken c) @ d = take ?n (cp_taken c) @ drop ?n (cp_taken c)"
    using taken by (simp only: append_take_drop_id)
  then have rest: "drop ?n (cp_taken c) = d" by (simp only: same_append_eq)
  then have total: "length (cp_taken c) = ?n + length d" using len by auto
  have "take (?n + fst r) (cp_taken c) = take ?n (cp_taken c) @ take (fst r) d"
    by (simp add: take_add rest)
  then show ?thesis
    using assms(3,4) total by (auto simp: direction_ok_def mid after_write_def after_turn_def split: option.split)
qed

lemma direction_got:
  assumes "direction_ok c before after" and "cp_phase c = Reading"
  shows "direction_ok (c\<lparr>cp_taken := cp_taken c @ d,
           cp_phase := (if d \<noteq> [] then ToWrite d e else after_turn e)\<rparr>) before after"
  using assms by (auto simp: direction_ok_def after_turn_def split: option.split)

lemma direction_quiet:
  assumes "direction_ok c before after" and "cp_taken c' = cp_taken c" and "cp_bytes c' = cp_bytes c"
    and "cp_phase c \<in> {Starting, HalfReady, ToRead, Reading} \<or> cp_phase c' = HandedOver"
    and "cp_phase c' \<in> {HalfReady, ToRead, Reading, HandedOver}"
  shows "direction_ok c' before after"
  using assms by (auto simp: direction_ok_def split: copy_phase.splits option.splits)

lemma so_set_sent [simp]:
  "so_conn (so_set_read s d) = so_conn s" "so_conn (so_set_write s d) = so_conn s"
  "so_conn (so_set_deadline s d) = so_conn s"
  by (simp_all add: so_set_read_def so_set_write_def so_set_deadline_def)

lemma closed_socket_fields [simp]:
  "tc_sent (so_conn (closed_socket s)) = tc_sent (so_conn s)" "tc_closed (so_conn (closed_socket s))"
  "so_read_deadline (closed_socket s) = so_read_deadline s"
  "so_write_deadline (closed_socket s) = so_write_deadline s"
  by (simp_all add: closed_socket_def)

lemma tunnel_step_relays:
  assumes "tunnel_step now t t'"
    and "\<And>y. direction_ok (tn_copier t y) (before (other y)) (sent_to t (other y))"
  shows "direction_ok (tn_copier t' y) (before (other y)) (sent_to t' (other y))"
  using assms(1)
proof cases
  case (starts x)
  then show ?thesis using assms(2) [of y]
    by (auto simp: sent_to_def intro: direction_quiet)
next
  case (readies x)
  then show ?thesis using assms(2) [of y]
    by (auto simp: sent_to_def intro: direction_quiet)
next
  case (reads x)
  then show ?thesis using assms(2) [of y]
    by (auto simp: sent_to_def intro: direction_quiet)
next
  case (got x data err)
  then show ?thesis using assms(2) [of y]
      direction_got [of "tn_copier t x" "before (other x)" "sent_to t (other x)" data err]
    by (auto simp: sent_to_def)
next
  case (writes x data err)
  obtain r w where w: "timed_write now data (loaded t (other x) (cp_w (tn_copier t x))) = (r, w)"
    and copier: "tn_copier t' = (tn_copier t)(x := (tn_copier t x)\<lparr>cp_w := w,
       cp_bytes := cp_bytes (tn_copier t x) + fst r, cp_phase := after_write (length data) r err\<rparr>)"
    and socket: "tn_socket t' = (tn_socket t)(other x := ic_conn w)"
    using copy_write_cases writes(1) by metis
  note result = timed_write_result [OF w]
  show ?thesis
  proof (cases "y = x")
    case True
    have "sent_to t' (other x) = sent_to t (other x) @ take (fst r) data"
      using result(2) by (simp add: sent_to_def socket)
    from direction_write [OF assms(2) writes(2) result(1) this] show ?thesis by (simp add: True copier)
  next
    case False
    then have "other y \<noteq> other x" by (metis other_other)
    then show ?thesis using assms(2) [of y] False by (simp add: sent_to_def copier socket)
  qed
next
  case (hand_over x e)
  then show ?thesis using assms(2) [of y]
    by (auto simp: sent_to_def intro: direction_quiet)
next
  case (receives got x rest)
  then show ?thesis using assms(2) [of y] by (simp add: sent_to_def)
next
  case (closes x rest)
  then show ?thesis using assms(2) [of y] by (auto simp: sent_to_def)
qed

section \<open>Deadlines\<close>

text \<open>
  \<open>limit_at T t\<close>: the limits that the goroutines have set so far, five minutes after their start, are
  not after \<open>T\<close>. Then no deadline of a socket is, whatever the traffic was.
\<close>

definition set_up :: "tunnel \<Rightarrow> bool" where
  "set_up t \<longleftrightarrow> (\<forall>x. cp_phase (tn_copier t x) \<notin> {Starting, HalfReady})"

definition limit_of :: "gotime \<Rightarrow> copier \<Rightarrow> bool" where
  "limit_of T c \<longleftrightarrow> (\<forall>d. ic_deadline (cp_r c) = Some d \<longrightarrow> d \<le> T) \<and> (\<forall>d. ic_deadline (cp_w c) = Some d \<longrightarrow> d \<le> T)"

definition limit_at :: "gotime \<Rightarrow> tunnel \<Rightarrow> bool" where
  "limit_at T t \<longleftrightarrow> (\<forall>x. limit_of T (tn_copier t x))"

definition until :: "gotime \<Rightarrow> gotime option \<Rightarrow> bool" where
  "until T d \<longleftrightarrow> (case d of None \<Rightarrow> False | Some d \<Rightarrow> d \<le> T)"

definition limits_set :: "copier \<Rightarrow> bool" where
  "limits_set c \<longleftrightarrow> (ic_deadline (cp_r c) = None \<longleftrightarrow> cp_phase c = Starting)
     \<and> (ic_deadline (cp_w c) = None \<longleftrightarrow> cp_phase c \<in> {Starting, HalfReady})"

definition socket_until :: "gotime \<Rightarrow> tunnel \<Rightarrow> side \<Rightarrow> bool" where
  "socket_until T t y \<longleftrightarrow>
     (cp_phase (tn_copier t y) \<noteq> Starting \<longrightarrow> until T (so_read_deadline (tn_socket t y))) \<and>
     (cp_phase (tn_copier t (other y)) \<notin> {Starting, HalfReady} \<longrightarrow>
        until T (so_write_deadline (tn_socket t y)))"

lemma idle_limit_until: "ic_deadline c = Some d \<Longrightarrow> d \<le> T \<Longrightarrow> until T (Some (idle_limit now c))"
  using idle_limit_le [of c d now] by (simp add: until_def)

lemma so_set_deadlines [simp]:
  "so_read_deadline (so_set_deadline s d) = d" "so_write_deadline (so_set_deadline s d) = d"
  "so_read_deadline (so_set_read s d) = d" "so_write_deadline (so_set_read s d) = so_write_deadline s"
  "so_write_deadline (so_set_write s d) = d" "so_read_deadline (so_set_write s d) = so_read_deadline s"
  by (simp_all add: sock.both sock.read_only sock.write_only)

lemma idle_set_fields [simp]:
  "ic_deadline (idle_set_read_deadline d c) = d" "ic_deadline (idle_set_write_deadline d c) = d"
  by (simp_all add: idle_set_read_deadline_def idle_set_write_deadline_def)

lemma after_write_phase: "after_write n r e \<notin> {Starting, HalfReady}"
  by (simp add: after_write_def after_turn_def split: option.split)

lemma after_turn_phase: "after_turn e \<notin> {Starting, HalfReady}"
  by (simp add: after_turn_def split: option.split)

text \<open>How a step may change the limits of a goroutine.\<close>

definition limits_move :: "copier \<Rightarrow> copier \<Rightarrow> bool" where
  "limits_move c c' \<longleftrightarrow>
     cp_phase c = Starting \<and> cp_phase c' = HalfReady
       \<and> ic_deadline (cp_r c') \<noteq> None \<and> ic_deadline (cp_w c') = ic_deadline (cp_w c) \<or>
     cp_phase c = HalfReady \<and> cp_phase c' \<notin> {Starting, HalfReady}
       \<and> ic_deadline (cp_r c') = ic_deadline (cp_r c) \<and> ic_deadline (cp_w c') \<noteq> None \<or>
     cp_phase c \<notin> {Starting, HalfReady} \<and> cp_phase c' \<notin> {Starting, HalfReady}
       \<and> ic_deadline (cp_r c') = ic_deadline (cp_r c) \<and> ic_deadline (cp_w c') = ic_deadline (cp_w c)"

lemma limits_move_kept:
  assumes "limits_move c c'" and "limits_set c"
  shows "limits_set c'" and "limit_of T c' \<Longrightarrow> limit_of T c"
  using assms by (auto simp: limits_move_def limits_set_def limit_of_def)

lemma copy_write_move:
  assumes "cp_phase (tn_copier t x) = ToWrite d e"
  shows "\<exists>c. tn_copier (copy_write now d e x t) = (tn_copier t)(x := c) \<and> limits_move (tn_copier t x) c"
proof -
  obtain r w where w: "timed_write now d (loaded t (other x) (cp_w (tn_copier t x))) = (r, w)"
    and copier: "tn_copier (copy_write now d e x t) = (tn_copier t)(x := (tn_copier t x)\<lparr>cp_w := w,
       cp_bytes := cp_bytes (tn_copier t x) + fst r, cp_phase := after_write (length d) r e\<rparr>)"
    by (rule copy_write_cases)
  have "limits_move (tn_copier t x) ((tn_copier t x)\<lparr>cp_w := w,
       cp_bytes := cp_bytes (tn_copier t x) + fst r, cp_phase := after_write (length d) r e\<rparr>)"
    using assms after_write_phase [of "length d" r e] timed_write_result(4) [OF w]
    by (simp add: limits_move_def)
  then show ?thesis using copier by blast
qed

lemma tunnel_step_move:
  assumes "tunnel_step now t t'"
  shows "tn_copier t' = tn_copier t \<or>
    (\<exists>x c. tn_copier t' = (tn_copier t)(x := c) \<and> limits_move (tn_copier t x) c)"
  using assms
proof cases
  case (got x data err)
  then have "limits_move (tn_copier t x) (tn_copier t' x)" and "tn_copier t' = (tn_copier t)(x := tn_copier t' x)"
    using after_turn_phase [of err] by (auto simp: limits_move_def)
  then show ?thesis by blast
next
  case (writes x data err)
  then show ?thesis using copy_write_move by blast
next
  case (starts x)
  then have "limits_move (tn_copier t x) (tn_copier t' x)" and "tn_copier t' = (tn_copier t)(x := tn_copier t' x)"
    by (simp_all add: limits_move_def)
  then show ?thesis by blast
next
  case (readies x)
  then have "limits_move (tn_copier t x) (tn_copier t' x)" and "tn_copier t' = (tn_copier t)(x := tn_copier t' x)"
    by (simp_all add: limits_move_def)
  then show ?thesis by blast
next
  case (reads x)
  then have "limits_move (tn_copier t x) (tn_copier t' x)" and "tn_copier t' = (tn_copier t)(x := tn_copier t' x)"
    by (simp_all add: limits_move_def)
  then show ?thesis by blast
next
  case (hand_over x e)
  then have "limits_move (tn_copier t x) (tn_copier t' x)" and "tn_copier t' = (tn_copier t)(x := tn_copier t' x)"
    by (simp_all add: limits_move_def)
  then show ?thesis by blast
qed simp_all

lemma tunnel_step_limits:
  assumes "tunnel_step now t t'" and "\<forall>y. limits_set (tn_copier t y)"
  shows "\<forall>y. limits_set (tn_copier t' y)" and "limit_at T t' \<Longrightarrow> limit_at T t"
proof -
  have "(\<forall>y. limits_set (tn_copier t' y)) \<and> (limit_at T t' \<longrightarrow> limit_at T t)"
    using tunnel_step_move [OF assms(1)]
  proof (elim disjE exE conjE)
    fix x c assume c: "tn_copier t' = (tn_copier t)(x := c)" and "limits_move (tn_copier t x) c"
    note kept = limits_move_kept [OF this(2) assms(2) [THEN spec]]
    show ?thesis using assms(2) kept by (auto simp: limit_at_def c split: if_splits)
  qed (use assms(2) in \<open>simp add: limit_at_def\<close>)
  then show "\<forall>y. limits_set (tn_copier t' y)" and "limit_at T t' \<Longrightarrow> limit_at T t" by blast+
qed

text \<open>The sockets keep to the limit.\<close>

lemma limit_until:
  assumes "limit_of T c" "limits_set c"
  shows "cp_phase c \<noteq> Starting \<Longrightarrow> until T (Some (idle_limit now (loaded t x (cp_r c))))"
    and "cp_phase c \<notin> {Starting, HalfReady} \<Longrightarrow> until T (Some (idle_limit now (loaded t x (cp_w c))))"
proof -
  show "until T (Some (idle_limit now (loaded t x (cp_r c))))" if "cp_phase c \<noteq> Starting"
    using assms that idle_limit_until [of "loaded t x (cp_r c)" _ T now]
    by (auto simp: limit_of_def limits_set_def)
  show "until T (Some (idle_limit now (loaded t x (cp_w c))))" if "cp_phase c \<notin> {Starting, HalfReady}"
    using assms that idle_limit_until [of "loaded t x (cp_w c)" _ T now]
    by (auto simp: limit_of_def limits_set_def)
qed

lemma tunnel_step_sockets:
  assumes step: "tunnel_step now t t'" and set: "\<forall>y. limits_set (tn_copier t y)"
    and T: "limit_at T t'" and ok: "\<forall>y. socket_until T t y"
  shows "socket_until T t' y"
proof -
  have T0: "limit_at T t" using tunnel_step_limits(2) [OF step set T] .
  have limit: "limit_of T (tn_copier t z)" "limits_set (tn_copier t z)" "socket_until T t z" for z
    using T0 set ok by (auto simp: limit_at_def)
  note until = limit_until [OF limit(1,2)]
  show ?thesis
    using step
  proof cases
    case (starts x)
    have "limit_of T (tn_copier t' x)" using T by (simp add: limit_at_def)
    then have "until T (Some (now + timeout_duration))" by (simp add: starts limit_of_def until_def)
    then show ?thesis using limit(3) [of y] starts by (auto simp: socket_until_def)
  next
    case (readies x)
    have "limit_of T (tn_copier t' x)" using T by (simp add: limit_at_def)
    then have "until T (Some (now + timeout_duration))" by (simp add: readies limit_of_def until_def)
    then show ?thesis using limit(3) [of y] readies by (auto simp: socket_until_def)
  next
    case (reads x)
    then show ?thesis using limit(3) [of y] until(1) [of x now t x] by (auto simp: socket_until_def)
  next
    case (got x data err)
    then show ?thesis using limit(3) [of y] limit(3) [of x] by (auto simp: socket_until_def)
  next
    case (writes x data err)
    obtain r w where w: "timed_write now data (loaded t (other x) (cp_w (tn_copier t x))) = (r, w)"
      and copier: "tn_copier t' = (tn_copier t)(x := (tn_copier t x)\<lparr>cp_w := w,
         cp_bytes := cp_bytes (tn_copier t x) + fst r, cp_phase := after_write (length data) r err\<rparr>)"
      and socket: "tn_socket t' = (tn_socket t)(other x := ic_conn w)"
      using copy_write_cases writes(1) by metis
    show ?thesis
      using limit(3) [of y] until(2) [of x now t "other x"] writes(2) timed_write_result(5,6) [OF w]
      by (auto simp: socket_until_def copier socket)
  next
    case (hand_over x e)
    then show ?thesis using limit(3) [of y] by (auto simp: socket_until_def)
  next
    case (receives got x rest)
    then show ?thesis using limit(3) [of y] by (simp add: socket_until_def)
  next
    case (closes x rest)
    then show ?thesis using limit(3) [of y] by (auto simp: socket_until_def)
  qed
qed

section \<open>Closing\<close>

definition is_closed :: "tunnel \<Rightarrow> side \<Rightarrow> bool" where
  "is_closed t x \<longleftrightarrow> tc_closed (so_conn (tn_socket t x))"

text \<open>
  The connections on the channel are those of the goroutines that are done; nothing is closed before
  both are, and then one after the other.
\<close>

definition closer_ok :: "tunnel \<Rightarrow> bool" where
  "closer_ok t \<longleftrightarrow>
     (case tn_closer t of
        Receiving got \<Rightarrow> length got \<le> 1 \<and> distinct (got @ tn_to_close t)
          \<and> (\<forall>x. x \<in> set (got @ tn_to_close t) \<longleftrightarrow> cp_phase (tn_copier t x) = HandedOver)
          \<and> (\<forall>x. \<not> is_closed t x)
      | Closing rest \<Rightarrow> tn_to_close t = [] \<and> distinct rest
          \<and> (\<forall>x. cp_phase (tn_copier t x) = HandedOver) \<and> (\<forall>x. is_closed t x \<longleftrightarrow> x \<notin> set rest))"

text \<open>A step of a goroutine that copies, before it hands its connection over.\<close>

lemma closer_ok_copier:
  assumes "closer_ok t" and "cp_phase (tn_copier t x) \<noteq> HandedOver"
    and "tn_copier t' = (tn_copier t)(x := c)" and "cp_phase c \<noteq> HandedOver"
    and "tn_closer t' = tn_closer t" and "tn_to_close t' = tn_to_close t"
    and "\<And>y. is_closed t' y = is_closed t y"
  shows "closer_ok t'"
  using assms by (auto simp: closer_ok_def split: closer.splits)

lemma two_sides:
  fixes x y z :: side
  shows "distinct [x, y] \<Longrightarrow> z = x \<or> z = y"
  by (cases x; cases y; cases z) simp_all

lemma after_not_over: "after_turn e \<noteq> HandedOver" "after_write n r e \<noteq> HandedOver"
  by (auto simp: after_turn_def after_write_def split: option.splits)

lemma tunnel_step_closer:
  assumes "tunnel_step now t t'" and "closer_ok t"
  shows "closer_ok t'"
  using assms(1)
proof cases
  case (starts x)
  then show ?thesis by (intro closer_ok_copier [OF assms(2), of x t' "tn_copier t' x"]) (simp_all add: is_closed_def)
next
  case (readies x)
  then show ?thesis by (intro closer_ok_copier [OF assms(2), of x t' "tn_copier t' x"]) (simp_all add: is_closed_def)
next
  case (reads x)
  then show ?thesis by (intro closer_ok_copier [OF assms(2), of x t' "tn_copier t' x"]) (simp_all add: is_closed_def)
next
  case (got x data err)
  then show ?thesis
    by (intro closer_ok_copier [OF assms(2), of x t' "tn_copier t' x"]) (simp_all add: is_closed_def after_not_over)
next
  case (writes x data err)
  obtain r w where w: "timed_write now data (loaded t (other x) (cp_w (tn_copier t x))) = (r, w)"
    and "tn_copier t' = (tn_copier t)(x := (tn_copier t x)\<lparr>cp_w := w,
       cp_bytes := cp_bytes (tn_copier t x) + fst r, cp_phase := after_write (length data) r err\<rparr>)"
    and "tn_socket t' = (tn_socket t)(other x := ic_conn w)"
    and "tn_to_close t' = tn_to_close t" "tn_closer t' = tn_closer t"
    using copy_write_cases writes(1) by metis
  then show ?thesis
    using writes(2) timed_write_result(3) [OF w]
    by (intro closer_ok_copier [OF assms(2), of x t' "tn_copier t' x"]) (simp_all add: is_closed_def after_not_over)
next
  case (hand_over x e)
  show ?thesis
  proof (cases "tn_closer t")
    case (Receiving got)
    have "x \<notin> set (got @ tn_to_close t)"
      using assms(2) hand_over by (auto simp: closer_ok_def Receiving)
    then show ?thesis using assms(2) hand_over by (auto simp: closer_ok_def is_closed_def Receiving)
  next
    case (Closing rest)
    then show ?thesis using assms(2) hand_over by (auto simp: closer_ok_def)
  qed
next
  case (receives got x rest)
  show ?thesis
  proof (cases got)
    case Nil
    then show ?thesis using assms(2) receives by (auto simp: closer_ok_def is_closed_def)
  next
    case (Cons a as)
    then have got: "got = [a]" using assms(2) receives by (simp add: closer_ok_def)
    then have "a \<noteq> x" "x \<notin> set rest" "a \<notin> set rest" using assms(2) receives by (auto simp: closer_ok_def)
    then have "rest = []" using two_sides [of a x "hd rest"] by (cases rest) auto
    then show ?thesis using assms(2) receives got two_sides [of a x]
      by (auto simp: closer_ok_def is_closed_def)
  qed
next
  case (closes x rest)
  then show ?thesis using assms(2) by (auto simp: closer_ok_def is_closed_def)
qed

section \<open>Reachable states\<close>

lemma new_copier_fields [simp]:
  "cp_phase new_copier = Starting" "cp_bytes new_copier = 0" "cp_taken new_copier = []"
  "ic_deadline (cp_r new_copier) = None" "ic_deadline (cp_w new_copier) = None"
  by (simp_all add: new_copier_def Let_def)

lemma new_tunnel_fields [simp]:
  "tn_copier (new_tunnel c s) = (\<lambda>x. new_copier)" "tn_to_close (new_tunnel c s) = []"
  "tn_closer (new_tunnel c s) = Receiving []"
  "tn_socket (new_tunnel c s) Client = c" "tn_socket (new_tunnel c s) Target = s"
  by (simp_all add: new_tunnel_def)

lemma tunnel_run_direction:
  "tunnel_run (new_tunnel c s) t \<Longrightarrow>
     direction_ok (tn_copier t x) (sent_to (new_tunnel c s) (other x)) (sent_to t (other x))"
proof (induction arbitrary: x rule: tunnel_run.induct)
  case here
  then show ?case by (simp add: direction_ok_def)
next
  case (more t now t')
  show ?case by (rule tunnel_step_relays [OF more.hyps(2)]) (rule more.IH)
qed

lemma tunnel_run_limits:
  assumes "tunnel_run (new_tunnel c s) t"
  shows "(\<forall>y. limits_set (tn_copier t y)) \<and> (\<forall>T. limit_at T t \<longrightarrow> (\<forall>y. socket_until T t y))"
  using assms
proof (induction rule: tunnel_run.induct)
  case here
  then show ?case by (simp add: limits_set_def socket_until_def)
next
  case (more t now t')
  then have set: "\<forall>y. limits_set (tn_copier t y)" by blast
  note kept = tunnel_step_limits [OF more.hyps(2) set]
  have "socket_until T t' y" if T: "limit_at T t'" for T y
    using tunnel_step_sockets [OF more.hyps(2) set T] more.IH kept(2) [OF T] by blast
  then show ?case using kept(1) by blast
qed

definition both_open :: "socket \<Rightarrow> socket \<Rightarrow> bool" where
  "both_open c s \<longleftrightarrow> \<not> tc_closed (so_conn c) \<and> \<not> tc_closed (so_conn s)"

lemma tunnel_run_closer:
  assumes "tunnel_run (new_tunnel c s) t" and "both_open c s"
  shows "closer_ok t"
  using assms(1)
proof (induction rule: tunnel_run.induct)
  case here
  have "\<not> is_closed (new_tunnel c s) x" for x
    using assms(2) by (cases x) (simp_all add: is_closed_def both_open_def)
  then show ?case by (simp add: closer_ok_def)
next
  case (more t now t')
  then show ?case using tunnel_step_closer by blast
qed

section \<open>After the limit\<close>

text \<open>How many steps a goroutine can take once no read and no write can succeed.\<close>

definition copier_weight :: "copier \<Rightarrow> nat" where
  "copier_weight c =
     (case cp_phase c of ToRead \<Rightarrow> 3 | Reading \<Rightarrow> 2 | ToWrite d e \<Rightarrow> 2 | CopyEnded e \<Rightarrow> 1 | _ \<Rightarrow> 0)"

definition closer_weight :: "closer \<Rightarrow> nat" where
  "closer_weight k = (case k of Receiving got \<Rightarrow> 4 - length got | Closing rest \<Rightarrow> length rest)"

definition tunnel_weight :: "tunnel \<Rightarrow> nat" where
  "tunnel_weight t =
     copier_weight (tn_copier t Client) + copier_weight (tn_copier t Target) + closer_weight (tn_closer t)"

lemma tunnel_weight_side:
  "tunnel_weight t = copier_weight (tn_copier t x) + copier_weight (tn_copier t (other x))
     + closer_weight (tn_closer t)"
  by (cases x) (simp_all add: tunnel_weight_def)

lemma tunnel_weight_copier:
  assumes "tn_copier t' = (tn_copier t)(x := c)" and "tn_closer t' = tn_closer t"
    and "copier_weight c < copier_weight (tn_copier t x)"
  shows "tunnel_weight t' < tunnel_weight t"
  using assms by (simp add: tunnel_weight_side [of _ x])

definition late_step :: "gotime \<Rightarrow> tunnel \<Rightarrow> tunnel \<Rightarrow> bool" where
  "late_step T t t' \<longleftrightarrow> (\<exists>now. T \<le> now \<and> tunnel_step now t t')"

definition late_steps :: "gotime \<Rightarrow> nat \<Rightarrow> tunnel \<Rightarrow> tunnel \<Rightarrow> bool" where
  "late_steps T n = (late_step T ^^ n)"

lemma late_steps_intros:
  "late_steps T 0 t t"
  "late_steps T n t t' \<Longrightarrow> T \<le> now \<Longrightarrow> tunnel_step now t' t'' \<Longrightarrow> late_steps T (Suc n) t t''"
  unfolding late_steps_def late_step_def by (simp, rule relpowp_Suc_I) auto

lemma late_step_lighter:
  assumes step: "tunnel_step now t t'" and late: "T \<le> now" and up: "set_up t"
    and ok: "closer_ok t" "\<forall>y. limits_set (tn_copier t y)" "limit_at T t" "\<forall>y. socket_until T t y"
  shows "tunnel_weight t' < tunnel_weight t"
proof -
  have ready: "cp_phase (tn_copier t x) \<notin> {Starting, HalfReady}" for x
    using up by (simp add: set_up_def)
  show ?thesis
    using step
  proof cases
    case (starts x)
    then show ?thesis using ready [of x] by simp
  next
    case (readies x)
    then show ?thesis using ready [of x] by simp
  next
    case (reads x)
    then show ?thesis
      by (intro tunnel_weight_copier [of t' t x "tn_copier t' x"]) (simp_all add: copier_weight_def)
  next
    case (got x data err)
    have "until T (so_read_deadline (tn_socket t x))"
      using ok(4) ready [of x] by (simp add: socket_until_def)
    then have "data = [] \<and> (\<exists>e. err = Some e)"
      using got(3) late by (auto simp: read_may_def until_def split: if_splits option.splits)
    then show ?thesis
      using got by (intro tunnel_weight_copier [of t' t x "tn_copier t' x"])
        (auto simp: copier_weight_def after_turn_def)
  next
    case (writes x data err)
    obtain r w where w: "timed_write now data (loaded t (other x) (cp_w (tn_copier t x))) = (r, w)"
      and copier: "tn_copier t' = (tn_copier t)(x := (tn_copier t x)\<lparr>cp_w := w,
         cp_bytes := cp_bytes (tn_copier t x) + fst r, cp_phase := after_write (length data) r err\<rparr>)"
      and closer: "tn_closer t' = tn_closer t"
      using copy_write_cases writes(1) by metis
    have "until T (Some (idle_limit now (loaded t (other x) (cp_w (tn_copier t x)))))"
      using limit_until(2) ok(2,3) ready [of x] by (simp add: limit_at_def)
    then have "snd r \<noteq> None" using timed_write_late [OF w] late by (simp add: until_def)
    then show ?thesis
      by (intro tunnel_weight_copier [OF copier closer])
        (auto simp: copier_weight_def after_write_def writes(2))
  next
    case (hand_over x e)
    then show ?thesis
      by (intro tunnel_weight_copier [of t' t x "tn_copier t' x"]) (simp_all add: copier_weight_def)
  next
    case (receives got x rest)
    then have "length got \<le> 1" using ok(1) by (simp add: closer_ok_def)
    then show ?thesis
      by (cases got) (simp_all add: tunnel_weight_def receives closer_weight_def)
  next
    case (closes x rest)
    then show ?thesis by (simp add: tunnel_weight_def closer_weight_def)
  qed
qed

lemma tunnel_step_set_up:
  assumes "tunnel_step now t t'" and "set_up t"
  shows "set_up t'"
  using tunnel_step_move [OF assms(1)] assms(2) by (auto simp: set_up_def limits_move_def split: if_splits)

text \<open>What the limits are does not change once they are set.\<close>

lemma tunnel_step_limit_kept:
  assumes "tunnel_step now t t'" and "set_up t" and "limit_at T t"
  shows "limit_at T t'"
  using tunnel_step_move [OF assms(1)] assms(2,3)
  by (auto simp: set_up_def limits_move_def limit_at_def limit_of_def split: if_splits)

text \<open>While something is left to do after the limit, something can be done.\<close>

lemma late_step_possible:
  assumes ok: "closer_ok t" and up: "set_up t" and until: "\<forall>y. socket_until T t y"
    and stuck: "\<And>now t'. T \<le> now \<Longrightarrow> \<not> tunnel_step now t t'"
  shows "is_closed t x"
proof -
  have over: "cp_phase (tn_copier t y) = HandedOver" for y
  proof (cases "cp_phase (tn_copier t y)")
    case Reading
    have "until T (so_read_deadline (tn_socket t y))"
      using until Reading by (simp add: socket_until_def)
    then have "\<exists>data err. read_may T (tn_socket t y) data err"
      by (auto simp: read_may_def until_def split: option.splits)
    then show ?thesis using tunnel_step.got [OF Reading] stuck by blast
  next
    case ToRead
    then show ?thesis using tunnel_step.reads stuck by blast
  next
    case (ToWrite data err)
    then show ?thesis using tunnel_step.writes stuck by blast
  next
    case (CopyEnded e)
    then show ?thesis using tunnel_step.hand_over stuck by blast
  qed (use up in \<open>auto simp: set_up_def\<close>)
  show ?thesis
  proof (cases "tn_closer t")
    case (Receiving got)
    then have "tn_to_close t = []" using tunnel_step.receives stuck by (cases "tn_to_close t") blast+
    then have all: "y \<in> set got" for y using ok over Receiving by (simp add: closer_ok_def)
    moreover have "length got \<le> 1" using ok Receiving by (simp add: closer_ok_def)
    ultimately show ?thesis using all [of Client] all [of Target] by (cases got) auto
  next
    case (Closing rest)
    then have "rest = []" using tunnel_step.closes stuck by (cases rest) blast+
    then show ?thesis using ok Closing by (simp add: closer_ok_def)
  qed
qed

text \<open>The states of a tunnel whose limit is \<open>T\<close>, and its steps after that, as a machine with a measure.\<close>

definition late_ok :: "socket \<Rightarrow> socket \<Rightarrow> gotime \<Rightarrow> tunnel \<Rightarrow> bool" where
  "late_ok c s T t \<longleftrightarrow> tunnel_run (new_tunnel c s) t \<and> both_open c s \<and> set_up t \<and> limit_at T t"

lemma late_okD:
  assumes "late_ok c s T t"
  shows "set_up t" and "limit_at T t" and "closer_ok t" and "\<forall>y. limits_set (tn_copier t y)"
    and "\<forall>y. socket_until T t y"
  using assms tunnel_run_closer [of c s t] tunnel_run_limits [of c s t] by (auto simp: late_ok_def)

interpretation late: measured_steps "late_step T" "late_ok c s T" tunnel_weight for T c s
proof
  fix t t' assume t: "late_ok c s T t" and "late_step T t t'"
  then obtain now where now: "T \<le> now" "tunnel_step now t t'" by (auto simp: late_step_def)
  show "late_ok c s T t'"
    using t tunnel_run.more [OF _ now(2)] tunnel_step_set_up [OF now(2)] tunnel_step_limit_kept [OF now(2)]
    by (auto simp: late_ok_def)
  show "tunnel_weight t' < tunnel_weight t"
    by (rule late_step_lighter [OF now(2,1) late_okD(1) late_okD(3,4,2,5)]) (rule t)+
qed

text \<open>From such a state some run ends, and then both connections are closed.\<close>

lemma tunnel_can_end:
  assumes "late_ok c s T t"
  obtains t' where "(late_step T)\<^sup>*\<^sup>* t t'" "is_closed t' Client" "is_closed t' Target"
proof -
  obtain t' where run: "(late_step T)\<^sup>*\<^sup>* t t'" and stuck: "\<forall>u. \<not> late_step T t' u"
    using late.reaches_end [OF assms] by blast
  have t': "late_ok c s T t'" by (rule late.kept_run [OF run assms])
  have "is_closed t' x" for x
    by (rule late_step_possible [OF late_okD(3,1,5) [OF t']]) (use stuck in \<open>auto simp: late_step_def\<close>)
  then show ?thesis using that run by blast
qed

section \<open>Properties\<close>

text \<open>
  Of every direction and at every moment, the other side was sent what was read, as far as the count
  of \<open>io.Copy\<close> says; when the copy ended without an error, that is everything.
\<close>

theorem tunnel_relays:
  assumes "tunnel_run (new_tunnel c s) t"
  shows "sent_to t (other x) = sent_to (new_tunnel c s) (other x)
           @ take (cp_bytes (tn_copier t x)) (cp_taken (tn_copier t x))"
    and "cp_phase (tn_copier t x) = CopyEnded None \<Longrightarrow>
           cp_bytes (tn_copier t x) = length (cp_taken (tn_copier t x))"
  using tunnel_run_direction [OF assms, of x] by (simp_all add: direction_ok_def)

text \<open>
  Whatever the traffic, a socket of a tunnel has both deadlines set, and not after the limit that the
  goroutines chose at their start: traffic in one direction cannot keep the other alive for longer.
\<close>

theorem tunnel_deadlines:
  assumes "tunnel_run (new_tunnel c s) t" and "set_up t" and "limit_at T t"
  shows "until T (so_read_deadline (tn_socket t x)) \<and> until T (so_write_deadline (tn_socket t x))"
proof -
  have "socket_until T t x" using tunnel_run_limits [OF assms(1)] assms(3) by blast
  then show ?thesis using assms(2) by (auto simp: socket_until_def set_up_def)
qed

text \<open>A connection is closed only when both directions are done with it.\<close>

theorem tunnel_closes_last:
  assumes "tunnel_run (new_tunnel c s) t" and "both_open c s" and "is_closed t x"
  shows "cp_phase (tn_copier t y) = HandedOver"
  using tunnel_run_closer [OF assms(1,2)] assms(3) by (auto simp: closer_ok_def split: closer.splits)

text \<open>
  C37. However long a tunnel was used, once its goroutines are set up and the limit they chose has passed, all
  of them together take at most ten more steps; they can always go on to a state in which both connections
  are closed, and whenever no step is left to take, both are: no tunnel outlives its limit. (A tunnel is the two calls
  of \<open>copyAndClose\<close> with one of \<open>closeTogether\<close>; the tunnels of the proxy itself go through \<open>fitter.Fit\<close>.)
\<close>

theorem tunnel_ends:
  assumes run: "tunnel_run (new_tunnel c s) t" and "open": "both_open c s"
    and up: "set_up t" and T: "limit_at T t" and late: "late_steps T n t t'"
  shows "n \<le> 10 \<and> (\<exists>u. (late_step T)\<^sup>*\<^sup>* t' u \<and> is_closed u Client \<and> is_closed u Target) \<and>
    ((\<nexists>now t''. T \<le> now \<and> tunnel_step now t' t'') \<longrightarrow> is_closed t' Client \<and> is_closed t' Target)"
proof -
  have t: "late_ok c s T t" using run "open" up T by (simp add: late_ok_def)
  have t': "late_ok c s T t'"
    using late.kept_steps [OF _ t] late by (simp add: late_steps_def)
  have bound: "n + tunnel_weight t' \<le> tunnel_weight t"
    using late.steps_bounded [OF t] late by (simp add: late_steps_def)
  have weight: "copier_weight k \<le> 3" for k
    by (simp add: copier_weight_def split: copy_phase.split)
  have "closer_weight (tn_closer t) \<le> 4"
  proof (cases "tn_closer t")
    case (Closing rest)
    then have "distinct rest" using tunnel_run_closer [OF run "open"] by (simp add: closer_ok_def)
    moreover have "set rest \<subseteq> {Client, Target}" using side.exhaust by auto
    ultimately have "length rest \<le> 2"
      using card_mono [of "{Client, Target}" "set rest"] by (simp add: distinct_card)
    then show ?thesis by (simp add: Closing closer_weight_def)
  qed (simp add: closer_weight_def)
  then have "tunnel_weight t \<le> 10"
    using weight [of "tn_copier t Client"] weight [of "tn_copier t Target"] by (simp add: tunnel_weight_def)
  then have "n \<le> 10" using bound by simp
  moreover have "is_closed t' x" if "\<nexists>now t''. T \<le> now \<and> tunnel_step now t' t''" for x
    by (rule late_step_possible [OF late_okD(3,1,5) [OF t']]) (use that in blast)
  ultimately show ?thesis using tunnel_can_end [OF t'] by blast
qed

text \<open>A tunnel on which nothing is ever sent, from its start to its end.\<close>

definition idle_socket :: socket where
  "idle_socket = \<lparr>so_conn = fresh_conn, so_read_deadline = None, so_write_deadline = None\<rparr>"

definition waiting_tunnel :: tunnel where
  "waiting_tunnel = copy_ready 0 Target (copy_start 0 Target
     (copy_ready 0 Client (copy_start 0 Client (new_tunnel idle_socket idle_socket))))"

definition timed_out :: "side \<Rightarrow> tunnel \<Rightarrow> tunnel" where
  "timed_out x t = copy_hand_over x (copy_got [] (Some timeout_error) x (copy_read timeout_duration x t))"

lemma timed_out_late:
  assumes "late_steps T n t0 t" and "T \<le> timeout_duration" and "cp_phase (tn_copier t x) = ToRead"
    and "until timeout_duration (ic_deadline (cp_r (tn_copier t x)))" and "\<not> is_closed t x"
  shows "late_steps T (n + 3) t0 (timed_out x t)"
proof -
  let ?a = "copy_read timeout_duration x t"
  let ?b = "copy_got [] (Some timeout_error) x ?a"
  have "tunnel_step timeout_duration t ?a" using assms(3) by (rule tunnel_step.reads)
  then have a: "late_steps T (Suc n) t0 ?a" by (rule late_steps_intros(2) [OF assms(1,2)])
  obtain d where "ic_deadline (cp_r (tn_copier t x)) = Some d" "d \<le> timeout_duration"
    using assms(4) by (auto simp: until_def split: option.splits)
  then have "read_may timeout_duration (tn_socket ?a x) [] (Some timeout_error)"
    using assms(5) idle_limit_le [of "loaded t x (cp_r (tn_copier t x))" d]
    by (simp add: read_may_def is_closed_def)
  then have "tunnel_step timeout_duration ?a ?b" by (intro tunnel_step.got) simp_all
  then have b: "late_steps T (Suc (Suc n)) t0 ?b" by (rule late_steps_intros(2) [OF a assms(2)])
  have "tunnel_step timeout_duration ?b (timed_out x t)"
    unfolding timed_out_def by (rule tunnel_step.hand_over [of _ _ "Some timeout_error"])
      (simp add: after_turn_def timeout_error_def)
  then have "late_steps T (Suc (Suc (Suc n))) t0 (timed_out x t)" by (rule late_steps_intros(2) [OF b assms(2)])
  then show ?thesis by (simp add: numeral_3_eq_3)
qed

definition quiet_tunnel :: tunnel where
  "quiet_tunnel = timed_out Target (timed_out Client waiting_tunnel)"

definition closed_tunnel :: tunnel where
  "closed_tunnel = closer_closes Target [] (closer_closes Client [Target]
     (closer_receives [Client] Target [] (closer_receives [] Client [Target] quiet_tunnel)))"

lemma closed_tunnel_end: "cp_phase (tn_copier closed_tunnel x) = HandedOver" "tn_closer closed_tunnel = Closing []"
proof -
  have "cp_phase (tn_copier closed_tunnel Client) = HandedOver" "cp_phase (tn_copier closed_tunnel Target) = HandedOver"
    by code_simp+
  then show "cp_phase (tn_copier closed_tunnel x) = HandedOver" by (cases x) simp_all
qed code_simp

lemma waiting_tunnel_run: "tunnel_run (new_tunnel idle_socket idle_socket) waiting_tunnel"
  unfolding waiting_tunnel_def
proof (intro tunnel_run.more [OF _ tunnel_step.readies] tunnel_run.more [OF _ tunnel_step.starts] tunnel_run.here)
qed simp_all

lemma waiting_tunnel_phase:
  "cp_phase (tn_copier waiting_tunnel x) = ToRead"
  "ic_deadline (cp_r (tn_copier waiting_tunnel x)) = Some timeout_duration"
  "ic_deadline (cp_w (tn_copier waiting_tunnel x)) = Some timeout_duration" "\<not> is_closed waiting_tunnel x"
proof -
  have "cp_phase (tn_copier waiting_tunnel Client) = ToRead" "cp_phase (tn_copier waiting_tunnel Target) = ToRead"
    "ic_deadline (cp_r (tn_copier waiting_tunnel Client)) = Some timeout_duration"
    "ic_deadline (cp_r (tn_copier waiting_tunnel Target)) = Some timeout_duration"
    "ic_deadline (cp_w (tn_copier waiting_tunnel Client)) = Some timeout_duration"
    "ic_deadline (cp_w (tn_copier waiting_tunnel Target)) = Some timeout_duration"
    "\<not> is_closed waiting_tunnel Client" "\<not> is_closed waiting_tunnel Target"
    by code_simp+
  then show "cp_phase (tn_copier waiting_tunnel x) = ToRead"
    "ic_deadline (cp_r (tn_copier waiting_tunnel x)) = Some timeout_duration"
    "ic_deadline (cp_w (tn_copier waiting_tunnel x)) = Some timeout_duration" "\<not> is_closed waiting_tunnel x"
    by (cases x; simp)+
qed

lemma closed_tunnel_late: "late_steps timeout_duration 10 waiting_tunnel closed_tunnel"
proof -
  have "late_steps timeout_duration (0 + 3 + 3) waiting_tunnel quiet_tunnel"
    unfolding quiet_tunnel_def
    by (intro timed_out_late late_steps_intros(1) order_refl; code_simp)
  moreover have "tn_closer quiet_tunnel = Receiving []" "tn_to_close quiet_tunnel = [Client, Target]"
    by code_simp+
  ultimately have "late_steps timeout_duration (Suc (Suc (Suc (Suc (0 + 3 + 3))))) waiting_tunnel closed_tunnel"
    unfolding closed_tunnel_def
    by (intro late_steps_intros(2) [OF _ order_refl tunnel_step.closes]
          late_steps_intros(2) [OF _ order_refl tunnel_step.receives]) simp_all
  then show ?thesis by (simp add: eval_nat_numeral)
qed

theorem tunnel_ends_witness:
  "is_closed closed_tunnel Client \<and> is_closed closed_tunnel Target"
proof -
  have "\<not> tunnel_step now closed_tunnel t" for now t
    by (auto elim!: tunnel_step.cases simp: closed_tunnel_end)
  then show ?thesis
    using tunnel_ends [OF waiting_tunnel_run _ _ _ closed_tunnel_late]
    by (simp add: both_open_def idle_socket_def set_up_def limit_at_def limit_of_def waiting_tunnel_phase)
qed

end
