(* ===== verification/Wiring.thy ===== *)
theory Wiring
  imports Proxy_Server Persist_Conn Signer Har_Log
begin

text \<open>
  The parts that put the others together: what \<open>NewProxyHttpServer\<close> makes, the setters of the server
  (\<open>proxy.go\<close>), the choice of a certificate authority in \<open>tlsConfig\<close> and \<open>SpyConnection\<close> (\<open>ctx.go\<close>), the
  request to flush the archive (\<open>harlog.go\<close>), and the small parts of \<open>transport/transport.go\<close>.
\<close>

section \<open>A new proxy\<close>

text \<open>The fields of \<open>http.Transport\<close> that are set, and the schemes that are registered with it.\<close>

record http_transport =
  ht_proxy_env :: bool
  ht_handshake_timeout :: int
  ht_header_timeout :: int
  ht_continue_timeout :: int
  ht_max_idle :: int
  ht_idle_timeout :: int
  ht_protocols :: "string list"

text \<open>\<open>http.Transport.RegisterProtocol\<close> panics when the scheme is registered already.\<close>

definition http_register :: "string \<Rightarrow> (http_transport, unit) go" where
  [go_defs]: "http_register scheme = (\<lambda>t.
     if scheme \<in> set (ht_protocols t) then gopanic (''protocol '' @ scheme @ '' already registered'') t
     else ret () (t\<lparr>ht_protocols := ht_protocols t @ [scheme]\<rparr>))"

text \<open>What answers a request that is addressed to the proxy itself, and what resolves destinations.\<close>

datatype non_proxy = NonProxyError string int | NonProxyApp nat
datatype resolver = ConntrackResolver | AppResolver nat

record proxy_setup =
  su_data :: proxy_data
  su_handlers :: server
  su_transport :: http_transport
  su_har :: har_log
  su_non_proxy :: non_proxy
  su_plain_dial :: connect_dial
  su_resolver :: resolver

definition start_transport :: http_transport where
  "start_transport = \<lparr>ht_proxy_env = True, ht_handshake_timeout = 10 * second,
     ht_header_timeout = 30 * second, ht_continue_timeout = 30 * second, ht_max_idle = 20,
     ht_idle_timeout = 60 * second, ht_protocols = []\<rparr>"

text \<open>\<open>NewProxyHttpServer\<close>. The tracer is not part of the proxy: it is the one the application uses.\<close>

definition new_proxy_http_server ::
  "(string \<Rightarrow> (string \<times> string) option) \<Rightarrow> (string \<Rightarrow> string) \<Rightarrow> tracer \<Rightarrow> proxy_setup gores" where
  "new_proxy_http_server parse_url getenv tr =
     (case thn (http_register ''nonhttp'') (http_register ''nonhttps'') start_transport of
        (Panic m, _) \<Rightarrow> Panic m
      | (Val _, t) \<Rightarrow> Val
          \<lparr>su_data = \<lparr>px_sess = 0, px_verbosity = 0, px_mitm_config = None, px_private_network = False,
              px_flush_idle = False, px_idle_flushes = 0, px_connect_dial = dialer_from_env parse_url getenv,
              px_tracer = tr, px_open_handlers = 0, px_har_queue = [], px_har_running = False\<rparr>,
           su_handlers = empty_server, su_transport = t, su_har = new_har,
           su_non_proxy = NonProxyError ''This is a proxy server. Does not respond to non-proxy requests.'' 500,
           su_plain_dial = plain_dialer_from_env parse_url getenv, su_resolver = ConntrackResolver\<rparr>)"

section \<open>Setters of the proxy\<close>

text \<open>\<open>shadownetwork.ShadowNetwork\<close>, as far as the proxy sets it.\<close>

record shadow_net =
  sn_default_transport :: "http_transport option"

definition set_shadow_network :: "shadow_net option \<Rightarrow> proxy_setup \<Rightarrow> shadow_net option \<times> proxy_setup" where
  "set_shadow_network sn p =
     (case sn of
        None \<Rightarrow> (None, p)
      | Some net \<Rightarrow> (Some (net\<lparr>sn_default_transport := Some (su_transport p)\<rparr>),
          p\<lparr>su_data := (su_data p)\<lparr>px_private_network := True\<rparr>\<rparr>))"

text \<open>\<open>SetMITMCertConfig\<close>: the argument is a pointer, a number in the store of configurations, or nil.\<close>

definition set_mitm_cert_config :: "nat option \<Rightarrow> proxy_setup \<Rightarrow> proxy_setup" where
  "set_mitm_cert_config config p = p\<lparr>su_data := (su_data p)\<lparr>px_mitm_config := config\<rparr>\<rparr>"

text \<open>
  \<open>SetSignature\<close> and \<open>LastSignature\<close>: the signature is a variable of the package, which all proxies share;
  \<open>p\<close> is the receiver, which is not looked at.
\<close>

definition set_signature :: "proxy_setup \<Rightarrow> string \<Rightarrow> (string, unit) go" where
  [go_defs]: "set_signature p signature = modify (\<lambda>last. signature)"

definition last_signature :: "proxy_setup \<Rightarrow> (string, string) go" where
  [go_defs]: "last_signature p = gets id"

section \<open>The response writer of a TLS connection\<close>

text \<open>
  \<open>dumbResponseWriter\<close>: its \<open>Header\<close> and \<open>WriteHeader\<close> panic; \<open>Hijack\<close> hands out the writer itself.
  (\<open>Write\<close> is a case of \<open>conn_write\<close>.)
\<close>

definition dumb_header :: "('s, header) go" where
  [go_defs]: "dumb_header = gopanic ''Header() should not be called on this ResponseWriter''"

definition dumb_write_header :: "int \<Rightarrow> ('s, unit) go" where
  [go_defs]: "dumb_write_header code = gopanic ''WriteHeader() should not be called on this ResponseWriter''"

definition dumb_hijack :: "conn_ref \<Rightarrow> conn_ref" where
  "dumb_hijack r = DumbRef r"

section \<open>The configuration for an impersonated host\<close>

text \<open>
  \<open>tlsConfig\<close>: the configuration server of the context goes before that of the proxy. The servers are in
  a store; without either the call dereferences nil.
\<close>

definition mitm_server :: "ctx \<Rightarrow> proxy_data \<Rightarrow> nat option" where
  "mitm_server c px = (if cx_mitm_config c \<noteq> None then cx_mitm_config c else px_mitm_config px)"

definition ctx_tls_config :: "signer_env \<Rightarrow> gotime \<Rightarrow> ctx \<Rightarrow> proxy_data \<Rightarrow> string
    \<Rightarrow> (nat \<Rightarrow> config_server, goerr + tls_config option) go" where
  "ctx_tls_config env now c px host = (\<lambda>store.
     case mitm_server c px of
       None \<Rightarrow> gopanic nil_deref store
     | Some ca \<Rightarrow> (case cert_for env now host (store ca) of
         (r, sv) \<Rightarrow> (r, store(ca := sv))))"

definition ctx_host :: "(pst, string) go" where
  [go_defs]: "ctx_host = get_ctx cx_host"

section \<open>Spying on a connection\<close>

text \<open>
  \<open>SpyConnection\<close>: a connection together with what was written to standard error. A write goes to the
  connection first (\<open>io.MultiWriter\<close>), and to standard error only when all of it was taken; what is read
  is copied before the caller gets it (\<open>io.TeeReader\<close>).
\<close>

definition spy_write :: "tcp_conn \<times> string \<Rightarrow> string \<Rightarrow> write_res \<times> (tcp_conn \<times> string)" where
  "spy_write s data =
     (case tcp_write (fst s) data of
        ((n, Some e), c) \<Rightarrow> ((n, Some e), (c, snd s))
      | ((n, None), c) \<Rightarrow>
          if n \<noteq> length data then ((n, Some ErrShortWrite), (c, snd s))
          else ((length data, None), (c, snd s @ data)))"

definition spy_read :: "string \<times> goerr option \<Rightarrow> tcp_conn \<times> string \<Rightarrow> (string \<times> goerr option) \<times> (tcp_conn \<times> string)" where
  "spy_read incoming s = (incoming, (fst s, snd s @ fst incoming))"

text \<open>To the writers of the program a spied connection is a connection.\<close>

interpretation spy: byte_writer spy_write "\<lambda>s. tc_sent (fst s)"
  using tcp.sent_write tcp.write_count
  by unfold_locales (fastforce simp: spy_write_def split: prod.splits option.splits if_splits)+

interpretation spy: total_writer spy_write "\<lambda>s. tc_sent (fst s)" "\<lambda>s. conn_open (fst s)"
  by unfold_locales (simp add: spy_write_def)

text \<open>\<open>isEof\<close>, over what \<open>Peek(1)\<close> returns.\<close>

definition is_eof :: "string \<times> goerr option \<Rightarrow> bool" where
  "is_eof peeked \<longleftrightarrow> snd peeked = Some ErrEOF"

section \<open>The archive\<close>

definition append_page :: "har_page list \<Rightarrow> har_log \<Rightarrow> har_log" where
  "append_page pages h = h\<lparr>hl_pages := hl_pages h @ pages\<rparr>"

text \<open>
  \<open>FlushHARToDisk\<close>, of the proxy and of the context: the file name is put into a channel of ten places;
  \<open>None\<close> when the caller has to wait.
\<close>

definition flush_har_to_disk :: "string \<Rightarrow> string list \<Rightarrow> string list option" where
  "flush_har_to_disk filename waiting = (if length waiting < 10 then Some (waiting @ [filename]) else None)"

section \<open>Parts of the transport\<close>

definition proxy_url :: "url option \<Rightarrow> http_request \<Rightarrow> goerr + url option" where
  "proxy_url fixed rq = Inr fixed"

text \<open>\<open>extraHeaders\<close> makes the map when there is none.\<close>

definition tr_extra_headers :: "header option \<Rightarrow> header \<times> header option" where
  "tr_extra_headers extra = (let h = (case extra of None \<Rightarrow> [] | Some h \<Rightarrow> h) in (h, Some h))"

text \<open>
  \<open>dial\<close>: the address is resolved also when the transport has a dialer of its own. The result goes with
  the address as it was given and the resolved one.
\<close>

definition tr_dial ::
  "(string \<Rightarrow> goerr + 'a) \<Rightarrow> plain_dialer option \<Rightarrow> ('a \<Rightarrow> net \<Rightarrow> dial_res) \<Rightarrow> string \<Rightarrow> string \<Rightarrow> net
     \<Rightarrow> (goerr + conn_ref) \<times> (string \<times> 'a) option \<times> net" where
  "tr_dial resolve own dial_tcp network addr n =
     (case resolve addr of
        Inl e \<Rightarrow> (Inl e, None, n)
      | Inr ip \<Rightarrow>
          (case own of
             Some d \<Rightarrow> (case d network addr n of (c, n1) \<Rightarrow> (c, Some (addr, ip), n1))
           | None \<Rightarrow> (case dial_tcp ip n of
               (Inl e, n1) \<Rightarrow> (Inl e, None, n1)
             | (Inr c, n1) \<Rightarrow> (Inr c, Some (addr, ip), n1))))"

definition remote_side_closed :: "(goerr option \<Rightarrow> bool) option \<Rightarrow> goerr option \<Rightarrow> bool" where
  "remote_side_closed hook err =
     (if err = Some ErrEOF then True else case hook of None \<Rightarrow> False | Some f \<Rightarrow> f err)"

definition response_is_keep_alive :: "http_response \<Rightarrow> bool" where
  "response_is_keep_alive r = False"

text \<open>
  \<open>readFirstCloseBoth\<close> and \<open>discardOnCloseReadCloser\<close>, over the calls of what they wrap: a close of a
  decompressed body drains it, closes it, and closes the body of the connection whatever happened.
\<close>

definition close_both :: "('s \<Rightarrow> goerr option \<times> 's) \<Rightarrow> ('s \<Rightarrow> goerr option \<times> 's) \<Rightarrow> 's \<Rightarrow> goerr option \<times> 's" where
  "close_both reader closer s =
     (case reader s of
        (Some e, s1) \<Rightarrow> (Some e, snd (closer s1))
      | (None, s1) \<Rightarrow> (case closer s1 of (Some e, s2) \<Rightarrow> (Some e, s2) | (None, s2) \<Rightarrow> (None, s2)))"

definition discard_close :: "('s \<Rightarrow> 's) \<Rightarrow> ('s \<Rightarrow> goerr option \<times> 's) \<Rightarrow> 's \<Rightarrow> goerr option \<times> 's" where
  "discard_close drain close s = close (drain s)"

section \<open>Facts\<close>

lemma close_both_state: "snd (close_both f g s) = snd (g (snd (f s)))"
  by (auto simp: close_both_def split: prod.splits option.splits)

lemma close_both_error: "fst (close_both f g s) = (if fst (f s) \<noteq> None then fst (f s) else fst (g (snd (f s))))"
  by (auto simp: close_both_def split: prod.splits option.splits)

text \<open>A new proxy is made without a panic: no handlers, both schemes registered, no certificate authority.\<close>

lemma new_proxy_made:
  obtains p where "new_proxy_http_server parse_url getenv tr = Val p"
    and "ht_protocols (su_transport p) = [''nonhttp'', ''nonhttps'']"
    and "su_handlers p = empty_server" and "px_mitm_config (su_data p) = None"
    and "px_connect_dial (su_data p) = dialer_from_env parse_url getenv"
    and "\<not> px_private_network (su_data p)"
  by (simp add: new_proxy_http_server_def start_transport_def go_defs)

text \<open>
  Without a proxy in the environment, a new proxy dials destinations itself; the private network is used
  after \<open>SetShadowNetwork\<close> was given one.
\<close>

lemma new_proxy_dials_directly:
  assumes "new_proxy_http_server parse_url getenv tr = Val p"
    and "getenv ''HTTPS_PROXY'' = []" and "getenv ''https_proxy'' = []"
  shows "connect_dial_context env (su_data p) = dial_context env (su_data p)"
proof -
  have "px_connect_dial (su_data p) = dialer_from_env parse_url getenv"
    by (rule new_proxy_made [of parse_url getenv tr]) (use assms(1) in simp)
  then have "px_connect_dial (su_data p) = NoConnectDial"
    using assms(2,3) by (simp add: dialer_from_env_def)
  then show ?thesis by (intro ext) (simp add: connect_dial_context_def)
qed

lemma shadow_network_set:
  "px_private_network (su_data (snd (set_shadow_network sn p))) \<longleftrightarrow>
     sn \<noteq> None \<or> px_private_network (su_data p)"
  by (simp add: set_shadow_network_def split: option.split)

lemma signature_shared: "bnd (set_signature p s) (\<lambda>_. last_signature q) s0 = (Val s, s)"
  by (simp add: go_defs)

text \<open>
  The configuration a context is given comes from its own server where it has one; it serves the host, and
  the servers keep their invariant.
\<close>

lemma ctx_tls_config_serves:
  assumes "mitm_server c px = Some ca" and "signer_ok (store ca)"
  obtains res sv where "ctx_tls_config env now c px host store = (Val res, store(ca := sv))"
    and "signer_ok sv" and "serves (fst (split_hostname host)) res"
  using assms cert_ok [of "store ca" env now host "[]"]
  by (auto simp: ctx_tls_config_def cert_for_def)

end
