(* ===== verification/Pipeline.thy ===== *)
theory Pipeline
  imports Proxy_Server
begin

text \<open>
  A connection from the moment it is accepted to its end: the servers, the context, the handlers and the
  forwarding put together, for handlers that look at the request and let it pass.
\<close>

section \<open>Handlers whose answer is known\<close>

text \<open>
  A handler that always gives the same answer and keeps what is watched. The loops go on past those that
  answer NEXT, and act on the first other answer, in a state in which what is watched is as it was.
\<close>

definition says :: "next_action \<Rightarrow> (pst \<Rightarrow> pst \<Rightarrow> bool) \<Rightarrow> handler \<Rightarrow> bool" where
  "says n same h \<longleftrightarrow> (\<forall>s. \<exists>s'. h s = (Val n, s') \<and> same s s')"

text \<open>A connect handler after which the next one is asked: its answers, which may differ, all mean to go on.\<close>

definition goes_on :: "(pst \<Rightarrow> pst \<Rightarrow> bool) \<Rightarrow> handler \<Rightarrow> bool" where
  "goes_on same h \<longleftrightarrow> (\<forall>s. \<exists>a s'. h s = (Val a, s') \<and> a \<in> {NEXT, FORWARD, MITM} \<and> same s s')"

lemma says_goes_on: "says a same h \<Longrightarrow> a \<in> {NEXT, FORWARD, MITM} \<Longrightarrow> goes_on same h"
  unfolding says_def goes_on_def by blast

locale watched =
  fixes same :: "pst \<Rightarrow> pst \<Rightarrow> bool"
  assumes same_refl: "same s s" and same_trans: "same s t \<Longrightarrow> same t u \<Longrightarrow> same s u"
begin

lemma saysE:
  assumes "says n same h"
  obtains s' where "h s = (Val n, s')" "same s s'"
  using assms unfolding says_def by blast

lemma request_passes:
  "\<forall>h \<in> set hs. says NEXT same h \<Longrightarrow>
     \<exists>s'. request_loop env sv (hs @ rest) s = request_loop env sv rest s' \<and> same s s'"
proof (induction hs arbitrary: s)
  case (Cons h hs)
  obtain s1 where h: "h s = (Val NEXT, s1)" "same s s1" by (rule saysE [of NEXT h]) (use Cons.prems in auto)
  obtain s' where "request_loop env sv (hs @ rest) s1 = request_loop env sv rest s'" "same s1 s'"
    using Cons by auto
  then show ?case using same_trans [OF h(2)] by (auto simp: bnd_apply h(1))
qed (auto intro: same_refl)

lemma connect_goes_past:
  "\<forall>h \<in> set hs. goes_on same h \<Longrightarrow>
     \<exists>s'. connect_loop env (hs @ rest) s = connect_loop env rest s' \<and> same s s'"
proof (induction hs arbitrary: s)
  case (Cons h hs)
  obtain a s1 where h: "h s = (Val a, s1)" "a \<in> {NEXT, FORWARD, MITM}" "same s s1"
    using Cons.prems unfolding goes_on_def by (metis list.set_intros(1))
  obtain s' where "connect_loop env (hs @ rest) s1 = connect_loop env rest s'" "same s1 s'"
    using Cons by auto
  then show ?case using same_trans [OF h(3)] h(2) by (auto simp: bnd_apply h(1))
qed (auto intro: same_refl)

text \<open>The first handler that answers something else decides, whatever comes after it.\<close>

lemma request_decided:
  assumes "\<forall>h \<in> set hs. says NEXT same h" "says n same h"
  shows "\<exists>s'. request_loop env sv (hs @ h # rest) s = request_loop env sv (ret n # rest) s' \<and> same s s'"
proof -
  obtain s1 where s1: "request_loop env sv (hs @ h # rest) s = request_loop env sv (h # rest) s1" "same s s1"
    using request_passes [OF assms(1)] by blast
  obtain s2 where "h s1 = (Val n, s2)" "same s1 s2" by (rule saysE [OF assms(2)])
  then show ?thesis using s1 same_trans [OF s1(2)] by (auto simp: bnd_apply ret_def)
qed

lemma connect_decided:
  assumes "\<forall>h \<in> set hs. goes_on same h" "says n same h"
  shows "\<exists>s'. connect_loop env (hs @ h # rest) s = connect_loop env (ret n # rest) s' \<and> same s s'"
proof -
  obtain s1 where s1: "connect_loop env (hs @ h # rest) s = connect_loop env (h # rest) s1" "same s s1"
    using connect_goes_past [OF assms(1)] by blast
  obtain s2 where "h s1 = (Val n, s2)" "same s1 s2" by (rule saysE [OF assms(2)])
  then show ?thesis using s1 same_trans [OF s1(2)] by (auto simp: bnd_apply ret_def)
qed

lemma done_passes:
  "\<forall>h \<in> set hs. says NEXT same h \<Longrightarrow> \<exists>s'. done_loop hs s = (Val (), s') \<and> same s s'"
proof (induction hs arbitrary: s)
  case (Cons h hs)
  obtain s1 where h: "h s = (Val NEXT, s1)" "same s s1" by (rule saysE [of NEXT h]) (use Cons.prems in auto)
  obtain s' where "done_loop hs s1 = (Val (), s')" "same s1 s'" using Cons by auto
  then show ?case using same_trans [OF h(2)] by (auto simp: bnd_apply h(1))
qed (auto simp: ret_def intro: same_refl)

lemma response_passes:
  "\<forall>h \<in> set hs. says NEXT same h \<Longrightarrow>
     \<exists>s'. response_loop dones hs rejected s = (Val (Some rejected), s') \<and> same s s'"
proof (induction hs arbitrary: s)
  case (Cons h hs)
  obtain s1 where h: "h s = (Val NEXT, s1)" "same s s1" by (rule saysE [of NEXT h]) (use Cons.prems in auto)
  obtain s' where "response_loop dones hs rejected s1 = (Val (Some rejected), s')" "same s1 s'" using Cons by auto
  then show ?case using same_trans [OF h(2)] by (auto simp: bnd_apply h(1))
qed (auto simp: ret_def intro: same_refl)

end

section \<open>Handlers that let a request pass\<close>

text \<open>What decides where a connection is forwarded to and what is sent there, and whether it is traced.\<close>

definition route :: "ctx \<Rightarrow> conn_ref option \<times> bool \<times> string \<times> string \<times> bool \<times> string \<times> dial_ctx \<times> bool" where
  "route c = (cx_conn c, cx_is_secure c, cx_host c, cx_non_http_request c, cx_tunnel_request c, cx_method c,
     dns_bypass c, tr_modified (cx_trace c))"

text \<open>Two states that agree on it, with the same proxy and network.\<close>

definition same_route :: "pst \<Rightarrow> pst \<Rightarrow> bool" where
  "same_route s s' \<longleftrightarrow> route (ps_ctx s') = route (ps_ctx s) \<and> ps_proxy s' = ps_proxy s \<and> ps_net s' = ps_net s"

text \<open>
  A handler that answers NEXT and leaves the route alone. It may record a status, change headers, or set
  the parts of the context that only the answer over HTTP uses.
\<close>

definition lets_pass :: "handler \<Rightarrow> bool" where
  "lets_pass = says NEXT same_route"

lemma lets_pass_upd:
  "(\<And>c. route (f c) = route c) \<Longrightarrow> lets_pass (thn (upd_ctx f) (ret NEXT))"
  by (simp add: lets_pass_def says_def go_defs same_route_def)

interpretation routed: watched same_route
  by unfold_locales (simp_all add: same_route_def)

lemma request_loop_passes:
  "\<forall>h \<in> set hs. lets_pass h \<Longrightarrow> \<exists>s'. request_loop env sv hs s = send_request env sv s' \<and> same_route s s'"
  using routed.request_passes [of hs env sv "[]" s] by (simp add: lets_pass_def)

lemma connect_loop_passes:
  "\<forall>h \<in> set hs. goes_on same_route h \<Longrightarrow>
     \<exists>s'. connect_loop env hs s = thn (forward_connect env) (ret ()) s' \<and> same_route s s'"
  using routed.connect_goes_past [of hs env "[]" s] by simp

lemma lets_pass_goes_on: "lets_pass h \<Longrightarrow> goes_on same_route h"
  unfolding lets_pass_def by (erule says_goes_on) simp

section \<open>Connections that are forwarded\<close>

text \<open>The network after two connections were joined and closed.\<close>

definition joined :: "env \<Rightarrow> conn_ref \<Rightarrow> conn_ref \<Rightarrow> net \<Rightarrow> net" where
  "joined env r t n = snd (conn_close t (snd (conn_close r (ev_fit env r t (log_event (EvFit r t) n)))))"

lemma joined_closed:
  "tc_closed (nt_conns (joined env r t n) (conn_id r)) \<and> tc_closed (nt_conns (joined env r t n) (conn_id t))"
  by (simp add: joined_def conn_close_keeps del: conn_close.simps)

lemma joined_sent:
  "tc_sent (nt_conns (joined env r t n) i) = tc_sent (nt_conns (ev_fit env r t (log_event (EvFit r t) n)) i)"
  by (simp add: joined_def del: conn_close.simps)

lemma send_request_tunnelled:
  assumes "cx_tunnel_request (ps_ctx s)" and "cx_conn (ps_ctx s) = Some r" and "\<not> cx_is_secure (ps_ctx s)"
    and "connect_dial_context env (ps_proxy s) (dns_bypass (ps_ctx s)) ''tcp'' (cx_host (ps_ctx s)) (ps_net s) = (Inr t, n1)"
    and "plain_ref t" "conn_open (conn_of t n1)"
  shows "\<exists>n2. tc_sent (conn_of t n2) = tc_sent (conn_of t n1) @ sprintf0 (cx_non_http_request (ps_ctx s))
    \<and> send_request env sv s = (Val (), s\<lparr>ps_net := joined env r t n2\<rparr>)"
proof -
  obtain n2 where n2: "conn_write t (sprintf0 (cx_non_http_request (ps_ctx s))) n1 =
      ((length (sprintf0 (cx_non_http_request (ps_ctx s))), None), n2)"
    "tc_sent (conn_of t n2) = tc_sent (conn_of t n1) @ sprintf0 (cx_non_http_request (ps_ctx s))"
    using conn_write_open [OF assms(5,6)] by blast
  have "forward_request env (cx_host (ps_ctx s)) s = (Val None, s\<lparr>ps_net := joined env r t n2\<rparr>)"
    using forward_request_dialled [OF assms(2-4) n2(1)] by (simp add: joined_def)
  then show ?thesis using n2(2) assms(1)
    by (auto simp: send_request_def bnd_apply thn_def get_ctx_def gets_def ret_def)
qed

lemma plain_request_prepared:
  assumes "rq_method r \<noteq> ''CONNECT''" "rq_host r \<noteq> []" "ap_trace ap = None"
  shows "\<exists>cx s'. http_ctx ap px now c r (Some buf) = Val cx \<and> prepare_http ap (s\<lparr>ps_ctx := cx\<rparr>) = (Val (), s') \<and>
    ps_proxy s' = ps_proxy s \<and> ps_net s' = ps_net s \<and> rq_method (cx_req (ps_ctx s')) \<noteq> ''CONNECT'' \<and>
    rq_url (cx_req (ps_ctx s')) = rq_url (absolute_url (rq_host r) r) \<and>
    route (ps_ctx s') = (Some (TcpRef c), False, with_port (default_port r) (rq_host r), buf, True, rq_method r, background, False)"
proof -
  obtain cx where cx: "http_ctx ap px now c r (Some buf) = Val cx" using assms(2) by (simp add: http_ctx_def Let_def)
  then have "route cx = (Some (TcpRef c), False, rq_host r, buf, True, rq_method r, background, False)"
    using assms(2) by (auto simp: http_ctx_def new_ctx_def route_def dns_bypass_def no_trace_def Let_def)
  moreover have "named_host r = rq_host r" using assms(2) by (simp add: named_host_def)
  moreover have "rq_method (absolute_url (rq_host r) r) = rq_method r"
    by (auto simp: absolute_url_def split: option.splits)
  ultimately show ?thesis
    using cx http_prepared [OF cx assms(3), of s] http_ctx_parts [OF cx] assms(1)
    by (auto simp: route_def dns_bypass_def)
qed

text \<open>\<open>HandleHTTPConnection\<close> from the prepared context on.\<close>

lemma handle_http_sends:
  assumes "prepare_http ap s = (Val (), s1)" and "rq_method (cx_req (ps_ctx s1)) \<noteq> ''CONNECT''"
    and "route (ps_ctx s1) = (Some r, False, host, buf, True, m, dc, False)"
    and "ap_handle_http ap = None"
    and loop: "request_loop env sv (sv_request sv) s1 = send_request env sv s2" and same: "same_route s1 s2"
    and "connect_dial_context env (ps_proxy s1) dc ''tcp'' host (ps_net s1) = (Inr t, n1)"
    and "plain_ref t" "conn_open (conn_of t n1)"
  shows "\<exists>n2 s'. tc_sent (conn_of t n2) = tc_sent (conn_of t n1) @ sprintf0 buf \<and>
    handle_http_connection env ap sv s = (Val (), s') \<and> ps_proxy s' = ps_proxy s1 \<and> ps_net s' = joined env r t n2"
proof -
  have c: "cx_tunnel_request (ps_ctx s2)" "cx_conn (ps_ctx s2) = Some r" "\<not> cx_is_secure (ps_ctx s2)"
    "cx_host (ps_ctx s2) = host" "cx_non_http_request (ps_ctx s2) = buf" "dns_bypass (ps_ctx s2) = dc"
    "\<not> tr_modified (cx_trace (ps_ctx s2))" "ps_proxy s2 = ps_proxy s1" "ps_net s2 = ps_net s1"
    using same assms(3) by (simp_all add: same_route_def route_def)
  obtain n2 where n2: "tc_sent (conn_of t n2) = tc_sent (conn_of t n1) @ sprintf0 buf"
    "send_request env sv s2 = (Val (), s2\<lparr>ps_net := joined env r t n2\<rparr>)"
    using send_request_tunnelled [of s2 r env t n1 sv] c assms(7-9) by auto
  have "finish_trace (s2\<lparr>ps_net := joined env r t n2\<rparr>) = (Val (), s2\<lparr>ps_net := joined env r t n2\<rparr>)"
    using c(7) by (simp add: finish_trace_def bnd_apply get_ctx_def gets_def ret_def)
  then have "handle_http_connection env ap sv s = (Val (), s2\<lparr>ps_net := joined env r t n2\<rparr>)"
    using assms(1,2,4) loop n2(2)
    by (simp add: handle_http_connection_def dispatch_request_handlers_def bnd_apply thn_def get_ctx_def gets_def ret_def)
  then show ?thesis using n2(1) c(8) by auto
qed

section \<open>A plain connection whose request is sent on\<close>

text \<open>The proxy after one connection was served: a session more, and as many running handlers as before.\<close>

definition after_session :: "proxy_data \<Rightarrow> proxy_data" where
  "after_session px = px\<lparr>px_sess := px_sess px + 1\<rparr>"

text \<open>While the connection is served, it counts as a running handler.\<close>

definition during_session :: "proxy_data \<Rightarrow> proxy_data" where
  "during_session px = (add_open 1 px)\<lparr>px_sess := px_sess px + 1\<rparr>"

lemma session_begins: "(add_open 1 px)\<lparr>px_sess := px_sess (add_open 1 px) + 1\<rparr> = during_session px"
  by (simp add: during_session_def add_open_def)

lemma session_ends: "add_open (-1) (during_session px) = after_session px"
  by (simp add: add_open_def during_session_def after_session_def)

text \<open>\<open>passed\<close> is what the handlers do with the request the server hands them.\<close>

lemma plain_connection_sends:
  assumes r: "r = served_request ap c n parsed" and host: "check_domain (rq_host r)"
    and "rq_method r \<noteq> ''CONNECT''" "buf \<noteq> []" "ap_trace ap = None" "ap_handle_http ap = None"
    and passed: "\<And>s. rq_url (cx_req (ps_ctx s)) = rq_url (absolute_url (rq_host r) r) \<Longrightarrow>
      \<exists>s'. request_loop env sv (sv_request sv) s = send_request env sv s' \<and> same_route s s'"
    and dial: "connect_dial_context env (during_session px) background ''tcp'' (with_port (default_port r) (rq_host r)) n =
      (Inr t, n1)"
    and "plain_ref t" "conn_open (conn_of t n1)"
  shows "\<exists>n2. tc_sent (conn_of t n2) = tc_sent (conn_of t n1) @ sprintf0 buf \<and>
    serve_http env ap sv now c parsed buf px n = (Val (), after_session px, joined env (TcpRef c) t n2) \<and>
    tc_closed (nt_conns (joined env (TcpRef c) t n2) c) \<and> tc_closed (conn_of t (joined env (TcpRef c) t n2))"
proof -
  define s where "s cx = \<lparr>ps_ctx = cx, ps_proxy = during_session px, ps_net = n,
     ps_nsd = \<lparr>ns_conn = c, ns_wrote = False, ns_chunking = False, ns_hijacked = False\<rparr>,
     ps_now = now, ps_next_body = 1\<rparr>" for cx
  have nonempty: "rq_host r \<noteq> []" using host by (auto simp: check_domain_def)
  obtain cx s1 where cx: "http_ctx ap (add_open 1 px) now c r (Some buf) = Val cx"
    and prepared: "prepare_http ap (s cx) = (Val (), s1)" "ps_proxy s1 = during_session px" "ps_net s1 = n"
      "rq_method (cx_req (ps_ctx s1)) \<noteq> ''CONNECT''"
      "rq_url (cx_req (ps_ctx s1)) = rq_url (absolute_url (rq_host r) r)"
    and route: "route (ps_ctx s1) =
      (Some (TcpRef c), False, with_port (default_port r) (rq_host r), buf, True, rq_method r, background, False)"
    using plain_request_prepared [OF assms(3) nonempty assms(5), of "add_open 1 px" now c buf "s undefined"]
    by (auto simp: s_def)
  have dial1: "connect_dial_context env (ps_proxy s1) background ''tcp'' (with_port (default_port r) (rq_host r)) (ps_net s1) =
      (Inr t, n1)"
    using dial prepared(2,3) by simp
  obtain s2 where loop: "request_loop env sv (sv_request sv) s1 = send_request env sv s2" "same_route s1 s2"
    using passed [OF prepared(5)] by blast
  obtain n2 s' where n2: "tc_sent (conn_of t n2) = tc_sent (conn_of t n1) @ sprintf0 buf"
    and handled: "handle_http_connection env ap sv (s cx) = (Val (), s')" "ps_proxy s' = during_session px"
      "ps_net s' = joined env (TcpRef c) t n2"
    using handle_http_sends [OF prepared(1,4) route assms(6) loop dial1 assms(9,10)] prepared(2,3) by auto
  have "serve_http env ap sv now c parsed buf px n = (Val (), after_session px, joined env (TcpRef c) t n2)"
    using serve_http_runs [of ap c n parsed buf px now cx env sv "Val ()" s'] host assms(4) cx handled
      session_begins [of px] session_ends [of px] by (simp add: r s_def)
  then show ?thesis using n2 joined_closed [of env "TcpRef c" t n2] by (auto simp: conn_of_def)
qed

section \<open>Properties\<close>

text \<open>
  C1. A plain connection from accept to close, whatever was read from it, a request or not: when a usable host is
  known, from the request or from the connection table, the request is no CONNECT, and every request handler lets it
  pass, in whatever state it is called, the destination is dialled at the port the host names, or that of the URL's
  scheme. It is sent what \<open>fmt.Fprintf\<close> makes of all the bytes that were read when they are its format: the bytes
  themselves, in order and nothing else, when there is no percent sign among them (\<open>forward_request_corrupts\<close> shows
  an escape that does not arrive). Then the two connections are joined and both are closed, the handler no longer
  counts as running, and nothing but the session number of the proxy has changed. This is without a tracer and
  without \<open>HandleHTTP\<close>, and for a dial that succeeds and a destination that takes the bytes.
\<close>

theorem plain_connection_tunnelled:
  assumes "r = served_request ap c n parsed" "check_domain (rq_host r)"
    and "rq_method r \<noteq> ''CONNECT''" "buf \<noteq> []" "ap_trace ap = None" "ap_handle_http ap = None"
    and "\<forall>h \<in> set (sv_request sv). lets_pass h"
    and "connect_dial_context env (during_session px) background ''tcp'' (with_port (default_port r) (rq_host r)) n =
      (Inr t, n1)"
    and "plain_ref t" "conn_open (conn_of t n1)"
  shows "\<exists>n2. tc_sent (conn_of t n2) = tc_sent (conn_of t n1) @ sprintf0 buf \<and>
    (percent \<notin> set buf \<longrightarrow> sprintf0 buf = buf) \<and>
    serve_http env ap sv now c parsed buf px n = (Val (), after_session px, joined env (TcpRef c) t n2) \<and>
    tc_closed (nt_conns (joined env (TcpRef c) t n2) c) \<and> tc_closed (conn_of t (joined env (TcpRef c) t n2))"
proof -
  have passed: "\<exists>s'. request_loop env sv (sv_request sv) s = send_request env sv s' \<and> same_route s s'" for s
    by (rule request_loop_passes [OF assms(7)])
  show ?thesis using plain_connection_sends [OF assms(1-6) passed assms(8-10), where now = now] sprintf0_plain by blast
qed

text \<open>A handler that notes the kind of device and lets the request pass.\<close>

definition noting_handler :: handler where
  "noting_handler = thn (upd_ctx (\<lambda>c. c\<lparr>cx_device_type := 3\<rparr>)) (ret NEXT)"

lemma noting_passes: "lets_pass noting_handler"
  unfolding noting_handler_def by (rule lets_pass_upd) (simp add: route_def dns_bypass_def)

definition noting_server :: server where
  "noting_server = empty_server\<lparr>sv_connect := [noting_handler], sv_request := [noting_handler]\<rparr>"

definition quiet_net :: net where
  "quiet_net = \<lparr>nt_conns = \<lambda>i. fresh_conn, nt_events = []\<rparr>"

lemma example_session_dial:
  "connect_dial_context example_env (during_session example_proxy) background ''tcp'' addr quiet_net =
     (Inr (TcpRef 7), log_event (EvDial addr) quiet_net)"
  by (simp add: connect_dial_context_def dial_context_def Let_def during_session_def add_open_def
      example_proxy_def example_env_def background_def)

theorem plain_connection_tunnelled_witness:
  "case serve_http example_env example_app noting_server 0 0 (Inr (empty_request\<lparr>rq_method := ''GET'',
       rq_host := ''a.com'', rq_url := Some (empty_url\<lparr>u_path := ''/x''\<rparr>)\<rparr>)) ''GET /x'' example_proxy quiet_net of
     (res, px, n) \<Rightarrow> res = Val () \<and> px_sess px = 2 \<and> px_open_handlers px = 0 \<and>
       tc_sent (nt_conns n 7) = ''GET /x'' \<and> tc_closed (nt_conns n 7) \<and> tc_closed (nt_conns n 0)"
proof -
  let ?r = "empty_request\<lparr>rq_method := ''GET'', rq_host := ''a.com'', rq_url := Some (empty_url\<lparr>u_path := ''/x''\<rparr>)\<rparr>"
  have r: "?r = served_request example_app 0 quiet_net (Inr ?r)" "check_domain (rq_host ?r)"
    by (simp_all add: served_as_parsed check_domain_def is_lower_def)
  have c: "conn_of (TcpRef 7) (log_event (EvDial a) quiet_net) = fresh_conn" for a
    by (simp add: conn_of_def quiet_net_def)
  obtain n2 where sent: "tc_sent (conn_of (TcpRef 7) n2) = ''GET /x''"
    and served: "serve_http example_env example_app noting_server 0 0 (Inr ?r) ''GET /x'' example_proxy quiet_net =
      (Val (), after_session example_proxy, joined example_env (TcpRef 0) (TcpRef 7) n2)"
    using plain_connection_tunnelled [OF r _ _ _ _ _ example_session_dial, of "''GET /x''" noting_server 0]
    by (auto simp: c percent_def example_app_def noting_server_def noting_passes)
  show ?thesis
    unfolding served using sent
      joined_closed [of example_env "TcpRef 0" "TcpRef 7" n2]
    by (simp add: joined_sent after_session_def example_proxy_def conn_of_def)
qed

text \<open>
  C2. A TLS connection from accept to close: when the client named a usable host and every connect handler lets
  it pass, the destination is dialled at the port the name has, or 443; the client and the destination are joined
  without a byte from the proxy to either, and then both are closed.
\<close>

theorem tls_connection_tunnelled:
  assumes "check_domain host" "\<not> has_prefix host ''192.168.102.''"
    and "ap_trace ap = None" "\<forall>h \<in> set (sv_connect sv). lets_pass h"
    and "connect_dial_context env (during_session px) background ''tcp'' (with_port '':443'' host) n = (Inr t, n1)"
  shows "serve_tls env ap sv now c tls host bad hello px n = (Val (), after_session px, joined env (DumbRef tls) t n1)
    \<and> tc_closed (conn_of tls (joined env (DumbRef tls) t n1)) \<and> tc_closed (conn_of t (joined env (DumbRef tls) t n1))"
proof -
  define cx where "cx = (tls_ctx ap (add_open 1 px) now tls host bad hello)\<lparr>cx_conn := Some (DumbRef tls)\<rparr>"
  define s where "s = \<lparr>ps_ctx = cx, ps_proxy = during_session px, ps_net = n,
     ps_nsd = \<lparr>ns_conn = c, ns_wrote = False, ns_chunking = False, ns_hijacked = False\<rparr>,
     ps_now = now, ps_next_body = 1\<rparr>"
  have "route cx = (Some (DumbRef tls), True, with_port '':443'' host, [], bad, ''CONNECT'', background, False)"
    by (simp add: cx_def route_def tls_ctx_def new_ctx_def connect_req_def with_port_def dns_bypass_def no_trace_def Let_def)
  moreover obtain s1 where loop: "connect_loop env (sv_connect sv) s = thn (forward_connect env) (ret ()) s1"
    and same: "same_route s s1"
    using connect_loop_passes assms(4) lets_pass_goes_on by blast
  ultimately have c: "cx_conn (ps_ctx s1) = Some (DumbRef tls)" "cx_is_secure (ps_ctx s1)"
    "cx_host (ps_ctx s1) = with_port '':443'' host" "dns_bypass (ps_ctx s1) = background"
    "ps_proxy s1 = during_session px" "ps_net s1 = n"
    by (simp_all add: same_route_def route_def s_def)
  have "forward_connect env s1 = (Val None, s1\<lparr>ps_net := joined env (DumbRef tls) t n1\<rparr>)"
    using forward_connect_dialled [OF c(1), of env t n1] c assms(5) by (simp add: joined_def greeting_def)
  then have "connect_loop env (sv_connect sv) s = (Val (), s1\<lparr>ps_net := joined env (DumbRef tls) t n1\<rparr>)"
    by (simp add: loop bnd_apply thn_def ret_def)
  moreover note session_begins [of px]
  moreover have "cx_writer (tls_ctx ap (add_open 1 px) now tls host bad hello) = WDumb tls"
    by (simp add: tls_ctx_def new_ctx_def Let_def)
  ultimately have "serve_tls env ap sv now c tls host bad hello px n = (Val (), after_session px, joined env (DumbRef tls) t n1)"
    using assms(1-3) c(5) session_ends [of px]
    by (simp add: serve_tls_def run_connection_def start_trace_tls_def dispatch_connect_handlers_def hijack_def
        bnd_apply thn_def get_ctx_def gets_def upd_ctx_def modify_def ret_def s_def cx_def)
  then show ?thesis using joined_closed [of env "DumbRef tls" t n1] by (simp add: conn_of_def)
qed

theorem tls_connection_tunnelled_witness:
  "case serve_tls example_env example_app noting_server 0 0 (TcpRef 0) ''a.com'' False None example_proxy quiet_net of
     (res, px, n) \<Rightarrow> res = Val () \<and> px_open_handlers px = 0 \<and> tc_sent (nt_conns n 0) = [] \<and>
       tc_sent (nt_conns n 7) = [] \<and> tc_closed (nt_conns n 7) \<and> tc_closed (nt_conns n 0)"
proof -
  have served: "serve_tls example_env example_app noting_server 0 0 (TcpRef 0) ''a.com'' False None example_proxy quiet_net =
      (Val (), after_session example_proxy,
       joined example_env (DumbRef (TcpRef 0)) (TcpRef 7) (log_event (EvDial (with_port '':443'' ''a.com'')) quiet_net))"
    using tls_connection_tunnelled [OF _ _ _ _ example_session_dial, of "''a.com''" example_app noting_server 0 0
        "TcpRef 0" False None]
    by (simp add: check_domain_def is_lower_def has_prefix_def example_app_def noting_server_def noting_passes)
  show ?thesis
    unfolding served
    using joined_closed [of example_env "DumbRef (TcpRef 0)" "TcpRef 7"]
    by (simp add: joined_sent after_session_def example_proxy_def quiet_net_def)
qed

end
