(* ===== verification/Pipeline_Answers.thy ===== *)
theory Pipeline_Answers
  imports Pipeline Filters
begin

text \<open>
  Connections that the proxy answers itself: a handler rejects the request, plain or over TLS. Nothing is
  dialled then; the client of a plain request gets the page or the stand-in for a blocked host, that of a TLS
  connection is cut off. And the filters by host name, on the requests that the servers hand them.
\<close>

section \<open>What an answer depends on\<close>

definition exchange :: "ctx \<Rightarrow> http_request \<times> writer_ref \<times> bool \<times> bool \<times> nat option \<times> int \<times> string \<times> conn_ref option \<times> bool \<times> trace_request" where
  "exchange c = (cx_req c, cx_writer c, cx_through_mitm c, cx_is_secure c, cx_original_body c,
     cx_new_body_length c, cx_method c, cx_conn c, cx_sniffed_tls c, cx_trace c)"

definition same_exchange :: "pst \<Rightarrow> pst \<Rightarrow> bool" where
  "same_exchange s s' \<longleftrightarrow> exchange (ps_ctx s') = exchange (ps_ctx s) \<and> ps_nsd s' = ps_nsd s \<and>
     ps_proxy s' = ps_proxy s \<and> ps_net s' = ps_net s"

interpretation exchanged: watched same_exchange
  by unfold_locales (simp_all add: same_exchange_def)

text \<open>A handler that looks on, and one that rejects: neither sends anything.\<close>

definition looks_on :: "handler \<Rightarrow> bool" where
  "looks_on = says NEXT same_exchange"

definition turns_down :: "handler \<Rightarrow> bool" where
  "turns_down = says REJECT same_exchange"

lemma looks_on_upd: "(\<And>c. exchange (f c) = exchange c) \<Longrightarrow> looks_on (thn (upd_ctx f) (ret NEXT))"
  by (simp add: looks_on_def says_def go_defs same_exchange_def)

lemma always_reject_turns_down: "turns_down always_reject"
  by (simp add: turns_down_def says_def always_reject_def ret_def exchanged.same_refl)

text \<open>The status and the body of the answer to a blocked request, by the extension of its path.\<close>

definition refusal :: "string \<Rightarrow> int \<times> string" where
  "refusal path =
     (if path_ext path = ''.js'' then (502, ''/*Blocked by Winston*/'')
      else if path_ext path = ''.png'' \<or> path_ext path = ''.gif'' then (403, ''Blocked by Winston'')
      else (504, blocked_page ''504 Blocked by Winston'' ''Tracker Blocked'' tracker_text proceed_link))"

lemma blocked_answer_refuses:
  assumes "rq_url (cx_req (ps_ctx s)) = Some u"
  shows "\<exists>ct. blocked_answer 504 ''504 Blocked by Winston'' s = (Val (), s\<lparr>ps_ctx := (ps_ctx s)\<lparr>cx_resp :=
    Some (new_response (cx_req (ps_ctx s)) (fst (refusal (u_path u))) ct (snd (refusal (u_path u))))\<rparr>\<rparr>)"
proof -
  let ?ext = "path_ext (u_path u)"
  note unfolded = blocked_answer_def Let_def bnd_apply get_ctx_def gets_def upd_ctx_def modify_def
    new_empty_script_def new_empty_image_def new_empty_gif_def new_empty_png_def ctx_new_response_def
  consider "?ext = ''.js''" | "?ext = ''.png''" | "?ext = ''.gif''" | "?ext \<notin> {''.js'', ''.png'', ''.gif''}"
    by blast
  then show ?thesis
  proof cases
    case 1 then show ?thesis using assms
      by (intro exI [of _ "''application/javascript; charset=utf-8''"]) (simp add: unfolded refusal_def)
  next
    case 2 then show ?thesis using assms
      by (intro exI [of _ "''text/html''"]) (simp add: unfolded refusal_def)
  next
    case 3 then show ?thesis using assms
      by (intro exI [of _ "''text/html''"]) (simp add: unfolded refusal_def)
  next
    case 4 then show ?thesis using assms
      by (intro exI [of _ "''text/html; charset=utf-8''"]) (simp add: unfolded refusal_def)
  qed
qed

text \<open>The context of a plain request, when the handlers first see it.\<close>

lemma plain_exchange_prepared:
  assumes "rq_host r \<noteq> []" "ap_trace ap = None"
  shows "\<exists>cx s'. http_ctx ap px now c r (Some buf) = Val cx \<and> prepare_http ap (s\<lparr>ps_ctx := cx\<rparr>) = (Val (), s') \<and>
    ps_proxy s' = ps_proxy s \<and> ps_net s' = ps_net s \<and> ps_nsd s' = ps_nsd s \<and>
    exchange (ps_ctx s') = (absolute_url (rq_host r) r, WNsd, False, False, None, 0, rq_method r,
      Some (TcpRef c), False, no_trace)"
  using assms
  by (auto simp: http_ctx_def prepare_http_def start_trace_def absolute_url_def guess_port_def new_ctx_def
      exchange_def Let_def go_defs split: option.splits)

lemma absolute_url_fields [simp]:
  "rq_method (absolute_url h r) = rq_method r" "rq_header (absolute_url h r) = rq_header r"
  by (auto simp: absolute_url_def split: option.splits)

lemma absolute_url_path: "rq_url r = Some u \<Longrightarrow> \<exists>v. rq_url (absolute_url h r) = Some v \<and> u_path v = u_path u"
  by (simp add: absolute_url_def)

section \<open>From the rejection on\<close>

lemma rejection_answered:
  assumes "exchange (ps_ctx s) = (rq, WNsd, False, False, None, 0, m, cc, False, no_trace)"
    and "rq_url rq = Some u" "header_wf (rq_header rq)" "fresh_nsd (ps_nsd s)"
    and "conn_open (nt_conns (ps_net s) (ns_conn (ps_nsd s)))"
    and "\<forall>h \<in> set (sv_done sv). looks_on h"
  shows "\<exists>s' h w. request_loop env sv (ret REJECT # hs) s = (Val (), s') \<and> ps_proxy s' = ps_proxy s \<and>
    cx_trace (ps_ctx s') = no_trace \<and>
    tc_sent (nt_conns (ps_net s') (ns_conn (ps_nsd s))) = tc_sent (nt_conns (ps_net s) (ns_conn (ps_nsd s))) @
      response_head (fst (refusal (u_path u))) h @ w \<and>
    dechunk w = Some (snd (refusal (u_path u)), crlf) \<and> hvalues h ''Server'' = [''Winston''] \<and>
    nt_events (ps_net s') = nt_events (ps_net s) @ [EvDone] \<and>
    (\<forall>i. i \<noteq> ns_conn (ps_nsd s) \<longrightarrow> nt_conns (ps_net s') i = nt_conns (ps_net s) i) \<and>
    \<not> tc_closed (nt_conns (ps_net s') (ns_conn (ps_nsd s)))"
proof -
  let ?i = "ns_conn (ps_nsd s)"
  obtain ct where b: "blocked_answer 504 ''504 Blocked by Winston'' s = (Val (), s\<lparr>ps_ctx := (ps_ctx s)\<lparr>cx_resp :=
      Some (new_response rq (fst (refusal (u_path u))) ct (snd (refusal (u_path u))))\<rparr>\<rparr>)"
    using blocked_answer_refuses [of s u] assms(1,2) by (auto simp: exchange_def)
  let ?r = "new_response rq (fst (refusal (u_path u))) ct (snd (refusal (u_path u)))"
  let ?s = "s\<lparr>ps_ctx := (ps_ctx s)\<lparr>cx_resp := Some ?r\<rparr>\<rparr>"
  have ex: "\<not> (cx_through_mitm (ps_ctx ?s) \<and> cx_is_secure (ps_ctx ?s))" "cx_writer (ps_ctx ?s) = WNsd"
    "cx_resp (ps_ctx ?s) = Some ?r" "header_wf (rq_header (cx_req (ps_ctx ?s)))"
    "cx_original_body (ps_ctx ?s) \<noteq> Some (bd_id (rs_body ?r))" "cx_new_body_length (ps_ctx ?s) = 0"
    "cx_trace (ps_ctx s) = no_trace"
    using assms(1,3) by (simp_all add: exchange_def)
  obtain s1 h w where f: "forward_response (sv_done sv) ?s = thn (dispatch_done_handlers (sv_done sv)) (ret None) s1"
    and sent: "tc_sent (nt_conns (ps_net s1) ?i) = tc_sent (nt_conns (ps_net s) ?i) @
        response_head (fst (refusal (u_path u))) h @ w"
      "dechunk w = Some (snd (refusal (u_path u)), crlf)"
      "\<forall>k. hvalues h k = hvalues (response_header (ps_ctx ?s) ?r) k"
    and frame: "net_frame ?i (ps_net s) (?i, ps_net s1)" "ps_proxy s1 = ps_proxy s" "cx_trace (ps_ctx s1) = no_trace"
    using response_delivered [OF ex(1-3) _ _ _ ex(4-6), of "sv_done sv"] assms(4,5) ex(7)
    by (auto simp: nop_body_def)
  obtain s2 where d: "done_loop (sv_done sv) (s1\<lparr>ps_net := log_event EvDone (ps_net s1)\<rparr>) = (Val (), s2)"
    "same_exchange (s1\<lparr>ps_net := log_event EvDone (ps_net s1)\<rparr>) s2"
    using exchanged.done_passes assms(6) unfolding looks_on_def by blast
  have end_state: "ps_net s2 = log_event EvDone (ps_net s1)" "ps_proxy s2 = ps_proxy s" "cx_trace (ps_ctx s2) = no_trace"
    using d(2) frame(2,3) by (simp_all add: same_exchange_def exchange_def)
  have run: "request_loop env sv (ret REJECT # hs) s = (Val (), s2)"
    using b f d(1) by (simp add: bnd_apply thn_def ret_def dispatch_done_handlers_def modify_def)
  have "hvalues h ''Server'' = [''Winston'']"
    using sent(3) response_header_values(2) [of ?r "ps_ctx ?s"] by (simp add: header_wf_new_response)
  moreover have "\<not> tc_closed (nt_conns (ps_net s1) ?i)" "nt_events (ps_net s1) = nt_events (ps_net s)"
    "\<forall>i. i \<noteq> ?i \<longrightarrow> nt_conns (ps_net s1) i = nt_conns (ps_net s) i"
    using frame(1) assms(5) by (simp_all add: net_frame_def conn_open_def)
  ultimately have "request_loop env sv (ret REJECT # hs) s = (Val (), s2) \<and> ps_proxy s2 = ps_proxy s \<and>
    cx_trace (ps_ctx s2) = no_trace \<and>
    tc_sent (nt_conns (ps_net s2) ?i) = tc_sent (nt_conns (ps_net s) ?i) @
      response_head (fst (refusal (u_path u))) h @ w \<and>
    dechunk w = Some (snd (refusal (u_path u)), crlf) \<and> hvalues h ''Server'' = [''Winston''] \<and>
    nt_events (ps_net s2) = nt_events (ps_net s) @ [EvDone] \<and>
    (\<forall>i. i \<noteq> ?i \<longrightarrow> nt_conns (ps_net s2) i = nt_conns (ps_net s) i) \<and>
    \<not> tc_closed (nt_conns (ps_net s2) ?i)"
    using run end_state sent(1,2) by (simp del: request_loop.simps)
  then show ?thesis by blast
qed

section \<open>Filters by host name\<close>

lemma join_host_port_colon: "CHR '':'' \<in> set (join_host_port h p)"
  by (auto simp: join_host_port_def)

lemma bare_names_differ:
  assumes "\<forall>x \<in> set hosts. CHR '':'' \<notin> set x" "CHR '':'' \<in> set (u_host u)"
  shows "\<not> match_request_host_map hosts u"
  using assms by (auto simp: match_request_host_map_def)

lemma host_list_skipped:
  assumes "url_known (ps_ctx s)" "\<not> match_request_host_map hosts (url_of (ps_ctx s))"
  shows "request_loop env sv (map (request_host_is_in hosts) hs) s = send_request env sv s"
    and "connect_loop env (map (request_host_is_in hosts) hs) s = thn (forward_connect env) (ret ()) s"
proof -
  show "request_loop env sv (map (request_host_is_in hosts) hs) s = send_request env sv s"
    by (induction hs) (use host_in.request_skips [OF assms] in \<open>simp_all del: request_loop.simps(2)\<close>)
  show "connect_loop env (map (request_host_is_in hosts) hs) s = thn (forward_connect env) (ret ()) s"
    by (induction hs) (use host_in.connect_skips [OF assms] in \<open>simp_all del: connect_loop.simps(2)\<close>)
qed

text \<open>The same for the connect handlers of a TLS connection, whose URL has the port as well.\<close>

lemma tls_host_list_skipped:
  assumes "\<forall>x \<in> set hosts. CHR '':'' \<notin> set x"
    and "ps_ctx s = (tls_ctx ap px now tls host bad hello)\<lparr>cx_conn := c\<rparr>"
  shows "connect_loop env (map (request_host_is_in hosts) hs) s = thn (forward_connect env) (ret ()) s"
proof -
  have url: "rq_url (cx_req (ps_ctx s)) = Some (empty_url\<lparr>u_opaque := host, u_host := with_port '':443'' host\<rparr>)"
    by (simp add: assms(2) tls_ctx_def new_ctx_def connect_req_def with_port_def Let_def)
  have "CHR '':'' \<in> set (with_port '':443'' host)"
    by (auto simp: with_port_def)
  then show ?thesis
    by (intro host_list_skipped(2))
      (use url bare_names_differ [OF assms(1)] in \<open>simp_all add: url_known_def url_of_def\<close>)
qed

section \<open>Properties\<close>

text \<open>
  C3. A plain connection that is turned down, from accept to close: when a usable host is known, from the request or
  from the connection table, the request is no CONNECT and has a URL, and the first request handler that does not
  answer NEXT answers REJECT, nothing is dialled and no later handler runs. The documentation of \<open>REJECT\<close> promises
  the client a 502; what it gets depends on the extension of the path: 502 for a script only, 403 for a PNG or GIF
  image, 504 for everything else. It is one head with that status and a chunked body that decodes to the page for a
  blocked host or to what stands for a script or an image; the done handlers run once. No other connection is
  touched, and nothing but the session number of the proxy has changed. The connection of the client stays open. The
  other handlers look on in whatever state they are called, the client's connection takes every byte, and there is no
  tracer and no \<open>HandleHTTP\<close>. (A request
  without a URL is \<open>unparsed_request_stops_proxy\<close>.)
\<close>

theorem plain_connection_blocked:
  assumes "r = served_request ap c n parsed" "check_domain (rq_host r)" "rq_url r = Some u" "rq_method r \<noteq> ''CONNECT''"
    and "buf \<noteq> []" "header_wf (rq_header r)" "ap_trace ap = None" "ap_handle_http ap = None"
    and "sv_request sv = pre @ g # post" "\<forall>h \<in> set pre. looks_on h" "turns_down g"
    and "\<forall>h \<in> set (sv_done sv). looks_on h" "conn_open (nt_conns n c)"
  shows "\<exists>n' h w. serve_http env ap sv now c parsed buf px n = (Val (), after_session px, n') \<and>
    tc_sent (nt_conns n' c) = tc_sent (nt_conns n c) @ response_head (fst (refusal (u_path u))) h @ w \<and>
    dechunk w = Some (snd (refusal (u_path u)), crlf) \<and> hvalues h ''Server'' = [''Winston''] \<and>
    nt_events n' = nt_events n @ [EvDone] \<and> (\<forall>i. i \<noteq> c \<longrightarrow> nt_conns n' i = nt_conns n i) \<and>
    \<not> tc_closed (nt_conns n' c)"
proof -
  define s where "s cx = \<lparr>ps_ctx = cx, ps_proxy = during_session px, ps_net = n,
     ps_nsd = \<lparr>ns_conn = c, ns_wrote = False, ns_chunking = False, ns_hijacked = False\<rparr>,
     ps_now = now, ps_next_body = 1\<rparr>" for cx
  let ?rq = "absolute_url (rq_host r) r"
  have host: "rq_host r \<noteq> []" using assms(2) by (auto simp: check_domain_def)
  obtain v where v: "rq_url ?rq = Some v" "u_path v = u_path u" using absolute_url_path [OF assms(3)] by blast
  obtain cx s1 where cx: "http_ctx ap (add_open 1 px) now c r (Some buf) = Val cx"
    and s1: "prepare_http ap (s cx) = (Val (), s1)" "ps_proxy s1 = during_session px" "ps_net s1 = n"
      "ps_nsd s1 = \<lparr>ns_conn = c, ns_wrote = False, ns_chunking = False, ns_hijacked = False\<rparr>"
      "exchange (ps_ctx s1) = (?rq, WNsd, False, False, None, 0, rq_method r, Some (TcpRef c), False, no_trace)"
    using plain_exchange_prepared [OF host assms(7), of "add_open 1 px" now c buf "s undefined"]
    by (auto simp: s_def)
  obtain s2 where s2: "request_loop env sv (sv_request sv) s1 = request_loop env sv (ret REJECT # post) s2"
    "same_exchange s1 s2"
    unfolding assms(9) using exchanged.request_decided assms(10,11) unfolding looks_on_def turns_down_def by blast
  have ex: "exchange (ps_ctx s2) = (?rq, WNsd, False, False, None, 0, rq_method r, Some (TcpRef c), False, no_trace)"
    "ps_net s2 = n" "ps_proxy s2 = during_session px" "ns_conn (ps_nsd s2) = c" "fresh_nsd (ps_nsd s2)"
    using s2(2) s1 by (simp_all add: same_exchange_def fresh_nsd_def)
  obtain s3 h w where s3: "request_loop env sv (ret REJECT # post) s2 = (Val (), s3)" "ps_proxy s3 = during_session px"
      "cx_trace (ps_ctx s3) = no_trace"
    and sent: "tc_sent (nt_conns (ps_net s3) c) = tc_sent (nt_conns n c) @ response_head (fst (refusal (u_path u))) h @ w"
      "dechunk w = Some (snd (refusal (u_path u)), crlf)" "hvalues h ''Server'' = [''Winston'']"
    and net: "nt_events (ps_net s3) = nt_events n @ [EvDone]" "\<forall>i. i \<noteq> c \<longrightarrow> nt_conns (ps_net s3) i = nt_conns n i"
      "\<not> tc_closed (nt_conns (ps_net s3) c)"
    using rejection_answered [OF ex(1) v(1) _ ex(5), of sv env post] v(2)
      assms(6,12,13) ex(2-4) by auto
  have "handle_http_connection env ap sv (s cx) = (Val (), s3)"
    using s1(1,5) s2(1) s3(1,3) assms(4,8)
    by (simp add: handle_http_connection_def dispatch_request_handlers_def exchange_def finish_trace_def
        no_trace_def bnd_apply thn_def get_ctx_def gets_def ret_def)
  moreover note session_begins [of px]
  ultimately have "serve_http env ap sv now c parsed buf px n = (Val (), after_session px, ps_net s3)"
    using serve_http_runs [of ap c n parsed buf px now cx env sv "Val ()" s3] assms(2,5) cx s3(2) session_ends [of px]
    by (simp add: assms(1) s_def)
  then show ?thesis using sent net by blast
qed

text \<open>A server whose handlers note the device, reject every request, and would send it if they were asked again.\<close>

definition refusing_server :: server where
  "refusing_server = empty_server\<lparr>sv_connect := [noting_handler, always_reject, always_forward],
     sv_request := [noting_handler, always_reject, always_forward], sv_done := [noting_handler]\<rparr>"

lemma noting_looks_on: "looks_on noting_handler"
  unfolding noting_handler_def by (rule looks_on_upd) (simp add: exchange_def)

theorem plain_connection_blocked_witness:
  "\<exists>n' h w. serve_http example_env example_app refusing_server 0 0 (Inr (empty_request\<lparr>rq_method := ''GET'',
       rq_host := ''a.com'', rq_url := Some (empty_url\<lparr>u_path := ''/t.js''\<rparr>)\<rparr>)) ''GET /t.js'' example_proxy quiet_net =
       (Val (), after_session example_proxy, n') \<and>
     tc_sent (nt_conns n' 0) = response_head 502 h @ w \<and> dechunk w = Some (''/*Blocked by Winston*/'', crlf) \<and>
     nt_events n' = [EvDone] \<and> \<not> tc_closed (nt_conns n' 0)"
proof -
  let ?r = "empty_request\<lparr>rq_method := ''GET'', rq_host := ''a.com'', rq_url := Some (empty_url\<lparr>u_path := ''/t.js''\<rparr>)\<rparr>"
  have r: "?r = served_request example_app 0 quiet_net (Inr ?r)" "check_domain (rq_host ?r)"
    by (simp_all add: served_as_parsed check_domain_def is_lower_def)
  have ext: "path_ext ''/t.js'' = ''.js''" by code_simp
  have sv: "sv_request refusing_server = [noting_handler] @ always_reject # [always_forward]"
    by (simp add: refusing_server_def)
  obtain n' h w where "serve_http example_env example_app refusing_server 0 0 (Inr ?r) ''GET /t.js'' example_proxy quiet_net =
      (Val (), after_session example_proxy, n')"
    "tc_sent (nt_conns n' 0) = tc_sent (nt_conns quiet_net 0) @ response_head 502 h @ w"
    "dechunk w = Some (''/*Blocked by Winston*/'', crlf)" "nt_events n' = nt_events quiet_net @ [EvDone]"
    "\<not> tc_closed (nt_conns n' 0)"
    using plain_connection_blocked [OF r _ _ _ _ _ _ sv, of "empty_url\<lparr>u_path := ''/t.js''\<rparr>" "''GET /t.js''"
        example_env 0 example_proxy]
    by (auto simp: empty_url_def example_app_def quiet_net_def
        noting_looks_on always_reject_turns_down refusing_server_def empty_request_def refusal_def ext)
  then show ?thesis by (auto simp: quiet_net_def)
qed

text \<open>
  C5. A TLS connection that is turned down, from accept to close: when the first connect handler that does not
  answer NEXT answers REJECT, no byte is sent to anyone and nothing is dialled, the connection of the client is
  closed, no other is touched, and nothing but the session number of the proxy has changed.
\<close>

theorem tls_connection_rejected:
  assumes "check_domain host" "\<not> has_prefix host ''192.168.102.''" "ap_trace ap = None"
    and "sv_connect sv = pre @ g # post" "\<forall>h \<in> set pre. looks_on h" "turns_down g"
  shows "serve_tls env ap sv now c tls host bad hello px n = (Val (), after_session px, snd (conn_close tls n))
    \<and> tc_closed (conn_of tls (snd (conn_close tls n))) \<and> nt_events (snd (conn_close tls n)) = nt_events n
    \<and> (\<forall>i. tc_sent (nt_conns (snd (conn_close tls n)) i) = tc_sent (nt_conns n i))
    \<and> (\<forall>i. i \<noteq> conn_id tls \<longrightarrow> nt_conns (snd (conn_close tls n)) i = nt_conns n i)"
proof -
  define s where "s = \<lparr>ps_ctx = (tls_ctx ap (add_open 1 px) now tls host bad hello)\<lparr>cx_conn := Some (DumbRef tls)\<rparr>,
     ps_proxy = during_session px, ps_net = n,
     ps_nsd = \<lparr>ns_conn = c, ns_wrote = False, ns_chunking = False, ns_hijacked = False\<rparr>,
     ps_now = now, ps_next_body = 1\<rparr>"
  have tls: "cx_method (ps_ctx s) = ''CONNECT''" "cx_sniffed_tls (ps_ctx s)" "cx_conn (ps_ctx s) = Some (DumbRef tls)"
    by (simp_all add: s_def tls_ctx_def new_ctx_def connect_req_def Let_def)
  obtain s1 where s1: "connect_loop env (sv_connect sv) s = connect_loop env (ret REJECT # post) s1" "same_exchange s s1"
    unfolding assms(4) using exchanged.connect_decided [OF _ assms(6) [unfolded turns_down_def]] assms(5) says_goes_on
    unfolding looks_on_def by blast
  have "cx_method (ps_ctx s1) = ''CONNECT''" "cx_sniffed_tls (ps_ctx s1)" "cx_conn (ps_ctx s1) = Some (DumbRef tls)"
    "ps_proxy s1 = during_session px" "ps_net s1 = n"
    using s1(2) tls by (simp_all add: same_exchange_def exchange_def s_def)
  then have "connect_loop env (sv_connect sv) s = (Val (), s1\<lparr>ps_net := snd (conn_close tls n)\<rparr>)"
    "ps_proxy s1 = during_session px"
    by (simp_all add: s1(1) reject_connect_def bnd_apply thn_def ret_def get_ctx_def gets_def client_close_some)
  moreover note session_begins [of px]
  moreover have "cx_writer (tls_ctx ap (add_open 1 px) now tls host bad hello) = WDumb tls"
    by (simp add: tls_ctx_def new_ctx_def Let_def)
  ultimately have "serve_tls env ap sv now c tls host bad hello px n =
      (Val (), after_session px, snd (conn_close tls n))"
    using assms(1-3) session_ends [of px]
    by (simp add: serve_tls_def run_connection_def start_trace_tls_def dispatch_connect_handlers_def hijack_def
        bnd_apply thn_def get_ctx_def gets_def upd_ctx_def modify_def ret_def s_def)
  then show ?thesis by (simp add: conn_of_def conn_close_others)
qed

theorem tls_connection_rejected_witness:
  "case serve_tls example_env example_app refusing_server 0 0 (TcpRef 0) ''a.com'' False None example_proxy quiet_net of
     (res, px, n) \<Rightarrow> res = Val () \<and> px = after_session example_proxy \<and> tc_closed (nt_conns n 0) \<and>
       tc_sent (nt_conns n 0) = [] \<and> nt_events n = []"
proof -
  have sv: "sv_connect refusing_server = [noting_handler] @ always_reject # [always_forward]"
    by (simp add: refusing_server_def)
  have served: "serve_tls example_env example_app refusing_server 0 0 (TcpRef 0) ''a.com'' False None example_proxy quiet_net =
      (Val (), after_session example_proxy, snd (conn_close (TcpRef 0) quiet_net))"
    using tls_connection_rejected [OF _ _ _ sv, of "''a.com''" example_app example_env 0 0 "TcpRef 0" False None
        example_proxy quiet_net]
    by (simp add: check_domain_def is_lower_def has_prefix_def example_app_def noting_looks_on always_reject_turns_down)
  have "tc_sent (nt_conns quiet_net 0) = []" "nt_events quiet_net = []" by (simp_all add: quiet_net_def)
  then show ?thesis unfolding served using conn_close_closed [of "TcpRef 0" quiet_net]
    by (simp del: conn_close.simps)
qed

text \<open>
  A list of bare host names blocks nothing: \<open>RequestHostIsIn\<close> compares its names with the host of the URL, which
  the server has set to host and port by then. When no name on the list has a port, handlers behind such a filter,
  whatever they are, do not run, and the destination is dialled and sent the request as if there were none.
\<close>

theorem bare_host_list_blocks_nothing:
  assumes "check_domain (rq_host r)" "rq_url r = Some u" "\<not> url_is_abs u" "rq_method r \<noteq> ''CONNECT''"
    and "buf \<noteq> []" "percent \<notin> set buf"
    and "ap_trace ap = None" "ap_handle_http ap = None"
    and "sv_request sv = map (request_host_is_in hosts) hs" "\<forall>x \<in> set hosts. CHR '':'' \<notin> set x"
    and "connect_dial_context env (during_session px) background ''tcp'' (with_port '':80'' (rq_host r)) n = (Inr t, n1)"
    and "plain_ref t" "conn_open (conn_of t n1)"
  shows "\<exists>n2. tc_sent (conn_of t n2) = tc_sent (conn_of t n1) @ buf \<and>
    serve_http env ap sv now c (Inr r) buf px n = (Val (), after_session px, joined env (TcpRef c) t n2)"
proof -
  have passed: "\<exists>s'. request_loop env sv (sv_request sv) s = send_request env sv s' \<and> same_route s s'"
    if "rq_url (cx_req (ps_ctx s)) = rq_url (absolute_url (rq_host r) r)" for s
  proof -
    have "rq_url (cx_req (ps_ctx s)) = Some (u\<lparr>u_scheme := ''http'', u_host := join_host_port (rq_host r) ''80''\<rparr>)"
      using that assms(2-4) by (simp add: absolute_url_def)
    then have "url_known (ps_ctx s)" "\<not> match_request_host_map hosts (url_of (ps_ctx s))"
      using bare_names_differ [OF assms(10)] join_host_port_colon by (simp_all add: url_known_def url_of_def)
    then show ?thesis using host_list_skipped(1) assms(9) routed.same_refl by metis
  qed
  have r: "r = served_request ap c n (Inr r)" by (simp add: served_as_parsed assms(1))
  have p: "default_port r = '':80''" using assms(2-4) by (simp add: default_port_def url_is_abs_def)
  show ?thesis
    using plain_connection_sends [OF r assms(1,4,5,7,8) passed _ assms(12,13), where now = now] assms(11)
    by (auto simp: p sprintf0_plain [OF assms(6)])
qed

definition host_list_server :: server where
  "host_list_server = empty_server\<lparr>sv_request := [request_host_is_in [''a.com''] always_reject]\<rparr>"

theorem bare_host_list_blocks_nothing_witness:
  "case serve_http example_env example_app host_list_server 0 0 (Inr (empty_request\<lparr>rq_method := ''GET'',
       rq_host := ''a.com'', rq_url := Some (empty_url\<lparr>u_path := ''/x''\<rparr>)\<rparr>)) ''GET /x'' example_proxy quiet_net of
     (res, px, n) \<Rightarrow> res = Val () \<and> tc_sent (nt_conns n 7) = ''GET /x''"
proof -
  let ?r = "empty_request\<lparr>rq_method := ''GET'', rq_host := ''a.com'', rq_url := Some (empty_url\<lparr>u_path := ''/x''\<rparr>)\<rparr>"
  have c: "conn_of (TcpRef 7) (log_event (EvDial a) quiet_net) = fresh_conn" for a
    by (simp add: conn_of_def quiet_net_def)
  have sv: "sv_request host_list_server = map (request_host_is_in [''a.com'']) [always_reject]"
    by (simp add: host_list_server_def)
  obtain n2 where sent: "tc_sent (conn_of (TcpRef 7) n2) = ''GET /x''"
    and served: "serve_http example_env example_app host_list_server 0 0 (Inr ?r) ''GET /x'' example_proxy quiet_net =
      (Val (), after_session example_proxy, joined example_env (TcpRef 0) (TcpRef 7) n2)"
    using bare_host_list_blocks_nothing [OF _ _ _ _ _ _ _ _ sv _ example_session_dial, of ?r "empty_url\<lparr>u_path := ''/x''\<rparr>"
        "''GET /x''" example_app 0 0]
    by (auto simp: c check_domain_def is_lower_def empty_url_def url_is_abs_def percent_def example_app_def)
  show ?thesis unfolding served using sent by (simp add: joined_sent conn_of_def)
qed

end
