(* ===== verification/Pipeline_Fetch.thy ===== *)
theory Pipeline_Fetch
  imports Pipeline_Answers
begin

text \<open>
  Plain connections whose request the proxy sends itself: a handler has switched the tunnel off, the request goes
  out over the proxy's transport, the response handlers look at what comes back, and it is passed on to the client.
\<close>

section \<open>What a round trip depends on\<close>

definition trip_view :: "ctx \<Rightarrow> round_tripper option \<times> bool \<times> string \<times> bool \<times> bool \<times> bool" where
  "trip_view c = (cx_round_tripper c, cx_log_enabled c, cx_fake_dns c, cx_private c, cx_whitelisted c, cx_tunnel_request c)"

definition same_trip :: "pst \<Rightarrow> pst \<Rightarrow> bool" where
  "same_trip s s' \<longleftrightarrow> same_exchange s s' \<and> trip_view (ps_ctx s') = trip_view (ps_ctx s)"

interpretation tripped: watched same_trip
  by unfold_locales (auto simp: same_trip_def intro: exchanged.same_refl exchanged.same_trans)

text \<open>A handler that switches the tunnel off, and leaves the rest alone.\<close>

definition fetches :: "handler \<Rightarrow> bool" where
  "fetches h \<longleftrightarrow> (\<forall>s. \<exists>s'. h s = (Val NEXT, s') \<and>
     same_trip (s\<lparr>ps_ctx := (ps_ctx s)\<lparr>cx_tunnel_request := False\<rparr>\<rparr>) s')"

text \<open>What a response handler may not change, if the response is to be passed on as it came.\<close>

definition same_answer :: "pst \<Rightarrow> pst \<Rightarrow> bool" where
  "same_answer s s' \<longleftrightarrow> same_exchange s s' \<and> cx_resp (ps_ctx s') = cx_resp (ps_ctx s)"

interpretation answered: watched same_answer
  by unfold_locales (auto simp: same_answer_def intro: exchanged.same_refl exchanged.same_trans)

text \<open>The request as it is sent, and the context of the round trip.\<close>

definition fetched_request :: "http_request \<Rightarrow> http_request" where
  "fetched_request r = (let q = absolute_url (rq_host r) r in
     q\<lparr>rq_requri := [], rq_header := hdel (hdel (hdel (rq_header q) ''Accept-Encoding'') ''Proxy-Connection'') ''Connection''\<rparr>)"

definition fetch_context :: dial_ctx where
  "fetch_context = background\<lparr>dc_report_failure := True\<rparr>"

definition idle_flushed :: "proxy_data \<Rightarrow> proxy_data" where
  "idle_flushed px = (if px_flush_idle px
     then px\<lparr>px_idle_flushes := px_idle_flushes px + 1, px_flush_idle := False\<rparr> else px)"

lemma plain_trip_prepared:
  assumes "rq_host r \<noteq> []" "ap_trace ap = None"
  shows "\<exists>cx s'. http_ctx ap px now c r (Some buf) = Val cx \<and> prepare_http ap (s\<lparr>ps_ctx := cx\<rparr>) = (Val (), s') \<and>
    ps_proxy s' = ps_proxy s \<and> ps_net s' = ps_net s \<and> ps_nsd s' = ps_nsd s \<and>
    exchange (ps_ctx s') = (absolute_url (rq_host r) r, WNsd, False, False, None, 0, rq_method r,
      Some (TcpRef c), False, no_trace) \<and>
    trip_view (ps_ctx s') = (None, False, [], False, False, True)"
  using assms
  by (auto simp: http_ctx_def prepare_http_def start_trace_def absolute_url_def guess_port_def new_ctx_def
      exchange_def trip_view_def Let_def go_defs split: option.splits)

text \<open>The round trip of a request that is neither logged nor private.\<close>

lemma fetch_runs:
  assumes "exchange (ps_ctx s) = (absolute_url (rq_host rq) rq, WNsd, False, False, None, 0, m, cc, False, no_trace)"
    and "trip_view (ps_ctx s) = (None, False, [], False, False, False)"
    and "ev_transport env ProxyTransport fetch_context (fetched_request rq) (ps_net s) = ((Some r, None, failed), n1)"
  shows "\<exists>s1. forward_http_request env h s = (Val None, s1) \<and> ps_net s1 = n1 \<and> ps_nsd s1 = ps_nsd s \<and>
    ps_proxy s1 = idle_flushed (ps_proxy s) \<and> cx_resp (ps_ctx s1) = Some r \<and>
    exchange (ps_ctx s1) = (fetched_request rq, WNsd, False, False, Some (bd_id (rs_body r)), 0, m, cc, False, no_trace)"
proof -
  have c: "cx_req (ps_ctx s) = absolute_url (rq_host rq) rq" "cx_round_tripper (ps_ctx s) = None"
    "\<not> cx_log_enabled (ps_ctx s)" "cx_fake_dns (ps_ctx s) = []" "\<not> cx_private (ps_ctx s)" "\<not> cx_whitelisted (ps_ctx s)"
    "cx_trace (ps_ctx s) = no_trace"
    using assms(1,2) by (simp_all add: exchange_def trip_view_def)
  have req: "cx_req (remove_proxy_headers (ps_ctx s)) = fetched_request rq"
    by (simp add: remove_proxy_headers_def fetched_request_def c Let_def)
  have same: "exchange (remove_proxy_headers c) = (fetched_request rq, snd (exchange c))"
    if "cx_req c = absolute_url (rq_host rq) rq" for c
    by (simp add: remove_proxy_headers_def fetched_request_def exchange_def that Let_def)
  have bypass: "http_bypass (ps_ctx s) = fetch_context" by (simp add: http_bypass_def fetch_context_def c)
  show ?thesis
    using assms c req same [of "ps_ctx s"]
    by (simp add: forward_http_request_def bypass round_trip_def choose_transport_def flush_idle_def idle_flushed_def
        round_trip_with_log_def run_tripper_def wrapped_trip_def tracing_def no_trace_def exchange_def
        remove_proxy_headers_def Let_def bnd_apply thn_def get_ctx_def gets_def upd_ctx_def modify_def on_net_def ret_def)
qed

section \<open>Passing the response on\<close>

lemma passed_header:
  assumes "header_wf (rs_header r)" "cx_original_body c = Some (bd_id (rs_body r))"
    and "\<not> same_key ''Server'' k" "\<not> same_key ''Winston-Status'' k"
  shows "hvalues (response_header c r) k = hvalues (rs_header r) k"
  using assms
  by (simp add: response_header_def Let_def hvalues_add_status header_wf_hset hvalues_ops)

text \<open>
  What the client is sent for a response \<open>r\<close>: in chunks unless the response names its length. Then its bytes are
  sent as they are, and a line break after them.
\<close>

definition passed_on :: "http_response \<Rightarrow> string \<Rightarrow> bool" where
  "passed_on r sent \<longleftrightarrow> (\<exists>h w. sent = response_head (rs_code r) h @ w \<and>
     (if hget (rs_header r) ''content-length'' = [] then dechunk w = Some (bd_data (rs_body r), crlf)
      else w = bd_data (rs_body r) @ crlf) \<and>
     hvalues h ''Server'' = [''Winston''] \<and>
     (\<forall>k. same_key ''Server'' k \<or> same_key ''Winston-Status'' k \<or> hvalues h k = hvalues (rs_header r) k))"

lemma answer_passed_on:
  assumes "exchange (ps_ctx s) = (rq, WNsd, False, False, Some (bd_id (rs_body r)), 0, m, cc, False, no_trace)"
    and "cx_resp (ps_ctx s) = Some r" "header_wf (rs_header r)" "header_wf (rq_header rq)" "\<not> bd_closed (rs_body r)"
    and "fresh_nsd (ps_nsd s)" "ns_conn (ps_nsd s) = c" "conn_open (nt_conns (ps_net s) c)"
    and "\<forall>h \<in> set (sv_response sv). says NEXT same_answer h" "\<forall>h \<in> set (sv_done sv). looks_on h"
  shows "\<exists>s' d. dispatch_response_handlers sv s = (Val None, s') \<and> ps_proxy s' = ps_proxy s \<and>
    cx_trace (ps_ctx s') = no_trace \<and>
    tc_sent (nt_conns (ps_net s') c) = tc_sent (nt_conns (ps_net s) c) @ d \<and> passed_on r d \<and>
    nt_events (ps_net s') = nt_events (ps_net s) @ [EvDone] \<and>
    (\<forall>i. i \<noteq> c \<longrightarrow> nt_conns (ps_net s') i = nt_conns (ps_net s) i) \<and> \<not> tc_closed (nt_conns (ps_net s') c)"
proof -
  obtain s0 where loop: "response_loop (sv_done sv) (sv_response sv) False s = (Val (Some False), s0)" "same_answer s s0"
    using answered.response_passes [OF assms(9)] by blast
  have ex: "\<not> (cx_through_mitm (ps_ctx s0) \<and> cx_is_secure (ps_ctx s0))" "cx_writer (ps_ctx s0) = WNsd"
    "cx_resp (ps_ctx s0) = Some r" "fresh_nsd (ps_nsd s0)" "conn_open (nt_conns (ps_net s0) (ns_conn (ps_nsd s0)))"
    "ns_conn (ps_nsd s0) = c" "ps_net s0 = ps_net s" "ps_proxy s0 = ps_proxy s" "cx_trace (ps_ctx s0) = no_trace"
    "cx_req (ps_ctx s0) = rq" "cx_original_body (ps_ctx s0) = Some (bd_id (rs_body r))"
    using loop(2) assms by (simp_all add: same_answer_def same_exchange_def exchange_def)
  let ?h = "copy_headers (rq_header rq) (response_header (ps_ctx s0) r)"
  let ?w = "if hget ?h ''content-length'' = [] then concat (map nsd_chunk (pieces (bd_data (rs_body r)))) @ last_chunk @ crlf
    else bd_data (rs_body r) @ crlf"
  have v: "hvalues ?h k = hvalues (response_header (ps_ctx s0) r) k" for k
    by (rule copy_headers_values) (use assms(3,4) header_wf_response_header in auto)
  obtain s1 where f: "forward_response (sv_done sv) s0 = thn (dispatch_done_handlers (sv_done sv)) (ret None) s1"
    and sent: "tc_sent (nt_conns (ps_net s1) c) = tc_sent (nt_conns (ps_net s) c) @ response_head (rs_code r) ?h @ ?w"
    and frame: "net_frame c (ps_net s) (c, ps_net s1)" "ps_proxy s1 = ps_proxy s" "cx_trace (ps_ctx s1) = no_trace"
    using forward_response_sends [OF ex(1-5) refl refl, of "sv_done sv"] ex(6-10) assms(5) by (auto simp: read_all_open)
  obtain s2 where d: "done_loop (sv_done sv) (s1\<lparr>ps_net := log_event EvDone (ps_net s1)\<rparr>) = (Val (), s2)"
    "same_exchange (s1\<lparr>ps_net := log_event EvDone (ps_net s1)\<rparr>) s2"
    using exchanged.done_passes assms(10) unfolding looks_on_def by blast
  have "hget ?h ''content-length'' = hget (rs_header r) ''content-length''"
    using v passed_header [OF assms(3) ex(11) content_length_keys(3,2)] by (simp add: hget_def)
  moreover have "hvalues ?h k = hvalues (rs_header r) k" if "\<not> same_key ''Server'' k" "\<not> same_key ''Winston-Status'' k" for k
    using v passed_header [OF assms(3) ex(11) that] by simp
  ultimately have passed: "passed_on r (response_head (rs_code r) ?h @ ?w)"
    unfolding passed_on_def using v response_header_values(2) [OF assms(3)] dechunk_pieces
    by (intro exI [of _ ?h] exI [of _ ?w]) auto
  have end_state: "ps_net s2 = log_event EvDone (ps_net s1)" "ps_proxy s2 = ps_proxy s" "cx_trace (ps_ctx s2) = no_trace"
    using d(2) frame(2,3) by (simp_all add: same_exchange_def exchange_def)
  have run: "dispatch_response_handlers sv s = (Val None, s2)"
    using loop(1) f d(1) ex(3,9)
    by (simp add: dispatch_response_handlers_def bnd_apply thn_def get_ctx_def gets_def ret_def tracing_def no_trace_def
        dispatch_done_handlers_def modify_def)
  have "\<not> tc_closed (nt_conns (ps_net s1) c)" "nt_events (ps_net s1) = nt_events (ps_net s)"
    "\<forall>i. i \<noteq> c \<longrightarrow> nt_conns (ps_net s1) i = nt_conns (ps_net s) i"
    using frame(1) assms(8) by (simp_all add: net_frame_def conn_open_def)
  with run end_state sent passed show ?thesis
    by (intro exI [of _ s2] exI [of _ "response_head (rs_code r) ?h @ ?w"]) simp
qed

section \<open>Properties\<close>

text \<open>
  C4. A plain connection whose request the proxy sends itself, from accept to close: when a usable host is known, from
  the request or from the connection table, the request is no CONNECT, one request handler switches the tunnel off
  and all other handlers (for requests, responses and the end) look on in whatever state they are called, and the
  transport answers, then the request was sent once over the proxy's transport, with an absolute URL and without the
  headers for proxies. The client is sent one response with the status that came back, every header value but those of
  Server, which is the proxy's name, and of Winston-Status, and the body: what could be read of it, in chunks, or, when
  the response has a Content-Length, as it is with a line break after it that belongs to no message. A body that breaks
  off is ended for the client as if it were complete. The done handlers run once, no other connection is touched, and
  nothing but the session number and the flush of idle connections has changed in the proxy. The client's
  connection takes every byte, the body is still open, and there is no tracer and no \<open>HandleHTTP\<close>.
\<close>

theorem plain_connection_fetched:
  assumes "r = served_request ap c n parsed" "check_domain (rq_host r)" "rq_method r \<noteq> ''CONNECT''" "buf \<noteq> []"
    and "header_wf (rq_header r)" "ap_trace ap = None" "ap_handle_http ap = None"
    and "sv_request sv = pre @ off # post" "\<forall>h \<in> set pre \<union> set post. says NEXT same_trip h" "fetches off"
    and "ev_transport env ProxyTransport fetch_context (fetched_request r) n = ((Some a, None, failed), n1)"
    and "header_wf (rs_header a)" "\<not> bd_closed (rs_body a)" "conn_open (nt_conns n1 c)"
    and "\<forall>h \<in> set (sv_response sv). says NEXT same_answer h" "\<forall>h \<in> set (sv_done sv). looks_on h"
  shows "\<exists>n' d. serve_http env ap sv now c parsed buf px n = (Val (), after_session (idle_flushed px), n') \<and>
    tc_sent (nt_conns n' c) = tc_sent (nt_conns n1 c) @ d \<and> passed_on a d \<and>
    nt_events n' = nt_events n1 @ [EvDone] \<and> (\<forall>i. i \<noteq> c \<longrightarrow> nt_conns n' i = nt_conns n1 i) \<and>
    \<not> tc_closed (nt_conns n' c)"
proof -
  define s where "s cx = \<lparr>ps_ctx = cx, ps_proxy = during_session px, ps_net = n,
     ps_nsd = \<lparr>ns_conn = c, ns_wrote = False, ns_chunking = False, ns_hijacked = False\<rparr>,
     ps_now = now, ps_next_body = 1\<rparr>" for cx
  let ?ex = "(absolute_url (rq_host r) r, WNsd, False, False, None, 0, rq_method r, Some (TcpRef c), False, no_trace)"
  have host: "rq_host r \<noteq> []" using assms(2) by (auto simp: check_domain_def)
  obtain cx s1 where cx: "http_ctx ap (add_open 1 px) now c r (Some buf) = Val cx"
    and s1: "prepare_http ap (s cx) = (Val (), s1)" "ps_proxy s1 = during_session px" "ps_net s1 = n"
      "ps_nsd s1 = \<lparr>ns_conn = c, ns_wrote = False, ns_chunking = False, ns_hijacked = False\<rparr>"
      "exchange (ps_ctx s1) = ?ex" "trip_view (ps_ctx s1) = (None, False, [], False, False, True)"
    using plain_trip_prepared [OF host assms(6), of "add_open 1 px" now c buf "s undefined"] by (auto simp: s_def)
  obtain s2 where s2: "request_loop env sv (pre @ off # post) s1 = request_loop env sv (off # post) s2" "same_trip s1 s2"
    using tripped.request_passes assms(9) by blast
  obtain s3 where s3: "off s2 = (Val NEXT, s3)"
    "same_trip (s2\<lparr>ps_ctx := (ps_ctx s2)\<lparr>cx_tunnel_request := False\<rparr>\<rparr>) s3"
    using assms(10) unfolding fetches_def by blast
  obtain s4 where s4: "request_loop env sv (post @ []) s3 = request_loop env sv [] s4" "same_trip s3 s4"
    using tripped.request_passes assms(9) by blast
  have loop: "request_loop env sv (sv_request sv) s1 = send_request env sv s4"
    using s2(1) s3(1) s4(1) by (simp add: assms(8) bnd_apply)
  have view: "exchange (ps_ctx s4) = ?ex" "trip_view (ps_ctx s4) = (None, False, [], False, False, False)"
    "ps_net s4 = n" "ps_proxy s4 = during_session px" "fresh_nsd (ps_nsd s4)" "ns_conn (ps_nsd s4) = c"
    using s2(2) s3(2) s4(2) s1
    by (simp_all add: same_trip_def same_exchange_def exchange_def trip_view_def fresh_nsd_def)
  obtain s5 where s5: "forward_http_request env (cx_host (ps_ctx s4)) s4 = (Val None, s5)" "ps_net s5 = n1"
    "ps_nsd s5 = ps_nsd s4" "ps_proxy s5 = idle_flushed (during_session px)" "cx_resp (ps_ctx s5) = Some a"
    "exchange (ps_ctx s5) = (fetched_request r, WNsd, False, False, Some (bd_id (rs_body a)), 0, rq_method r,
       Some (TcpRef c), False, no_trace)"
    using fetch_runs [OF view(1,2), of env a failed n1] assms(11) view(3,4) by auto
  have "header_wf (rq_header (fetched_request r))"
    using assms(5) by (simp add: fetched_request_def Let_def header_wf_hdel)
  then obtain s6 d where s6: "dispatch_response_handlers sv s5 = (Val None, s6)"
      "ps_proxy s6 = idle_flushed (during_session px)" "cx_trace (ps_ctx s6) = no_trace"
    and sent: "tc_sent (nt_conns (ps_net s6) c) = tc_sent (nt_conns n1 c) @ d" "passed_on a d"
      "nt_events (ps_net s6) = nt_events n1 @ [EvDone]" "\<forall>i. i \<noteq> c \<longrightarrow> nt_conns (ps_net s6) i = nt_conns n1 i"
      "\<not> tc_closed (nt_conns (ps_net s6) c)"
    using answer_passed_on [OF s5(6,5) assms(12) _ assms(13), of c sv] assms(14-16) view(5,6) s5(2-4) by auto
  have "handle_http_connection env ap sv (s cx) = (Val (), s6)"
    using s1(1,5) loop view(1,2) s5(1) s6(1,3) assms(3,7)
    by (simp add: handle_http_connection_def dispatch_request_handlers_def send_request_def copy_original_headers_def
        exchange_def trip_view_def finish_trace_def tracing_def no_trace_def bnd_apply thn_def get_ctx_def gets_def ret_def)
  moreover note session_begins [of px]
  moreover have "add_open (-1) (idle_flushed (during_session px)) = after_session (idle_flushed px)"
    by (simp add: idle_flushed_def during_session_def after_session_def add_open_def)
  ultimately have "serve_http env ap sv now c parsed buf px n = (Val (), after_session (idle_flushed px), ps_net s6)"
    using serve_http_runs [of ap c n parsed buf px now cx env sv "Val ()" s6] assms(2,4) cx s6(2) by (simp add: assms(1) s_def)
  then show ?thesis using sent by blast
qed

definition fetching_handler :: handler where
  "fetching_handler = thn (upd_ctx (\<lambda>c. c\<lparr>cx_tunnel_request := False\<rparr>)) (ret NEXT)"

definition fetching_server :: server where
  "fetching_server = empty_server\<lparr>sv_request := [noting_handler, fetching_handler], sv_response := [noting_handler],
     sv_done := [noting_handler]\<rparr>"

text \<open>A transport that answers with a body that breaks off.\<close>

definition broken_answer :: http_response where
  "broken_answer = (new_response empty_request 200 ''text/plain'' ''abc'')\<lparr>rs_body :=
     (nop_body ''abc'')\<lparr>bd_err := Some (ErrText ''unexpected EOF'')\<rparr>\<rparr>"

definition answering_env :: env where
  "answering_env = example_env\<lparr>ev_transport := \<lambda>tr dc rq n. ((Some broken_answer, None, False), n)\<rparr>"

lemma noting_trips: "says NEXT same_trip noting_handler" "says NEXT same_answer noting_handler"
  by (simp_all add: noting_handler_def says_def go_defs same_trip_def same_answer_def same_exchange_def
      exchange_def trip_view_def)

theorem plain_connection_fetched_witness:
  "\<exists>n' d. serve_http answering_env example_app fetching_server 0 0 (Inr (empty_request\<lparr>rq_method := ''GET'',
       rq_host := ''a.com'', rq_url := Some (empty_url\<lparr>u_path := ''/x''\<rparr>)\<rparr>)) ''GET /x'' example_proxy quiet_net =
       (Val (), after_session example_proxy, n') \<and>
     tc_sent (nt_conns n' 0) = d \<and> passed_on broken_answer d \<and> nt_events n' = [EvDone]"
proof -
  let ?r = "empty_request\<lparr>rq_method := ''GET'', rq_host := ''a.com'', rq_url := Some (empty_url\<lparr>u_path := ''/x''\<rparr>)\<rparr>"
  have sv: "sv_request fetching_server = [noting_handler] @ fetching_handler # []"
    by (simp add: fetching_server_def)
  have r: "?r = served_request example_app 0 quiet_net (Inr ?r)" "check_domain (rq_host ?r)"
    by (simp_all add: served_as_parsed check_domain_def is_lower_def)
  have off: "fetches fetching_handler"
    by (simp add: fetches_def fetching_handler_def go_defs tripped.same_refl)
  have answers: "ev_transport answering_env ProxyTransport fetch_context (fetched_request ?r) quiet_net =
      ((Some broken_answer, None, False), quiet_net)"
    by (simp add: answering_env_def)
  have wf: "header_wf (rs_header broken_answer)" "\<not> bd_closed (rs_body broken_answer)"
    by (simp_all add: broken_answer_def header_wf_new_response nop_body_def)
  have px: "idle_flushed example_proxy = example_proxy" by (simp add: idle_flushed_def example_proxy_def)
  obtain n' d where "serve_http answering_env example_app fetching_server 0 0 (Inr ?r) ''GET /x'' example_proxy quiet_net =
      (Val (), after_session example_proxy, n')"
    "tc_sent (nt_conns n' 0) = tc_sent (nt_conns quiet_net 0) @ d" "passed_on broken_answer d"
    "nt_events n' = nt_events quiet_net @ [EvDone]"
    using plain_connection_fetched [OF r _ _ _ _ _ sv _ off answers wf, of "''GET /x''" 0 example_proxy]
      noting_trips noting_looks_on
    by (auto simp: px example_app_def quiet_net_def fetching_server_def empty_server_def
        empty_request_def hget_def hvalues_def)
  then show ?thesis by (auto simp: quiet_net_def)
qed

end
