(* ===== verification/Pipeline_Connect.thy ===== *)
theory Pipeline_Connect
  imports Pipeline_Answers
begin

text \<open>
  CONNECT requests that reach the HTTP server, from accept to close: the connection of the client is taken over from
  the response writer, the connect handlers are asked, and the client is either joined with its destination or
  turned down.
\<close>

section \<open>Up to the connect handlers\<close>

text \<open>The state in which the connect handlers of a CONNECT request are asked.\<close>

lemma connect_request_prepared:
  assumes "rq_method r = ''CONNECT''" "rq_host r \<noteq> []" "ap_trace ap = None"
  shows "\<exists>cx s'. http_ctx ap px now c r (Some buf) = Val cx \<and>
    handle_http_connection env ap sv (s\<lparr>ps_ctx := cx\<rparr>) = thn (connect_loop env (sv_connect sv)) finish_trace s' \<and>
    ps_proxy s' = ps_proxy s \<and> ps_net s' = ps_net s \<and>
    cx_conn (ps_ctx s') = Some (NsdRef (TcpRef (ns_conn (ps_nsd s)))) \<and> cx_method (ps_ctx s') = ''CONNECT'' \<and>
    \<not> cx_is_secure (ps_ctx s') \<and> \<not> cx_sniffed_tls (ps_ctx s') \<and> dns_bypass (ps_ctx s') = background \<and>
    cx_host (ps_ctx s') = with_port (default_port r) (rq_host r) \<and> cx_trace (ps_ctx s') = no_trace"
proof -
  obtain cx where cx: "http_ctx ap px now c r (Some buf) = Val cx" using assms(2) by (simp add: http_ctx_def Let_def)
  let ?cx = "cx\<lparr>cx_host := with_port (default_port r) (rq_host r)\<rparr>"
  have fields: "cx_writer cx = WNsd" "cx_method cx = ''CONNECT''" "\<not> cx_is_secure cx" "\<not> cx_sniffed_tls cx"
    "cx_trace cx = no_trace" "\<not> cx_whitelisted cx" "\<not> cx_private cx"
    using cx assms(1,2) by (auto simp: http_ctx_def new_ctx_def Let_def)
  have "rq_method (cx_req cx) = ''CONNECT''" using http_ctx_parts(1) [OF cx] assms(1) by simp
  moreover have "named_host r = rq_host r" using assms(2) by (simp add: named_host_def)
  ultimately have "handle_http_connection env ap sv (s\<lparr>ps_ctx := cx\<rparr>) =
      thn (dispatch_connect_handlers env sv) finish_trace (s\<lparr>ps_ctx := ?cx\<rparr>)"
    using http_prepared [OF cx assms(3), of s]
    by (simp add: handle_http_connection_def bnd_apply thn_def get_ctx_def gets_def)
  also have "\<dots> = thn (connect_loop env (sv_connect sv)) finish_trace (snd (hijack (s\<lparr>ps_ctx := ?cx\<rparr>)))"
    using fields(1)
    by (simp add: dispatch_connect_handlers_def hijack_def on_nsd_def bnd_apply thn_def get_ctx_def gets_def modify_def)
  finally show ?thesis
    using cx fields
    by (intro exI [of _ cx] exI [of _ "snd (hijack (s\<lparr>ps_ctx := ?cx\<rparr>))"])
      (simp add: hijack_def on_nsd_def bnd_apply thn_def get_ctx_def gets_def modify_def nsd_store_def nsd_load_def
        nsd_hijack_def header_of_def dns_bypass_def)
qed

lemma finish_untraced: "cx_trace (ps_ctx s) = no_trace \<Longrightarrow> finish_trace s = (Val (), s)"
  by (simp add: finish_trace_def no_trace_def bnd_apply get_ctx_def gets_def ret_def)

section \<open>Properties\<close>

text \<open>
  C7. A CONNECT request that is let through, from accept to close: when a usable host is known and every connect
  handler answers NEXT, FORWARD or MITM (which all mean the same here) and leaves the route alone, in whatever state it
  is called, the destination is dialled at the port the host names, or else that of the URL's scheme. The client is sent
  the 200 that accepts the CONNECT and nothing else, the destination is sent nothing; then the two are joined, and at the
  end both are closed, no other connection was touched by the proxy, and nothing but the session number has changed in
  it. This is without a tracer, for a dial that succeeds and a client that takes the answer.
\<close>

theorem connect_request_tunnelled:
  assumes "r = served_request ap c n parsed" "check_domain (rq_host r)" "rq_method r = ''CONNECT''"
    and "buf \<noteq> []" "ap_trace ap = None" "\<forall>h \<in> set (sv_connect sv). goes_on same_route h"
    and "connect_dial_context env (during_session px) background ''tcp'' (with_port (default_port r) (rq_host r)) n =
      (Inr t, n1)"
    and "conn_open (nt_conns n1 c)"
  shows "\<exists>n2. tc_sent (nt_conns n2 c) = tc_sent (nt_conns n1 c) @ ''HTTP/1.1 200 OK'' @ crlf @ crlf \<and>
    (\<forall>i. i \<noteq> c \<longrightarrow> nt_conns n2 i = nt_conns n1 i) \<and> nt_events n2 = nt_events n1 \<and>
    serve_http env ap sv now c parsed buf px n = (Val (), after_session px, joined env (NsdRef (TcpRef c)) t n2) \<and>
    tc_closed (nt_conns (joined env (NsdRef (TcpRef c)) t n2) c) \<and>
    tc_closed (conn_of t (joined env (NsdRef (TcpRef c)) t n2))"
proof -
  define s where "s cx = \<lparr>ps_ctx = cx, ps_proxy = during_session px, ps_net = n,
     ps_nsd = \<lparr>ns_conn = c, ns_wrote = False, ns_chunking = False, ns_hijacked = False\<rparr>,
     ps_now = now, ps_next_body = 1\<rparr>" for cx
  let ?r = "NsdRef (TcpRef c)" and ?n2 = "snd (conn_write (NsdRef (TcpRef c)) connect_ok n1)"
  have host: "rq_host r \<noteq> []" using assms(2) by (auto simp: check_domain_def)
  obtain cx s1 where cx: "http_ctx ap (add_open 1 px) now c r (Some buf) = Val cx"
    and run: "handle_http_connection env ap sv (s cx) = thn (connect_loop env (sv_connect sv)) finish_trace s1"
    and s1: "ps_proxy s1 = during_session px" "ps_net s1 = n" "cx_conn (ps_ctx s1) = Some ?r"
      "cx_method (ps_ctx s1) = ''CONNECT''" "\<not> cx_is_secure (ps_ctx s1)" "dns_bypass (ps_ctx s1) = background"
      "cx_host (ps_ctx s1) = with_port (default_port r) (rq_host r)" "cx_trace (ps_ctx s1) = no_trace"
    using connect_request_prepared [OF assms(3) host assms(5), of "add_open 1 px" now c buf env sv "s undefined"]
    by (auto simp: s_def)
  obtain s2 where s2: "connect_loop env (sv_connect sv) s1 = thn (forward_connect env) (ret ()) s2" "same_route s1 s2"
    using connect_loop_passes [OF assms(6)] by blast
  have c: "cx_conn (ps_ctx s2) = Some ?r" "greeting (ps_ctx s2) = Some connect_ok" "dns_bypass (ps_ctx s2) = background"
    "cx_host (ps_ctx s2) = with_port (default_port r) (rq_host r)" "\<not> tr_modified (cx_trace (ps_ctx s2))"
    "ps_proxy s2 = during_session px" "ps_net s2 = n"
    using s2(2) s1 by (simp_all add: same_route_def route_def greeting_def no_trace_def)
  have "forward_connect env s2 = (Val None, s2\<lparr>ps_net := joined env ?r t ?n2\<rparr>)"
    using forward_connect_dialled [OF c(1), of env t n1] c assms(7) by (simp add: joined_def)
  then have "handle_http_connection env ap sv (s cx) = (Val (), s2\<lparr>ps_net := joined env ?r t ?n2\<rparr>)"
    using c(5) by (simp add: run s2(1) bnd_apply thn_def ret_def finish_trace_def get_ctx_def gets_def)
  moreover note session_begins [of px]
  ultimately have served: "serve_http env ap sv now c parsed buf px n = (Val (), after_session px, joined env ?r t ?n2)"
    using serve_http_runs [of ap c n parsed buf px now cx env sv "Val ()" "s2\<lparr>ps_net := joined env ?r t ?n2\<rparr>"]
      assms(2,4) cx c(6) session_ends [of px]
    by (simp add: assms(1) s_def)
  have "?n2 = n1\<lparr>nt_conns := (nt_conns n1)(c := (nt_conns n1 c)\<lparr>tc_sent := tc_sent (nt_conns n1 c) @ connect_ok\<rparr>)\<rparr>"
    using assms(8) by (simp add: conn_write_plain conn_of_def)
  then show ?thesis
    using served joined_closed [of env ?r t ?n2]
    by (intro exI [of _ ?n2]) (simp add: conn_of_def connect_ok_def del: conn_write.simps)
qed

text \<open>A server whose connect handlers note the device and ask to forward and to intercept.\<close>

definition eager_server :: server where
  "eager_server = empty_server\<lparr>sv_connect := [noting_handler, ret FORWARD, ret MITM]\<rparr>"

definition connect_to :: "string \<Rightarrow> http_request" where
  "connect_to host = empty_request\<lparr>rq_method := ''CONNECT'', rq_host := host, rq_url := Some (empty_url\<lparr>u_host := host\<rparr>)\<rparr>"

lemma connect_served:
  "connect_to ''a.com:443'' = served_request ap c n (Inr (connect_to ''a.com:443''))"
  "check_domain (rq_host (connect_to ''a.com:443''))" "rq_method (connect_to ''a.com:443'') = ''CONNECT''"
proof -
  show d: "check_domain (rq_host (connect_to ''a.com:443''))"
    by (simp add: connect_to_def check_domain_def is_lower_def)
  show "connect_to ''a.com:443'' = served_request ap c n (Inr (connect_to ''a.com:443''))"
    by (simp add: served_as_parsed [OF d])
qed (simp add: connect_to_def)

theorem connect_request_tunnelled_witness:
  "case serve_http example_env example_app eager_server 0 0 (Inr (connect_to ''a.com:443'')) ''CONNECT'' example_proxy quiet_net
   of (res, px, n) \<Rightarrow> res = Val () \<and> px = after_session example_proxy \<and>
       tc_sent (nt_conns n 0) = ''HTTP/1.1 200 OK'' @ crlf @ crlf \<and> tc_sent (nt_conns n 7) = [] \<and>
       tc_closed (nt_conns n 7) \<and> tc_closed (nt_conns n 0)"
proof -
  have on: "\<forall>h \<in> set (sv_connect eager_server). goes_on same_route h"
    using lets_pass_goes_on [OF noting_passes]
    by (simp add: eager_server_def) (simp add: goes_on_def ret_def routed.same_refl)
  have t: "ap_trace example_app = None" by (simp add: example_app_def)
  have dial: "connect_dial_context example_env (during_session example_proxy) background ''tcp''
      (with_port (default_port (connect_to ''a.com:443'')) (rq_host (connect_to ''a.com:443''))) quiet_net =
      (Inr (TcpRef 7), log_event (EvDial (with_port (default_port (connect_to ''a.com:443'')) (rq_host (connect_to ''a.com:443'')))) quiet_net)"
    by (rule example_session_dial)
  have o: "conn_open (nt_conns (log_event (EvDial a) quiet_net) 0)" for a by (simp add: quiet_net_def)
  obtain n2 where sent: "tc_sent (nt_conns n2 0) = ''HTTP/1.1 200 OK'' @ crlf @ crlf" "tc_sent (nt_conns n2 7) = []"
    and served: "serve_http example_env example_app eager_server 0 0 (Inr (connect_to ''a.com:443'')) ''CONNECT''
      example_proxy quiet_net = (Val (), after_session example_proxy, joined example_env (NsdRef (TcpRef 0)) (TcpRef 7) n2)"
    using connect_request_tunnelled [OF connect_served _ t on dial o, of "''CONNECT''" 0]
    by (auto simp: quiet_net_def)
  show ?thesis
    unfolding served using sent joined_closed [of example_env "NsdRef (TcpRef 0)" "TcpRef 7" n2]
    by (simp add: joined_sent conn_of_def)
qed

text \<open>
  C12. A CONNECT request that is turned down, from accept to close: when a usable host is known and the first connect
  handler that does not answer NEXT, FORWARD or MITM answers REJECT, nothing is dialled, the client is sent the line
  \<open>502 Rejected\<close> that the documentation of the connect handlers promises a client that did not speak TLS, and its
  connection is closed; no other is touched, and nothing but the session number of the proxy has changed. That
  documentation also says that FORWARD forwards the raw connection and MITM intercepts it: here neither keeps a
  later handler from rejecting. The handlers before look on in whatever state they are called; the client's connection
  takes the line; there is no tracer.
\<close>

theorem connect_request_rejected:
  assumes "r = served_request ap c n parsed" "check_domain (rq_host r)" "rq_method r = ''CONNECT''"
    and "buf \<noteq> []" "ap_trace ap = None"
    and "sv_connect sv = pre @ g # post" "\<forall>h \<in> set pre. goes_on same_exchange h" "turns_down g"
    and "conn_open (nt_conns n c)"
  shows "\<exists>n'. serve_http env ap sv now c parsed buf px n = (Val (), after_session px, n') \<and>
    tc_sent (nt_conns n' c) = tc_sent (nt_conns n c) @ ''HTTP/1.0 502 Rejected'' @ crlf @ crlf \<and>
    tc_closed (nt_conns n' c) \<and> nt_events n' = nt_events n \<and> (\<forall>i. i \<noteq> c \<longrightarrow> nt_conns n' i = nt_conns n i)"
proof -
  define s where "s cx = \<lparr>ps_ctx = cx, ps_proxy = during_session px, ps_net = n,
     ps_nsd = \<lparr>ns_conn = c, ns_wrote = False, ns_chunking = False, ns_hijacked = False\<rparr>,
     ps_now = now, ps_next_body = 1\<rparr>" for cx
  let ?r = "NsdRef (TcpRef c)"
  let ?n1 = "n\<lparr>nt_conns := (nt_conns n)(c := (nt_conns n c)\<lparr>tc_sent := tc_sent (nt_conns n c) @ rejected_502\<rparr>)\<rparr>"
  have host: "rq_host r \<noteq> []" using assms(2) by (auto simp: check_domain_def)
  obtain cx s1 where cx: "http_ctx ap (add_open 1 px) now c r (Some buf) = Val cx"
    and run: "handle_http_connection env ap sv (s cx) = thn (connect_loop env (sv_connect sv)) finish_trace s1"
    and s1: "ps_proxy s1 = during_session px" "ps_net s1 = n" "cx_conn (ps_ctx s1) = Some ?r"
      "cx_method (ps_ctx s1) = ''CONNECT''" "\<not> cx_sniffed_tls (ps_ctx s1)" "cx_trace (ps_ctx s1) = no_trace"
    using connect_request_prepared [OF assms(3) host assms(5), of "add_open 1 px" now c buf env sv "s undefined"]
    by (auto simp: s_def)
  obtain s2 where s2: "connect_loop env (sv_connect sv) s1 = connect_loop env (ret REJECT # post) s2" "same_exchange s1 s2"
    unfolding assms(6) using exchanged.connect_decided [OF assms(7) assms(8) [unfolded turns_down_def]] by blast
  have x: "cx_conn (ps_ctx s2) = Some ?r" "cx_method (ps_ctx s2) = ''CONNECT''" "\<not> cx_sniffed_tls (ps_ctx s2)"
    "cx_trace (ps_ctx s2) = no_trace" "ps_proxy s2 = during_session px" "ps_net s2 = n"
    using s2(2) s1 by (simp_all add: same_exchange_def exchange_def)
  have told: "conn_write ?r rejected_502 n = ((length rejected_502, None), ?n1)"
    using assms(9) by (simp add: conn_write_plain conn_of_def)
  have "reject_connect s2 = (Val (), s2\<lparr>ps_net := snd (conn_close ?r ?n1)\<rparr>)"
    using x told by (simp add: reject_connect_def bnd_apply thn_def get_ctx_def gets_def ret_def client_write_some
      client_close_some del: conn_write.simps conn_close.simps)
  then have handled: "handle_http_connection env ap sv (s cx) = (Val (), s2\<lparr>ps_net := snd (conn_close ?r ?n1)\<rparr>)"
    using x(4) finish_untraced [of "s2\<lparr>ps_net := snd (conn_close ?r ?n1)\<rparr>"]
    by (simp add: run s2(1) bnd_apply thn_def ret_def del: conn_close.simps)
  moreover note session_begins [of px]
  ultimately have "serve_http env ap sv now c parsed buf px n = (Val (), after_session px, snd (conn_close ?r ?n1))"
    using serve_http_runs [of ap c n parsed buf px now cx env sv "Val ()" "s2\<lparr>ps_net := snd (conn_close ?r ?n1)\<rparr>"]
      assms(2,4) cx x(5) session_ends [of px]
    by (simp add: assms(1) s_def del: conn_close.simps)
  then show ?thesis
    using conn_dropped [of ?r ?n1] by (simp add: conn_of_def rejected_502_def del: conn_close.simps)
qed

theorem connect_request_rejected_witness:
  "case serve_http example_env example_app (eager_server\<lparr>sv_connect := [ret FORWARD, always_reject]\<rparr>) 0 0
     (Inr (connect_to ''a.com:443'')) ''CONNECT'' example_proxy quiet_net of
   (res, px, n) \<Rightarrow> res = Val () \<and> px = after_session example_proxy \<and> tc_closed (nt_conns n 0) \<and> nt_events n = [] \<and>
       tc_sent (nt_conns n 0) = ''HTTP/1.0 502 Rejected'' @ crlf @ crlf"
proof -
  let ?sv = "eager_server\<lparr>sv_connect := [ret FORWARD, always_reject]\<rparr>"
  have sv: "sv_connect ?sv = [ret FORWARD] @ always_reject # []" by simp
  have on: "\<forall>h \<in> set [ret FORWARD]. goes_on same_exchange h"
    by (simp add: goes_on_def ret_def exchanged.same_refl)
  have t: "ap_trace example_app = None" by (simp add: example_app_def)
  have o: "conn_open (nt_conns quiet_net 0)" by (simp add: quiet_net_def)
  obtain n' where "serve_http example_env example_app ?sv 0 0 (Inr (connect_to ''a.com:443'')) ''CONNECT'' example_proxy quiet_net =
      (Val (), after_session example_proxy, n')"
    "tc_sent (nt_conns n' 0) = tc_sent (nt_conns quiet_net 0) @ ''HTTP/1.0 502 Rejected'' @ crlf @ crlf"
    "tc_closed (nt_conns n' 0)" "nt_events n' = nt_events quiet_net"
    using connect_request_rejected [OF connect_served _ t sv on always_reject_turns_down o, of "''CONNECT''" example_env 0
        example_proxy]
    by auto
  then show ?thesis by (simp add: quiet_net_def)
qed

end
