(* ===== verification/Listener.thy ===== *)
theory Listener
  imports Pipeline_Answers Machines
begin

text \<open>
  The loops of \<open>ListenAndServe\<close> and \<open>ListenAndServeTLS\<close> (\<open>proxy.go\<close>): connections are accepted one after the
  other and each is served by a goroutine of its own, which counts itself as a running handler and draws a
  session number. The goroutines of both loops take turns in any order; a step is one access to what they
  share.
\<close>

section \<open>What handling a connection leaves alone\<close>

text \<open>The two counters of the server that its goroutines share.\<close>

definition counts :: "pst \<Rightarrow> int \<times> int" where
  "counts s = (px_open_handlers (ps_proxy s), px_sess (ps_proxy s))"

definition steady :: "(pst, 'a) go \<Rightarrow> bool" where
  "steady m \<longleftrightarrow> (\<forall>s. counts (snd (m s)) = counts s)"

named_theorems steady_intros "rules for effects that leave the counters alone"

lemma steadyD: "steady m \<Longrightarrow> m s = (x, s') \<Longrightarrow> counts s' = counts s"
  unfolding steady_def by (metis snd_conv)

lemma steady_basic [steady_intros]:
  "steady (ret x)" "steady (gopanic e)" "steady (gets f)" "steady (get_ctx g)" "steady (upd_ctx h)" "steady (on_net k)"
  "steady (\<lambda>s. on_net (q s) s)"
  by (auto simp: steady_def counts_def go_defs split: prod.splits)

lemma steady_bnd [steady_intros]:
  assumes "steady m" "\<And>x. steady (f x)"
  shows "steady (bnd m f)"
  unfolding steady_def
proof
  fix s
  obtain r s1 where m: "m s = (r, s1)" by fastforce
  have "counts s1 = counts s" by (rule steadyD [OF assms(1) m])
  then show "counts (snd (bnd m f s)) = counts s"
    using assms(2) m by (cases r) (auto simp: bnd_apply steady_def)
qed

lemma steady_thn [steady_intros]: "steady m \<Longrightarrow> steady k \<Longrightarrow> steady (thn m k)"
  unfolding thn_def by (rule steady_bnd)

lemma steady_if [steady_intros]: "(b \<Longrightarrow> steady m) \<Longrightarrow> (\<not> b \<Longrightarrow> steady k) \<Longrightarrow> steady (if b then m else k)"
  by simp

lemma steady_option [steady_intros]:
  "(v = None \<Longrightarrow> steady m) \<Longrightarrow> (\<And>x. v = Some x \<Longrightarrow> steady (f x)) \<Longrightarrow>
     steady (case v of None \<Rightarrow> m | Some x \<Rightarrow> f x)"
  by (cases v) auto

lemma steady_prod [steady_intros]: "(\<And>x y. steady (f x y)) \<Longrightarrow> steady (case v of (x, y) \<Rightarrow> f x y)"
  by (cases v) auto

lemma steady_sum [steady_intros]:
  "(\<And>x. steady (f x)) \<Longrightarrow> (\<And>x. steady (g x)) \<Longrightarrow> steady (case v of Inl x \<Rightarrow> f x | Inr x \<Rightarrow> g x)"
  by (cases v) auto

lemma steady_on_conn [steady_intros]: "steady (on_conn c f)"
  unfolding on_conn_def by (intro steady_intros)

lemma steady_modify: "(\<And>s. counts (f s) = counts s) \<Longrightarrow> steady (modify f)"
  by (simp add: steady_def go_defs)

lemma steady_on_nsd [steady_intros]: "steady (on_nsd f)"
  unfolding on_nsd_def by (rule steady_modify) (simp add: nsd_store_def counts_def)

lemma steady_client [steady_intros]:
  "steady (client_write d)" "steady client_close" "steady http_error" "steady reject_connect" "steady hijack"
  unfolding client_write_def client_close_def http_error_def reject_connect_def hijack_def
  by (auto intro!: steady_intros steady_modify split: writer_ref.split simp: counts_def)

lemma steady_fit [steady_intros]: "steady (fit_and_close env t)"
  unfolding fit_and_close_def by (intro steady_intros)

lemma steady_forward_connect [steady_intros]: "steady (forward_connect env)"
  unfolding forward_connect_def by (intro steady_intros)

lemma steady_forward_request [steady_intros]: "steady (forward_request env h)"
proof -
  have "steady (\<lambda>s. if b then on_net (f s) s else on_net (g s) s)" for b and f g :: "pst \<Rightarrow> net \<Rightarrow> (goerr + conn_ref) \<times> net"
    by (cases b) (simp_all add: steady_basic)
  then show ?thesis unfolding forward_request_def by (intro steady_intros)
qed

lemma steady_trip [steady_intros]: "steady (run_tripper env dc rq)"
  unfolding run_tripper_def wrapped_trip_def tunnel_trip_def
  by (auto intro!: steady_intros split: option.split round_tripper.split)

lemma steady_copies [steady_intros]: "steady (copy_req rq)" "steady (copy_resp r)"
  unfolding copy_req_def copy_resp_def fresh_bodies_def
  by (intro steady_intros steady_modify; simp add: counts_def)+

lemma steady_trip_with_log [steady_intros]: "steady (round_trip_with_log env dc rq)"
  unfolding round_trip_with_log_def
  by (intro steady_intros steady_modify) (simp add: counts_def)

lemma steady_round_trip [steady_intros]: "steady (round_trip env dc rq)"
  unfolding round_trip_def choose_transport_def flush_idle_def Let_def
  by (intro steady_intros steady_modify) (simp add: counts_def)

lemma steady_forward_http_request [steady_intros]: "steady (forward_http_request env h)"
  unfolding forward_http_request_def by (intro steady_intros)

text \<open>The loops, for handlers that leave the counters alone.\<close>

definition steady_handlers :: "handler list \<Rightarrow> bool" where
  "steady_handlers hs \<longleftrightarrow> (\<forall>h \<in> set hs. steady h)"

lemma steady_handlers_Cons [simp]: "steady_handlers (h # hs) \<longleftrightarrow> steady h \<and> steady_handlers hs" "steady_handlers []"
  by (simp_all add: steady_handlers_def)

lemma steady_done_loop: "steady_handlers hs \<Longrightarrow> steady (done_loop hs)"
  by (induction hs) (auto intro!: steady_intros split: next_action.split)

lemma steady_dispatch_done: "steady_handlers hs \<Longrightarrow> steady (dispatch_done_handlers hs)"
  unfolding dispatch_done_handlers_def
  by (intro steady_intros steady_modify steady_done_loop) (simp add: counts_def)

lemma steady_client_send: "steady k \<Longrightarrow> steady (client_send d k)"
  unfolding client_send_def by (intro steady_intros)

lemma steady_mitm_body: "steady (mitm_body b)"
  unfolding mitm_body_def by (intro steady_intros)

lemma steady_close_after:
  "steady m \<Longrightarrow> steady (\<lambda>s. case m s of (res, s') \<Rightarrow> (res, s'\<lparr>ps_ctx := f (ps_ctx s')\<rparr>))"
  by (simp add: steady_def counts_def case_prod_unfold)

lemma steady_forward_response:
  assumes "steady_handlers hs"
  shows "steady (forward_response hs)"
proof -
  have "steady (forward_mitm_response hs)"
    unfolding forward_mitm_response_def
    by (intro steady_intros steady_close_after steady_client_send steady_mitm_body steady_dispatch_done assms)
  moreover have "steady (forward_http_response hs)"
    unfolding forward_http_response_def Let_def
    by (auto intro!: steady_intros steady_dispatch_done assms split: writer_ref.split)
  ultimately show ?thesis unfolding forward_response_def by (intro steady_intros)
qed

lemma steady_answers [steady_intros]: "steady (blocked_answer st e)" "steady write_response_headers" "steady copy_original_headers"
  unfolding blocked_answer_def write_response_headers_def copy_original_headers_def Let_def
  by (intro steady_intros)+

lemma steady_response_loop:
  "steady_handlers dones \<Longrightarrow> steady_handlers hs \<Longrightarrow> steady (response_loop dones hs rejected)"
  by (induction hs arbitrary: rejected)
    (auto intro!: steady_intros steady_dispatch_done simp: invalid_next_def split: next_action.split)

definition steady_server :: "server \<Rightarrow> bool" where
  "steady_server sv \<longleftrightarrow> steady_handlers (sv_connect sv) \<and> steady_handlers (sv_request sv) \<and>
     steady_handlers (sv_response sv) \<and> steady_handlers (sv_done sv)"

lemma steady_dispatch_responses:
  assumes "steady_server sv"
  shows "steady (dispatch_response_handlers sv)"
  unfolding dispatch_response_handlers_def
  by (intro steady_intros steady_response_loop steady_forward_response)
    (use assms in \<open>simp_all add: steady_server_def\<close>)

lemma steady_request_loop:
  assumes "steady_server sv"
  shows "steady_handlers hs \<Longrightarrow> steady (request_loop env sv hs)"
proof (induction hs)
  case Nil
  then show ?case
    by (auto simp: send_request_def intro!: steady_intros steady_dispatch_responses assms)
next
  case (Cons h hs)
  then show ?case using assms
    by (auto simp: invalid_next_def steady_server_def intro!: steady_intros steady_dispatch_done
        steady_dispatch_responses [OF assms] steady_forward_response split: next_action.split)
qed

lemma steady_connect_loop: "steady_handlers hs \<Longrightarrow> steady (connect_loop env hs)"
  by (induction hs) (auto simp: invalid_next_def intro!: steady_intros split: next_action.split)

text \<open>What the application plugs into the server besides its handlers.\<close>

definition steady_app :: "app \<Rightarrow> bool" where
  "steady_app ap \<longleftrightarrow> (\<forall>t. ap_trace ap = Some t \<longrightarrow> steady t) \<and> (\<forall>h. ap_handle_http ap = Some h \<longrightarrow> steady h)"

lemma steady_start_traces:
  assumes "steady_app ap"
  shows "steady (start_trace ap)" "steady (start_trace_tls ap)"
  unfolding start_trace_def start_trace_tls_def Let_def
  by (auto intro!: steady_intros split: option.split simp: assms [unfolded steady_app_def])

lemma steady_handle_http:
  assumes "steady_app ap" "steady_server sv"
  shows "steady (handle_http_connection env ap sv)"
proof -
  have "steady finish_trace" unfolding finish_trace_def by (intro steady_intros)
  moreover have "steady (dispatch_connect_handlers env sv)" "steady (dispatch_request_handlers env sv)"
    unfolding dispatch_connect_handlers_def dispatch_request_handlers_def
    by (intro steady_intros steady_connect_loop steady_request_loop [OF assms(2)];
        use assms(2) in \<open>simp add: steady_server_def\<close>)+
  moreover have "steady h" if "ap_handle_http ap = Some h" for h
    using assms(1) that by (simp add: steady_app_def)
  ultimately show ?thesis
    unfolding handle_http_connection_def prepare_http_def
    by (intro steady_intros steady_start_traces [OF assms(1)])
qed

lemma steady_handle_tls:
  assumes "steady_app ap" "steady_server sv"
  shows "steady (thn (start_trace_tls ap) (dispatch_connect_handlers env sv))"
  unfolding dispatch_connect_handlers_def
  by (intro steady_intros steady_connect_loop steady_start_traces [OF assms(1)])
    (use assms(2) in \<open>simp add: steady_server_def\<close>)

section \<open>Connections and goroutines\<close>

text \<open>
  An accepted connection with what is read from it: for HTTP what \<open>http.ReadRequest\<close> returned and the bytes
  read for that, for TLS the connection of the muxer, the server name, whether the muxer failed, and the
  CLIENTHELLO.
\<close>

datatype job = HttpJob nat "goerr + http_request" string
  | TlsJob nat conn_ref string bool "client_hello option"

primrec job_number :: "job \<Rightarrow> nat" where
  "job_number (HttpJob c parsed buf) = c"
| "job_number (TlsJob c tls name bad hello) = c"

primrec job_client :: "job \<Rightarrow> conn_ref" where
  "job_client (HttpJob c parsed buf) = TcpRef c"
| "job_client (TlsJob c tls name bad hello) = tls"

text \<open>
  What is decided before a session begins: \<open>None\<close> when the connection is dropped, else the context. The context
  takes the next session number.
\<close>

primrec admitted :: "app \<Rightarrow> gotime \<Rightarrow> job \<Rightarrow> proxy_data \<Rightarrow> net \<Rightarrow> ctx gores option" where
  "admitted ap now (HttpJob c parsed buf) px n =
     (let r0 = (case parsed of Inl e \<Rightarrow> unparsed_request | Inr r \<Rightarrow> r);
          r = (if \<not> check_domain (rq_host r0) then r0\<lparr>rq_host := ap_resolver ap c n\<rparr> else r0)
      in if \<not> check_domain (rq_host r) \<or> length buf = 0 then None else Some (http_ctx ap px now c r (Some buf)))"
| "admitted ap now (TlsJob c tls name bad hello) px n =
     (let host = (if \<not> check_domain name then ap_resolver ap c n else name)
      in if \<not> check_domain host \<or> has_prefix host ''192.168.102.'' then None
         else Some (Val (tls_ctx ap px now tls host bad hello)))"

primrec work :: "env \<Rightarrow> app \<Rightarrow> server \<Rightarrow> job \<Rightarrow> (pst, unit) go" where
  "work env ap sv (HttpJob c parsed buf) = handle_http_connection env ap sv"
| "work env ap sv (TlsJob c tls name bad hello) = thn (start_trace_tls ap) (dispatch_connect_handlers env sv)"

definition session_state :: "job \<Rightarrow> gotime \<Rightarrow> ctx \<Rightarrow> proxy_data \<Rightarrow> net \<Rightarrow> pst" where
  "session_state job now cx px n = \<lparr>ps_ctx = cx, ps_proxy = px, ps_net = n,
     ps_nsd = \<lparr>ns_conn = job_number job, ns_wrote = False, ns_chunking = False, ns_hijacked = False\<rparr>,
     ps_now = now, ps_next_body = 1\<rparr>"

text \<open>
  Where a goroutine is: started, counted as running, in its session, with the deferred call that stops counting
  it ahead, and finished; the number is that of the session, if there was one. A goroutine that panics is not
  recovered, but the deferred call still stops counting it before the process ends.
\<close>

datatype phase = Accepted | Counted | Serving ctx | Closing "int option" | Gone "int option"
  | Crashed "int option" string

fun advance ::
  "env \<Rightarrow> app \<Rightarrow> server \<Rightarrow> gotime \<Rightarrow> job \<Rightarrow> phase \<Rightarrow> proxy_data \<Rightarrow> net \<Rightarrow> (phase \<times> proxy_data \<times> net) option" where
  "advance env ap sv now job Accepted px n = Some (Counted, add_open 1 px, n)"
| "advance env ap sv now job Counted px n = (case admitted ap now job px n of
     None \<Rightarrow> Some (Closing None, px, snd (conn_close (job_client job) n))
   | Some (Val cx) \<Rightarrow> Some (Serving cx, px\<lparr>px_sess := px_sess px + 1\<rparr>, n)
   | Some (Panic e) \<Rightarrow> Some (Crashed (Some (px_sess px + 1)) e, add_open (-1) (px\<lparr>px_sess := px_sess px + 1\<rparr>), n))"
| "advance env ap sv now job (Serving cx) px n = (case work env ap sv job (session_state job now cx px n) of
     (Val _, s) \<Rightarrow> Some (Closing (Some (cx_session cx)), ps_proxy s, ps_net s)
   | (Panic e, s) \<Rightarrow> Some (Crashed (Some (cx_session cx)) e, add_open (-1) (ps_proxy s), ps_net s))"
| "advance env ap sv now job (Closing k) px n = Some (Gone k, add_open (-1) px, n)"
| "advance env ap sv now job (Gone k) px n = None"
| "advance env ap sv now job (Crashed k e) px n = None"

section \<open>The listeners\<close>

text \<open>The server, the network, every connection accepted so far, and how often accepting failed.\<close>

record listening =
  li_proxy :: proxy_data
  li_net :: net
  li_tasks :: "(job \<times> phase) list"
  li_errors :: nat

definition new_listening :: "proxy_data \<Rightarrow> net \<Rightarrow> listening" where
  "new_listening px n = \<lparr>li_proxy = px, li_net = n, li_tasks = [], li_errors = 0\<rparr>"

text \<open>A panic that nobody recovers ends the process, with all its goroutines.\<close>

fun crashed :: "phase \<Rightarrow> bool" where
  "crashed (Crashed k e) = True"
| "crashed _ = False"

definition down :: "listening \<Rightarrow> bool" where
  "down s \<longleftrightarrow> (\<exists>t \<in> set (li_tasks s). crashed (snd t))"

inductive serve_step :: "env \<Rightarrow> app \<Rightarrow> server \<Rightarrow> gotime \<Rightarrow> listening \<Rightarrow> listening \<Rightarrow> bool" for env ap sv now where
  goes_on: "\<not> down s \<Longrightarrow> li_tasks s = us @ (job, ph) # vs \<Longrightarrow>
    advance env ap sv now job ph (li_proxy s) (li_net s) = Some (ph', px, n) \<Longrightarrow>
    serve_step env ap sv now s (s\<lparr>li_proxy := px, li_net := n, li_tasks := us @ (job, ph') # vs\<rparr>)"

text \<open>An error of \<open>Accept\<close> is logged and the loop goes on.\<close>

inductive listen_step :: "env \<Rightarrow> app \<Rightarrow> server \<Rightarrow> gotime \<Rightarrow> listening \<Rightarrow> listening \<Rightarrow> bool" for env ap sv now where
  accept_fails: "\<not> down s \<Longrightarrow> listen_step env ap sv now s (s\<lparr>li_errors := li_errors s + 1\<rparr>)"
| accepts: "\<not> down s \<Longrightarrow> listen_step env ap sv now s (s\<lparr>li_tasks := li_tasks s @ [(job, Accepted)]\<rparr>)"
| serves: "serve_step env ap sv now s t \<Longrightarrow> listen_step env ap sv now s t"

inductive_cases serve_stepE: "serve_step env ap sv now s t"
inductive_cases listen_stepE: "listen_step env ap sv now s t"

text \<open>The goroutines that count as running, and the session numbers that were drawn.\<close>

fun running :: "phase \<Rightarrow> bool" where
  "running Accepted = False"
| "running (Gone k) = False"
| "running (Crashed k e) = False"
| "running _ = True"

fun drawn :: "phase \<Rightarrow> int list" where
  "drawn Accepted = []"
| "drawn Counted = []"
| "drawn (Serving cx) = [cx_session cx]"
| "drawn (Closing k) = (case k of None \<Rightarrow> [] | Some i \<Rightarrow> [i])"
| "drawn (Gone k) = (case k of None \<Rightarrow> [] | Some i \<Rightarrow> [i])"
| "drawn (Crashed k e) = (case k of None \<Rightarrow> [] | Some i \<Rightarrow> [i])"

definition sessions :: "(job \<times> phase) list \<Rightarrow> int list" where
  "sessions ts = concat (map (\<lambda>t. drawn (snd t)) ts)"

definition running_count :: "(job \<times> phase) list \<Rightarrow> int" where
  "running_count ts = int (length (filter (\<lambda>t. running (snd t)) ts))"

lemma sessions_simps [simp]:
  "sessions [] = []" "sessions (us @ vs) = sessions us @ sessions vs" "sessions (t # vs) = drawn (snd t) @ sessions vs"
  by (simp_all add: sessions_def)

lemma running_count_simps [simp]:
  "running_count [] = 0" "running_count (us @ vs) = running_count us + running_count vs"
  "running_count (t # vs) = (if running (snd t) then 1 else 0) + running_count vs"
  by (simp_all add: running_count_def)

lemma admitted_session: "admitted ap now job px n = Some (Val cx) \<Longrightarrow> cx_session cx = px_sess px + 1"
  by (cases job) (auto simp: Let_def http_ctx_def tls_ctx_def new_ctx_def split: if_splits option.splits)

lemma steady_work: "steady_app ap \<Longrightarrow> steady_server sv \<Longrightarrow> steady (work env ap sv job)"
  by (cases job) (simp_all add: steady_handle_http steady_handle_tls)

text \<open>What one step of a goroutine does to the counters and to what it shows.\<close>

lemma advance_counts:
  assumes "steady_app ap" "steady_server sv" "advance env ap sv now job ph px n = Some (ph', px', n')"
  shows "px_open_handlers px' = px_open_handlers px + (if running ph' then 1 else 0) - (if running ph then 1 else 0) \<and>
    (drawn ph' = drawn ph \<and> px_sess px' = px_sess px \<or>
     drawn ph = [] \<and> drawn ph' = [px_sess px + 1] \<and> px_sess px' = px_sess px + 1)"
proof (cases ph)
  case Counted
  then show ?thesis using assms(3) admitted_session [of ap now job px n]
    by (auto simp: add_open_def split: option.splits gores.splits)
next
  case (Serving cx)
  obtain r s where w: "work env ap sv job (session_state job now cx px n) = (r, s)" by fastforce
  have "px_open_handlers (ps_proxy s) = px_open_handlers px" "px_sess (ps_proxy s) = px_sess px"
    using steadyD [OF steady_work [OF assms(1,2)] w] by (simp_all add: counts_def session_state_def)
  then show ?thesis using assms(3) Serving w by (auto simp: add_open_def split: gores.splits)
qed (use assms(3) in \<open>auto simp: add_open_def\<close>)

definition listen_ok :: "proxy_data \<Rightarrow> listening \<Rightarrow> bool" where
  "listen_ok px0 s \<longleftrightarrow>
     px_open_handlers (li_proxy s) = px_open_handlers px0 + running_count (li_tasks s) \<and>
     distinct (sessions (li_tasks s)) \<and>
     set (sessions (li_tasks s)) = {px_sess px0 <.. px_sess (li_proxy s)} \<and> px_sess px0 \<le> px_sess (li_proxy s)"

lemma interval_next: "a \<le> b \<Longrightarrow> {a <.. b + 1} = insert (b + 1) {a <.. b :: int}"
  by auto

lemma listen_ok_serve:
  assumes "steady_app ap" "steady_server sv" "listen_ok px0 s" "serve_step env ap sv now s t"
  shows "listen_ok px0 t"
  using assms(4)
proof (rule serve_stepE)
  fix us job ph vs ph' px n
  assume t: "t = s\<lparr>li_proxy := px, li_net := n, li_tasks := us @ (job, ph') # vs\<rparr>"
    and s: "li_tasks s = us @ (job, ph) # vs"
    and step: "advance env ap sv now job ph (li_proxy s) (li_net s) = Some (ph', px, n)"
  note a = advance_counts [OF assms(1,2) step]
  from a consider (same) "drawn ph' = drawn ph" "px_sess px = px_sess (li_proxy s)"
    | (new) "drawn ph = []" "drawn ph' = [px_sess (li_proxy s) + 1]" "px_sess px = px_sess (li_proxy s) + 1" by blast
  then show ?thesis
  proof cases
    case same
    then show ?thesis using assms(3) a s t by (simp add: listen_ok_def)
  next
    case new
    have "px_sess (li_proxy s) + 1 \<notin> {px_sess px0 <.. px_sess (li_proxy s)}" by simp
    moreover have set_old: "set (sessions us) \<union> set (sessions vs) = {px_sess px0 <.. px_sess (li_proxy s)}"
      using assms(3) new(1) s by (simp add: listen_ok_def)
    ultimately have "px_sess (li_proxy s) + 1 \<notin> set (sessions us)" "px_sess (li_proxy s) + 1 \<notin> set (sessions vs)"
      by blast+
    then show ?thesis using assms(3) a new s t set_old
      by (simp add: listen_ok_def interval_next)
  qed
qed

lemma listen_ok_step:
  assumes "steady_app ap" "steady_server sv" "listen_ok px0 s" "listen_step env ap sv now s t"
  shows "listen_ok px0 t"
  using assms(4) by (rule listen_stepE)
    (use assms(3) listen_ok_serve [OF assms(1-3)] in \<open>simp_all add: listen_ok_def\<close>)

interpretation listeners: kept_by_steps "listen_step env ap sv now"
  "\<lambda>s. steady_app ap \<and> steady_server sv \<and> listen_ok px0 s" for env ap sv now px0
  by unfold_locales (blast intro: listen_ok_step)

lemma new_listening_ok: "listen_ok px (new_listening px n)"
  by (simp add: listen_ok_def new_listening_def)

text \<open>How many steps a goroutine has left at most.\<close>

fun steps_left :: "phase \<Rightarrow> nat" where
  "steps_left Accepted = 4"
| "steps_left Counted = 3"
| "steps_left (Serving cx) = 2"
| "steps_left (Closing k) = 1"
| "steps_left (Gone k) = 0"
| "steps_left (Crashed k e) = 0"

definition tasks_left :: "listening \<Rightarrow> nat" where
  "tasks_left s = sum_list (map (\<lambda>t. steps_left (snd t)) (li_tasks s))"

lemma advance_decreases: "advance env ap sv now job ph px n = Some (ph', px', n') \<Longrightarrow> steps_left ph' < steps_left ph"
  by (cases ph) (auto split: option.splits gores.splits prod.splits)

lemma tasks_left_bound: "tasks_left s \<le> 4 * length (li_tasks s)"
proof -
  have "steps_left ph \<le> 4" for ph by (cases ph) auto
  then have "sum_list (map (\<lambda>t. steps_left (snd t)) ts) \<le> 4 * length ts" for ts :: "(job \<times> phase) list"
    by (induction ts) (auto intro: add_mono)
  then show ?thesis by (simp add: tasks_left_def)
qed

interpretation serving: measured_steps "serve_step env ap sv now"
  "\<lambda>s. steady_app ap \<and> steady_server sv \<and> listen_ok px0 s" tasks_left for env ap sv now px0
proof unfold_locales
  show "tasks_left t < tasks_left s" if "serve_step env ap sv now s t" for s t
    using that by (rule serve_stepE) (auto simp: tasks_left_def dest: advance_decreases)
qed (blast intro: listen_ok_serve)

lemma advance_stops: "advance env ap sv now job ph px n = None \<longleftrightarrow> (\<exists>k. ph = Gone k) \<or> (\<exists>k e. ph = Crashed k e)"
  by (cases ph) (auto split: option.splits gores.splits prod.splits)

lemma served_when_stuck:
  assumes "\<forall>t. \<not> serve_step env ap sv now s t" "\<not> down s"
  shows "\<forall>x \<in> set (li_tasks s). \<exists>k. snd x = Gone k"
proof
  fix x assume x: "x \<in> set (li_tasks s)"
  obtain job ph where jp: "x = (job, ph)" by fastforce
  obtain us vs where s: "li_tasks s = us @ (job, ph) # vs" using x jp by (meson split_list)
  have "advance env ap sv now job ph (li_proxy s) (li_net s) = None"
    using assms(1) serve_step.goes_on [OF assms(2) s] by (metis option.exhaust prod_cases3)
  moreover have "\<not> crashed ph" using assms(2) x jp by (auto simp: down_def)
  ultimately show "\<exists>k. snd x = Gone k" using jp unfolding advance_stops by auto
qed

lemma running_none: "\<forall>x \<in> set ts. \<exists>k. snd x = Gone k \<Longrightarrow> running_count ts = 0"
  by (induction ts) auto

section \<open>One connection by itself\<close>

definition served_by :: "env \<Rightarrow> app \<Rightarrow> server \<Rightarrow> gotime \<Rightarrow> job \<Rightarrow> proxy_data \<Rightarrow> net \<Rightarrow> served" where
  "served_by env ap sv now job px n = (case job of
     HttpJob c parsed buf \<Rightarrow> serve_http env ap sv now c parsed buf px n
   | TlsJob c tls name bad hello \<Rightarrow> serve_tls env ap sv now c tls name bad hello px n)"

lemma served_by_phases:
  "served_by env ap sv now job px n = (case admitted ap now job (add_open 1 px) n of
     None \<Rightarrow> (Val (), add_open (-1) (add_open 1 px), snd (conn_close (job_client job) n))
   | Some (Panic e) \<Rightarrow> (Panic e, add_open (-1) (add_open 1 px), n)
   | Some (Val cx) \<Rightarrow> (case work env ap sv job (session_state job now cx
         ((add_open 1 px)\<lparr>px_sess := px_sess (add_open 1 px) + 1\<rparr>) n) of
       (r, s) \<Rightarrow> (r, add_open (-1) (ps_proxy s), ps_net s)))"
  by (cases job)
    (auto simp: served_by_def serve_http_def serve_tls_def session_state_def run_connection_def Let_def
      split: gores.splits prod.splits)

text \<open>The state in which one goroutine is in a phase, and the rest of it where it was.\<close>

abbreviation task_at ::
  "listening \<Rightarrow> (job \<times> phase) list \<Rightarrow> job \<Rightarrow> (job \<times> phase) list \<Rightarrow> phase \<Rightarrow> proxy_data \<Rightarrow> net \<Rightarrow> listening" where
  "task_at s us job vs ph p m \<equiv> s\<lparr>li_proxy := p, li_net := m, li_tasks := us @ (job, ph) # vs\<rparr>"

lemma step_at:
  assumes "\<not> down s" "li_tasks s = us @ (job, ph0) # vs" "\<not> crashed ph"
    and "advance env ap sv now job ph p m = Some (ph', p', m')"
  shows "serve_step env ap sv now (task_at s us job vs ph p m) (task_at s us job vs ph' p' m')"
proof -
  have "\<not> down (task_at s us job vs ph p m)" using assms(1-3) by (auto simp: down_def)
  from serve_step.goes_on [OF this, of us job ph vs env ap sv now ph' p' m'] assms(4) show ?thesis by simp
qed

lemma task_at_start: "li_tasks s = us @ (job, ph) # vs \<Longrightarrow> task_at s us job vs ph (li_proxy s) (li_net s) = s"
  by simp

text \<open>A goroutine that is alone on its way, from any of its phases.\<close>

lemma served_run:
  assumes up: "\<not> down s" and tasks: "li_tasks s = us @ (job, Accepted) # vs"
    and served: "served_by env ap sv now job (li_proxy s) (li_net s) = (Val (), px, n)"
  shows "\<exists>k. (serve_step env ap sv now)\<^sup>*\<^sup>* s (s\<lparr>li_proxy := px, li_net := n, li_tasks := us @ (job, Gone k) # vs\<rparr>)"
proof -
  let ?at = "task_at s us job vs" and ?p = "add_open 1 (li_proxy s)"
  note step = step_at [OF up tasks, of _ env ap sv now]
  have 1: "serve_step env ap sv now s (?at Counted ?p (li_net s))"
    using step [of Accepted "li_proxy s" "li_net s"] task_at_start [OF tasks] by simp
  show ?thesis
  proof (cases "admitted ap now job ?p (li_net s)")
    case None
    let ?n = "snd (conn_close (job_client job) (li_net s))"
    have e: "px = add_open (-1) ?p" "n = ?n" using served None by (simp_all add: served_by_phases)
    have "serve_step env ap sv now (?at Counted ?p (li_net s)) (?at (Closing None) ?p ?n)"
      by (rule step) (simp_all add: None)
    moreover have "serve_step env ap sv now \<dots> (?at (Gone None) px n)"
      by (rule step) (simp_all add: e)
    ultimately show ?thesis using 1 by (meson converse_rtranclp_into_rtranclp rtranclp.rtrancl_refl)
  next
    case (Some r)
    then obtain cx where cx: "admitted ap now job ?p (li_net s) = Some (Val cx)"
      using served by (cases r) (auto simp: served_by_phases)
    let ?q = "?p\<lparr>px_sess := px_sess ?p + 1\<rparr>" and ?k = "Some (cx_session cx)"
    obtain s' where w: "work env ap sv job (session_state job now cx ?q (li_net s)) = (Val (), s')"
      "px = add_open (-1) (ps_proxy s')" "n = ps_net s'"
      using served cx by (auto simp: served_by_phases split: prod.splits)
    have "serve_step env ap sv now (?at Counted ?p (li_net s)) (?at (Serving cx) ?q (li_net s))"
      by (rule step) (simp_all add: cx)
    moreover have "serve_step env ap sv now \<dots> (?at (Closing ?k) (ps_proxy s') (ps_net s'))"
      by (rule step) (simp_all add: w(1))
    moreover have "serve_step env ap sv now \<dots> (?at (Gone ?k) px n)"
      by (rule step) (simp_all add: w(2,3))
    ultimately show ?thesis using 1 by (meson converse_rtranclp_into_rtranclp rtranclp.rtrancl_refl)
  qed
qed

lemma serve_listen_run: "(serve_step env ap sv now)\<^sup>*\<^sup>* s t \<Longrightarrow> (listen_step env ap sv now)\<^sup>*\<^sup>* s t"
  by (rule rtranclp_mono [THEN predicate2D]) (auto intro: listen_step.serves)

lemma down_stuck: "down s \<Longrightarrow> \<not> listen_step env ap sv now s t"
  by (auto elim: listen_stepE serve_stepE)

text \<open>A request that could not be parsed has no URL, and the answer to a rejection reads its path.\<close>

lemma unparsed_rejected:
  assumes "check_domain (ap_resolver ap c n)" "buf \<noteq> []" "ap_trace ap = None" "ap_handle_http ap = None"
    and "sv_request sv = pre @ g # post" "\<forall>h \<in> set pre. looks_on h" "turns_down g"
  shows "\<exists>cx. admitted ap now (HttpJob c (Inl e) buf) px n = Some (Val cx) \<and>
    (\<forall>p m. \<exists>s'. work env ap sv (HttpJob c (Inl e) buf) (session_state (HttpJob c (Inl e) buf) now cx p m) = (Panic nil_deref, s'))"
proof -
  let ?job = "HttpJob c (Inl e) buf" and ?r = "unparsed_request\<lparr>rq_host := ap_resolver ap c n\<rparr>"
  have host: "rq_host ?r \<noteq> []" using assms(1) by (auto simp: check_domain_def)
  have bad: "\<not> check_domain (rq_host unparsed_request)"
    by (simp add: unparsed_request_def empty_request_def check_domain_def)
  obtain cx where cx: "http_ctx ap px now c ?r (Some buf) = Val cx"
    using plain_exchange_prepared [OF host assms(3), of px now c buf undefined] by blast
  have "\<exists>s'. work env ap sv ?job (session_state ?job now cx p m) = (Panic nil_deref, s')" for p m
  proof -
    define s where "s cx = session_state ?job now cx p m" for cx
    obtain s1 where s1: "prepare_http ap (s cx) = (Val (), s1)"
      "exchange (ps_ctx s1) = (absolute_url (rq_host ?r) ?r, WNsd, False, False, None, 0, rq_method ?r, Some (TcpRef c), False, no_trace)"
      using plain_exchange_prepared [OF host assms(3), of px now c buf "s undefined"] cx
      by (auto simp: s_def session_state_def)
    obtain s2 where s2: "request_loop env sv (sv_request sv) s1 = request_loop env sv (ret REJECT # post) s2" "same_exchange s1 s2"
      unfolding assms(5) using exchanged.request_decided assms(6,7) unfolding looks_on_def turns_down_def by blast
    have "rq_url (cx_req (ps_ctx s2)) = None" "rq_method (cx_req (ps_ctx s1)) \<noteq> ''CONNECT''"
      using s1(2) s2(2)
      by (simp_all add: same_exchange_def exchange_def absolute_url_def unparsed_request_def empty_request_def)
    then show ?thesis using s1(1) s2(1) assms(4)
      by (simp add: s_def handle_http_connection_def dispatch_request_handlers_def blocked_answer_def
          bnd_apply thn_def get_ctx_def gets_def ret_def gopanic_def)
  qed
  then show ?thesis using cx assms(1,2) bad by (simp add: Let_def)
qed

section \<open>Properties\<close>

text \<open>
  C6. However the goroutines of the listeners take turns, in every reachable state the counter of running
  handlers is what it was at the start plus the number of goroutines that have begun and not ended, and the
  session numbers that were drawn are pairwise distinct and are all the numbers from the start up to the
  counter: none is given twice and none is left out.
\<close>

theorem running_handlers_counted:
  assumes "(listen_step env ap sv now)\<^sup>*\<^sup>* (new_listening px n) s" "steady_app ap" "steady_server sv"
  shows "px_open_handlers (li_proxy s) = px_open_handlers px + running_count (li_tasks s) \<and>
    distinct (sessions (li_tasks s)) \<and> set (sessions (li_tasks s)) = {px_sess px <.. px_sess (li_proxy s)}"
  using listeners.kept_run [OF assms(1)] assms(2,3) new_listening_ok [of px n] unfolding listen_ok_def by blast

lemma steady_examples: "steady noting_handler" "steady always_reject" "steady always_forward"
  unfolding noting_handler_def always_reject_def always_forward_def by (intro steady_intros)+

lemma refusing_steady: "steady_server refusing_server" "steady_app example_app"
  by (simp_all add: steady_server_def refusing_server_def empty_server_def steady_examples steady_app_def example_app_def)

definition first_job :: job where
  "first_job = HttpJob 0 (Inl (ErrText ''malformed'')) ''x''"

definition second_job :: job where
  "second_job = TlsJob 1 (TcpRef 1) ''a.com'' False None"

text \<open>Two connections are accepted, one of each kind; the first goroutine begins.\<close>

lemma two_accepted:
  "(listen_step env ap sv now)\<^sup>*\<^sup>* (new_listening px n)
     (new_listening (add_open 1 px) n\<lparr>li_tasks := [(first_job, Counted), (second_job, Accepted)]\<rparr>)"
proof -
  have "listen_step env ap sv now (new_listening px n) (new_listening px n\<lparr>li_tasks := [(first_job, Accepted)]\<rparr>)"
    using listen_step.accepts [of "new_listening px n" env ap sv now first_job] by (simp add: new_listening_def down_def)
  moreover have "listen_step env ap sv now \<dots> (new_listening px n\<lparr>li_tasks := [(first_job, Accepted), (second_job, Accepted)]\<rparr>)"
    using listen_step.accepts [of "new_listening px n\<lparr>li_tasks := [(first_job, Accepted)]\<rparr>" env ap sv now second_job]
    by (simp add: new_listening_def down_def)
  moreover have "listen_step env ap sv now \<dots>
      (new_listening (add_open 1 px) n\<lparr>li_tasks := [(first_job, Counted), (second_job, Accepted)]\<rparr>)"
    using listen_step.serves [OF serve_step.goes_on [of "new_listening px n\<lparr>li_tasks := [(first_job, Accepted), (second_job, Accepted)]\<rparr>"
        "[]" first_job Accepted "[(second_job, Accepted)]" env ap sv now Counted "add_open 1 px" n]]
    by (simp add: new_listening_def down_def)
  ultimately show ?thesis by (meson converse_rtranclp_into_rtranclp rtranclp.rtrancl_refl)
qed

theorem running_handlers_counted_witness:
  "\<exists>s. (listen_step example_env example_app refusing_server 0)\<^sup>*\<^sup>* (new_listening example_proxy quiet_net) s \<and>
     li_tasks s = [(first_job, Counted), (second_job, Accepted)] \<and> px_open_handlers (li_proxy s) = 1"
proof -
  let ?s = "new_listening (add_open 1 example_proxy) quiet_net\<lparr>li_tasks := [(first_job, Counted), (second_job, Accepted)]\<rparr>"
  have run: "(listen_step example_env example_app refusing_server 0)\<^sup>*\<^sup>* (new_listening example_proxy quiet_net) ?s"
    by (rule two_accepted)
  have "px_open_handlers (li_proxy ?s) = 1"
    using running_handlers_counted [OF run refusing_steady(2,1)] by (simp add: example_proxy_def)
  then show ?thesis using run by auto
qed

text \<open>
  A goroutine that is not disturbed does what \<open>serve_http\<close> and \<open>serve_tls\<close> say, whatever other connections there
  are and wherever they are: from its start there is a run to its end that leaves the proxy and the network they
  leave, and the other goroutines where they were.
\<close>

theorem served_alone_agrees:
  assumes "\<not> down s" "li_tasks s = us @ (job, Accepted) # vs"
    and "served_by env ap sv now job (li_proxy s) (li_net s) = (Val (), px, n)"
  shows "\<exists>k. (listen_step env ap sv now)\<^sup>*\<^sup>* s (s\<lparr>li_proxy := px, li_net := n, li_tasks := us @ (job, Gone k) # vs\<rparr>)"
  using served_run [OF assms] serve_listen_run by blast

theorem served_alone_agrees_witness:
  "\<exists>s k. (listen_step example_env example_app empty_server 0)\<^sup>*\<^sup>* (new_listening example_proxy quiet_net
       \<lparr>li_tasks := [(HttpJob 0 (Inr empty_request) ''GET'', Accepted)]\<rparr>) s \<and>
     li_tasks s = [(HttpJob 0 (Inr empty_request) ''GET'', Gone k)] \<and> tc_closed (nt_conns (li_net s) 0)"
proof -
  let ?job = "HttpJob 0 (Inr empty_request) ''GET''"
  let ?s = "new_listening example_proxy quiet_net\<lparr>li_tasks := [(?job, Accepted)]\<rparr>"
  let ?n = "snd (conn_close (TcpRef 0) quiet_net)"
  have bad: "\<not> check_domain []" "\<not> check_domain ''<nil>''" by (rule check_domain_bad)+
  have a: "resolve_conntrack (Inr [(80, ''10.0.0.9'')]) ''10.0.0.2:5000'' = ''<nil>''" by code_simp
  have served: "served_by example_env example_app empty_server 0 ?job (li_proxy ?s) (li_net ?s) = (Val (), example_proxy, ?n)"
    using bad a by (simp add: served_by_def serve_http_def Let_def empty_request_def example_app_def new_listening_def add_open_def)
  obtain k where "(listen_step example_env example_app empty_server 0)\<^sup>*\<^sup>* ?s
      (?s\<lparr>li_proxy := example_proxy, li_net := ?n, li_tasks := [(?job, Gone k)]\<rparr>)"
    using served_alone_agrees [OF _ _ served, of "[]" "[]"] by (auto simp: new_listening_def down_def simp del: conn_close.simps)
  moreover have "tc_closed (nt_conns ?n 0)" using conn_close_closed [of "TcpRef 0" quiet_net] by simp
  ultimately show ?thesis by fastforce
qed

text \<open>
  When no more connections are accepted, the goroutines end: from every reachable state at most four steps
  per connection are left, and there is a run to a state in which the process was brought down by a panic, or
  every connection has been served and the counter of running handlers is back where it was.
\<close>

theorem listeners_drain:
  assumes "(listen_step env ap sv now)\<^sup>*\<^sup>* (new_listening px n) s" "steady_app ap" "steady_server sv"
  shows "((serve_step env ap sv now ^^ k) s u \<longrightarrow> k \<le> 4 * length (li_tasks s)) \<and>
    (\<exists>t. (serve_step env ap sv now)\<^sup>*\<^sup>* s t \<and> (down t \<or>
       (\<forall>x \<in> set (li_tasks t). \<exists>i. snd x = Gone i) \<and> px_open_handlers (li_proxy t) = px_open_handlers px))"
proof -
  have ok: "steady_app ap \<and> steady_server sv \<and> listen_ok px s"
    using listeners.kept_run [OF assms(1)] assms(2,3) new_listening_ok [of px n] by blast
  have "k \<le> 4 * length (li_tasks s)" if "(serve_step env ap sv now ^^ k) s u"
    using serving.steps_bounded [OF ok that] tasks_left_bound [of s] by linarith
  moreover obtain t where t: "(serve_step env ap sv now)\<^sup>*\<^sup>* s t" "\<forall>v. \<not> serve_step env ap sv now t v"
    using serving.reaches_end [OF ok] by blast
  moreover have "listen_ok px t" using serving.kept_run [OF t(1) ok] by blast
  ultimately show ?thesis
    using served_when_stuck [OF t(2)] running_none [of "li_tasks t"] unfolding listen_ok_def by fastforce
qed

theorem listeners_drain_witness:
  "\<exists>t. (serve_step example_env example_app refusing_server 0)\<^sup>*\<^sup>* (new_listening (add_open 1 example_proxy) quiet_net
       \<lparr>li_tasks := [(first_job, Counted), (second_job, Accepted)]\<rparr>) t \<and>
     (down t \<or> px_open_handlers (li_proxy t) = 0)"
proof -
  have "px_open_handlers example_proxy = 0" by (simp add: example_proxy_def)
  then show ?thesis
    using conjunct2 [OF listeners_drain [OF two_accepted refusing_steady(2,1), where env = example_env and now = 0
        and px = example_proxy and n = quiet_net]] by auto
qed

text \<open>
  C8. One connection can bring the whole proxy down: when the bytes of a client are no request, the connection
  table knows its destination, and a handler rejects it, the answer reads the path of a URL that is not there; the
  goroutine panics, nothing recovers that, and from then on no step is possible, while every other connection
  stays where it was.
\<close>

theorem unparsed_request_stops_proxy:
  assumes "\<not> down s" "li_tasks s = us @ (HttpJob c (Inl e) buf, Accepted) # vs"
    and "check_domain (ap_resolver ap c (li_net s))" "buf \<noteq> []" "ap_trace ap = None" "ap_handle_http ap = None"
    and "sv_request sv = pre @ g # post" "\<forall>h \<in> set pre. looks_on h" "turns_down g"
  shows "\<exists>t k. (listen_step env ap sv now)\<^sup>*\<^sup>* s t \<and>
    li_tasks t = us @ (HttpJob c (Inl e) buf, Crashed k nil_deref) # vs \<and> (\<forall>u. \<not> listen_step env ap sv now t u)"
proof -
  let ?job = "HttpJob c (Inl e) buf" and ?p = "add_open 1 (li_proxy s)"
  obtain cx where cx: "admitted ap now ?job ?p (li_net s) = Some (Val cx)"
    and panics: "\<And>p m. \<exists>s'. work env ap sv ?job (session_state ?job now cx p m) = (Panic nil_deref, s')"
    using unparsed_rejected [OF assms(3-9), of now e ?p env] by blast
  let ?q = "?p\<lparr>px_sess := px_sess ?p + 1\<rparr>"
  obtain s' where w: "work env ap sv ?job (session_state ?job now cx ?q (li_net s)) = (Panic nil_deref, s')"
    using panics by blast
  let ?at = "task_at s us ?job vs" and ?k = "Some (cx_session cx)"
  note step = step_at [OF assms(1,2), of _ env ap sv now]
  have "serve_step env ap sv now s (?at Counted ?p (li_net s))"
    using step [of Accepted "li_proxy s" "li_net s"] task_at_start [OF assms(2)] by simp
  moreover have "advance env ap sv now ?job Counted ?p (li_net s) = Some (Serving cx, ?q, li_net s)"
    using cx by (simp del: admitted.simps)
  from step [OF _ this] have "serve_step env ap sv now (?at Counted ?p (li_net s)) (?at (Serving cx) ?q (li_net s))"
    by simp
  moreover have "advance env ap sv now ?job (Serving cx) ?q (li_net s) = Some (Crashed ?k nil_deref, add_open (-1) (ps_proxy s'), ps_net s')"
    using w by (simp del: work.simps)
  from step [OF _ this] have "serve_step env ap sv now (?at (Serving cx) ?q (li_net s))
      (?at (Crashed ?k nil_deref) (add_open (-1) (ps_proxy s')) (ps_net s'))" by simp
  ultimately have "(serve_step env ap sv now)\<^sup>*\<^sup>* s (?at (Crashed ?k nil_deref) (add_open (-1) (ps_proxy s')) (ps_net s'))"
    by (meson converse_rtranclp_into_rtranclp rtranclp.rtrancl_refl)
  moreover have "down (?at (Crashed ?k nil_deref) (add_open (-1) (ps_proxy s')) (ps_net s'))" by (simp add: down_def)
  ultimately show ?thesis using serve_listen_run down_stuck by fastforce
qed

definition resolving_app :: app where
  "resolving_app = example_app\<lparr>ap_resolver := \<lambda>c n. ''a.com''\<rparr>"

theorem unparsed_request_stops_proxy_witness:
  "\<exists>t k. (listen_step example_env resolving_app refusing_server 0)\<^sup>*\<^sup>* (new_listening example_proxy quiet_net
       \<lparr>li_tasks := [(first_job, Accepted), (second_job, Counted)]\<rparr>) t \<and>
     li_tasks t = [(first_job, Crashed k nil_deref), (second_job, Counted)] \<and>
     (\<forall>u. \<not> listen_step example_env resolving_app refusing_server 0 t u)"
proof -
  have sv: "sv_request refusing_server = [noting_handler] @ always_reject # [always_forward]"
    by (simp add: refusing_server_def)
  show ?thesis
    using unparsed_request_stops_proxy [OF _ _ _ _ _ _ sv, of "new_listening example_proxy quiet_net
        \<lparr>li_tasks := [(first_job, Accepted), (second_job, Counted)]\<rparr>" "[]" 0 "ErrText ''malformed''" "''x''"
        "[(second_job, Counted)]" resolving_app example_env 0]
    by (simp add: new_listening_def down_def first_job_def resolving_app_def example_app_def check_domain_def is_lower_def
        noting_looks_on always_reject_turns_down)
qed

end
