(* ===== verification/Spec2Isabelle.thy ===== *)
theory Spec2Isabelle
  imports Chunked Regretable Counter_Rand Log_Buffer Blocked_Page Filters Proxy_Server Persist_Conn
    Signer Har_Log Nonhttp_Trip Nonhttp_Gzip Cert_Demo
    Tunnel Wiring Pipeline_Fetch Pipeline_Connect Listener
begin

text \<open>
  A verification development of the proxy library \<open>goproxy\<close> (Go, \<open>src/\<close>).

  \<^bold>\<open>The program.\<close> \<open>ListenAndServe\<close> and \<open>ListenAndServeTLS\<close> (\<open>proxy.go\<close>) accept connections, find the
  destination (the request, the SNI of the TLS hello, or the connection tracker of the kernel), make
  a context (\<open>ProxyCtx\<close>, \<open>ctx.go\<close>) and hand it to \<open>HandleHTTPConnection\<close> or to the connect
  handlers. The handlers an application registers (\<open>dispatcher.go\<close>, \<open>handlers.go\<close>, wrapped by
  \<open>filters.go\<close>) decide: forward the raw connection, forward the sniffed request, send the request
  over a transport (\<open>roundtripper.go\<close>) and pass the response through the response handlers, answer
  themselves, or reject. Answers go out through \<open>notsodumbresponsewriter.go\<close> and \<open>chunked.go\<close>; dials
  go through \<open>https.go\<close>; \<open>tracer.go\<close>, \<open>log.go\<close> and \<open>harlog.go\<close> watch. \<open>transport/\<close> is the library's
  own HTTP transport with its pool of persistent connections; \<open>nonhttproundtripper.go\<close> is the one that is
  registered for the schemes \<open>nonhttp\<close> and \<open>nonhttps\<close>. \<open>signer.go\<close> makes the certificates of impersonated
  hosts, which \<open>signerpanic/\<close> and \<open>signerpanicfixed/\<close> demonstrate as programs of their own, \<open>har/\<close> and
  \<open>harlog.go\<close> keep an archive of exchanges. \<open>regretable/\<close>, \<open>counterecryptor.go\<close>
  and \<open>idletimeoutconn.go\<close> are parts with a contract of their own.

  \<^bold>\<open>How Go is modelled.\<close> (\<open>Go_Prelude\<close>, \<open>Go_Fmt\<close>.) A call that may panic is a function from a state to
  a value or a panic, with the state it leaves; errors are values of \<open>goerr\<close>. Strings are byte lists.
  A pointer that is shared is a number in a store (the connections of the network, the persistent
  connections of a transport); a pointer that one owner has is the record itself, and the owner's
  record is returned updated. Functions under a lock are single steps. Integers are \<open>int\<close> where the
  code cannot reach a bound and words where it can (\<open>Counter_Rand\<close>, \<open>Log_Buffer\<close>, the cipher suites).
  Where goroutines meet, one step of a relation is one call on a connection, a channel, a lock or a piece
  of shared memory, and the goroutines take turns in any order. Headers are association lists with canonical keys (\<open>Http_Types\<close>), with the order of Go's random
  iteration fixed where it shows only in the order of lines.

  \<^bold>\<open>What stands for code outside \<open>src/\<close>.\<close> The record \<open>env\<close> (\<open>Ctx\<close>) holds the network, the SNI muxer, the
  fitter that joins two connections, the shadow network, TLS clients and the reading of HTTP
  responses; \<open>dial_env\<close> (\<open>Transport_Pool\<close>) holds the same for the transport. They are unconstrained
  unless a theorem names what it needs. AES, SHA-256, regular expressions, \<open>url.Parse\<close> and gzip are
  arguments of the functions that use them. The contracts of \<open>io.Writer\<close> (\<open>byte_writer\<close>,
  \<open>total_writer\<close> in \<open>Conn_Model\<close>), \<open>io.Reader\<close> (\<open>byte_reader\<close> in \<open>Regretable\<close>), a socket with deadlines
  (\<open>deadline_setter\<close> in \<open>Idle_Timeout\<close>), a header (\<open>multi_store\<close> in \<open>Http_Types\<close>) and a filter
  (\<open>chained_handler\<close> in \<open>Filters\<close>) are locales, interpreted on the definitions of the model. So are what every
  operation of the response writer keeps (\<open>writer_invariant\<close> in \<open>Response_Writer\<close>) and the two arguments about
  step relations, that what each step keeps every run keeps, and that what each step makes smaller ends
  (\<open>kept_by_steps\<close>, \<open>measured_steps\<close> in \<open>Machines\<close>).

  \<^bold>\<open>Theories, in the order of dependence, and what each shows.\<close>
  \<^item> \<open>Conn_Model\<close>, \<open>Chunked\<close>: connections that fail after a budget of bytes, and \<open>chunkedWriter\<close>; what
    it writes is read back exactly.
  \<^item> \<open>Http_Types\<close>, \<open>Response_Writer\<close>, \<open>Blocked_Page\<close>: URLs, headers, requests, responses, bodies;
    \<open>notsodumbResponseWriter\<close>, whose chunked answers decode to what was written, and its deviations
    (empty writes, the extra line break); the page shown for a blocked host.
  \<^item> \<open>Regretable\<close>, \<open>Counter_Rand\<close>, \<open>Idle_Timeout\<close>, \<open>Log_Buffer\<close>, \<open>Tracer\<close>: reads taken back are delivered
    again; the counter counts modulo \<open>2 ^ 128\<close> and splitting reads does not change the stream; the
    deadline follows activity; polls return the lines between them; a trace is handed out once
    (an inductive step relation over the operations of the tracer).
  \<^item> \<open>Host_Names\<close>, \<open>Ctx\<close>, \<open>Ctx_Ops\<close>, \<open>Dialers\<close>: ports and host names, the context and the state of a
    handler, the setters and answers of the context, and the dialers of \<open>https.go\<close>, which close what
    they opened when they fail.
  \<^item> \<open>Forward\<close>, \<open>Round_Trip\<close>, \<open>Dispatch\<close>: \<open>ForwardConnect\<close>, \<open>ForwardRequest\<close>, \<open>ForwardResponse\<close> and
    \<open>ForwardHTTPRequest\<close>; the choice of a transport; the loops over connect, request, response and done
    handlers. A response over HTTP reaches the client whole, in chunks or with its length, whatever its body is; the
    done handlers run once for each answer over HTTP; a context claims the private network for a request that the
    proxy sent without it only when a fake destination was set. FORWARD and MITM do not end the loop over the connect
    handlers, and DONE abandons the connection.
  \<^item> \<open>Filters\<close>, \<open>Proxy_Server\<close>: the middlewares; the servers up to the handlers, the signature of a client
    hello, the destination and the URL a request has by then, and the connections that are dropped because
    their destination is unknown.
  \<^item> \<open>Pipeline\<close>, \<open>Pipeline_Answers\<close>, \<open>Pipeline_Connect\<close>, \<open>Pipeline_Fetch\<close>: a connection from accept to close, over
    all of these: what a client of a proxy whose handlers let everything pass gets, plain, with a CONNECT and over TLS,
    what it gets when a handler rejects, and when the proxy sends the request itself; why a list of bare host names
    matches no request. What is sent on of a plain request is what \<open>fmt.Fprintf\<close> makes of it (\<open>Go_Fmt\<close>), so these
    hold with percent signs too; they are without a tracer, and without \<open>HandleHTTP\<close> unless it is a CONNECT.
    The handlers are described by their answer and by what they keep (\<open>says\<close>); the locale \<open>watched\<close> has the
    loops over them, and is interpreted on what forwarding, answering and a round trip depend on.
  \<^item> \<open>Machines\<close>, \<open>Listener\<close>: what holds of every step relation with an invariant or a measure; the two loops that
    accept connections, with a goroutine for each connection, as such a relation. The counter of running
    handlers and the session numbers are right however the goroutines take turns; a goroutine by itself does what
    \<open>serve_http\<close> and \<open>serve_tls\<close> say; a panic in one ends all.
  \<^item> \<open>Transport_Pool\<close>, \<open>Persist_Conn\<close>: the pool as a state machine of atomic operations with its
    invariant (lists not empty, within the limit, of the right key, no connection twice), the exchange
    of one request, the body wrapper that returns a connection to the pool, and where connections
    are lost.

  \<^item> \<open>Signer\<close>, \<open>Har_Log\<close>: the certificates shown for impersonated hosts and their cache, as a state
    machine whose invariant is that every entry serves its host; a host that could not be verified is
    shown with an expired certificate, a verified one with a copy of its own; subdomains. The HTTP
    archive: entries, and the aggregator, which loses and repeats nothing while files can be written.

  \<^item> \<open>Conn_Lru\<close>, \<open>Nonhttp_Base\<close>, \<open>Nonhttp_Dial\<close>: of the round tripper for other protocols, the list of least
    recently used connections (a refinement of a queue), the errors, addresses, \<open>NO_PROXY\<close> (an
    equivalence with what its entries cover) and the rule for retries; the making of a connection, where
    every outcome of the \<open>select\<close> of \<open>getConn\<close> is an element of a list: a dial never leaks a
    connection, neither the one of the network nor the one over it, and a cancellation is reported as one.
  \<^item> \<open>Nonhttp_Exchange\<close>, \<open>Nonhttp_Safety\<close>, \<open>Nonhttp_Live\<close>: one exchange as an inductive step relation in which
    \<open>roundTrip\<close>, \<open>readLoop\<close>, \<open>writeLoop\<close> and the reader of the body take turns with the outside; an
    invariant of every reachable state; a measure that every step of a goroutine makes smaller, so that
    they stop, and stop by returning once the connection is closed.
  \<^item> \<open>Nonhttp_Trip\<close>, \<open>Nonhttp_Gzip\<close>: \<open>RoundTrip\<close>, whose loop ends after one attempt, and the decompressing body.

  \<^item> \<open>Goroutines\<close>, \<open>Cert_Race\<close>, \<open>Cert_Demo\<close>: goroutines as trees of accesses to memory and locks, with a
    discipline (what lock guards what, in which order locks are taken) from which the absence of races and of
    deadlocks follows; \<open>signer.go\<close> written that way, which does alone what \<open>Signer\<close> says and keeps the
    discipline in any number of goroutines; the two demonstrations, of which the first races on the map of
    certificates and the second does not.
  \<^item> \<open>Tunnel\<close>: \<open>copyAndClose\<close> and \<open>closeTogether\<close> on shared sockets: what is relayed, that nothing is closed
    in use, and that a tunnel ends by the limit its goroutines set. Nothing in the source calls the two functions, so
    that they run together is the model's; the proxy's own tunnels are joined by the fitter.
  \<^item> \<open>Wiring\<close>: \<open>NewProxyHttpServer\<close>, the setters of the server, \<open>tlsConfig\<close>, \<open>SpyConnection\<close>, and small parts
    of the transport and the archive.

  \<^bold>\<open>Termination.\<close> All definitions are total but one. The only loop of the total ones that is not
  structural is \<open>getIdleConn\<close> (\<open>pop_idle\<close>), which shortens the list of its key with every turn. \<open>RoundTrip\<close> repeats
  for ever for some behaviours of its parts, so it is a \<open>partial_function (option)\<close>, and that it
  returns with the parts of the program is proved (\<open>round_trip_single_attempt\<close>). The loops of the
  goroutines are not recursive: each turn is a step, and measures on the states (\<open>exchange_terminates\<close>,
  \<open>tunnel_ends\<close>, \<open>listeners_drain\<close>) bound how many there can be. No fuel is used.

  \<^bold>\<open>What is not modelled.\<close> The messages other components send to the log and to standard output. The
  goroutines that copy bytes between joined connections (the fitter, a library). The interleaving of
  two connections while handlers run: in \<open>Listener\<close> what happens to a connection between its session number and its
  end is one step. The resolvers
  \<open>HijackedDNSDialer\<close> and \<open>WhitelistedDNSDialer\<close>, which only fill in values of libraries. Of the
  demonstrations, the constants of the certificate authority and the clients that drive them. A configuration
  of a server is filled in before it is shared. Code that is commented out: the interception of TLS inside a
  CONNECT (\<open>ManInTheMiddleHTTPS\<close> past its panic), \<open>readRequest\<close>, \<open>certs.go\<close>, the files under
  \<open>ext/\<close>, and the repetition of traced requests.
  Handlers are functions on the state of one request; they may do anything to it that the type allows
  unless a theorem restricts them.
\<close>

end
